(* ===== verification/Prelude.thy ===== *)
theory Prelude
  imports Main "HOL-Library.Word"
begin

unbundle bit_operations_syntax

text \<open>
  What every component shares: the machine integers, memory as a list of bytes with
  bounds-checked little-endian access, the collections of simplification rules and the
  generic lemmas on words and lists.

  A C buffer is a \<open>u8 list\<close>.  An access outside of it is undefined behaviour in C; here it
  is the value \<open>None\<close>, so that a theorem that an operation returns \<open>Some\<close> says that it
  stays inside its buffer.
\<close>

section \<open>Machine integers\<close>

type_synonym u8 = "8 word"
type_synonym u16 = "16 word"
type_synonym u32 = "32 word"
type_synonym mem = "u8 list"

named_theorems byte_simps \<open>splitting words into bytes and joining them again\<close>
named_theorems mem_simps \<open>loads and stores on memory\<close>

section \<open>Little-endian words in memory\<close>

definition byte_of :: "nat \<Rightarrow> u32 \<Rightarrow> u8" where
  "byte_of i w = ucast (drop_bit (8 * i) w)"

definition le32 :: "u8 \<Rightarrow> u8 \<Rightarrow> u8 \<Rightarrow> u8 \<Rightarrow> u32" where
  "le32 b0 b1 b2 b3 =
     ucast b0 OR push_bit 8 (ucast b1) OR push_bit 16 (ucast b2) OR push_bit 24 (ucast b3)"

definition bytes32 :: "u32 \<Rightarrow> mem" where
  "bytes32 w = [byte_of 0 w, byte_of 1 w, byte_of 2 w, byte_of 3 w]"

definition load32 :: "mem \<Rightarrow> nat \<Rightarrow> u32 option" where
  "load32 m a =
     (if a + 4 \<le> length m then Some (le32 (m ! a) (m ! (a + 1)) (m ! (a + 2)) (m ! (a + 3)))
      else None)"

definition store32 :: "mem \<Rightarrow> nat \<Rightarrow> u32 \<Rightarrow> mem option" where
  "store32 m a w =
     (if a + 4 \<le> length m
      then Some (m[a := byte_of 0 w, a + 1 := byte_of 1 w, a + 2 := byte_of 2 w,
                   a + 3 := byte_of 3 w])
      else None)"

lemma le32_byte_of [byte_simps, simp]:
  "le32 (byte_of 0 w) (byte_of 1 w) (byte_of 2 w) (byte_of 3 w) = w"
  by (rule bit_word_eqI)
    (auto simp: le32_def byte_of_def bit_simps not_less less_diff_conv2,
     metis le_add_diff_inverse not_less)

lemma le32_byte_of_Suc [byte_simps, simp]:
  "le32 (byte_of 0 w) (byte_of (Suc 0) w) (byte_of 2 w) (byte_of 3 w) = w"
  using le32_byte_of [of w] by simp

lemma byte_of_le32 [byte_simps, simp]:
  "byte_of 0 (le32 b0 b1 b2 b3) = b0"
  "byte_of 1 (le32 b0 b1 b2 b3) = b1"
  "byte_of (Suc 0) (le32 b0 b1 b2 b3) = b1"
  "byte_of 2 (le32 b0 b1 b2 b3) = b2"
  "byte_of 3 (le32 b0 b1 b2 b3) = b3"
  by (rule bit_word_eqI, auto simp: le32_def byte_of_def bit_simps dest: bit_imp_le_length)+

lemma length_bytes32 [simp]: "length (bytes32 w) = 4"
  by (simp add: bytes32_def)

text \<open>
  Memory seen as a concatenation: a load or a store at the end of a prefix reads or
  replaces the four bytes that follow it, and nothing else.
\<close>

lemma load32_append [mem_simps]:
  "a = length xs \<Longrightarrow> load32 (xs @ b0 # b1 # b2 # b3 # ys) a = Some (le32 b0 b1 b2 b3)"
  by (simp add: load32_def nth_append)

lemma load32_append4 [mem_simps]:
  "a = length xs + 4 \<Longrightarrow>
   load32 (xs @ c0 # c1 # c2 # c3 # b0 # b1 # b2 # b3 # ys) a = Some (le32 b0 b1 b2 b3)"
  by (simp add: load32_def nth_append eval_nat_numeral)

lemma store32_append [mem_simps]:
  "a = length xs \<Longrightarrow> store32 (xs @ b0 # b1 # b2 # b3 # ys) a w = Some (xs @ bytes32 w @ ys)"
  by (simp add: store32_def bytes32_def list_update_append eval_nat_numeral)

lemma store32_append4 [mem_simps]:
  "a = length xs + 4 \<Longrightarrow>
   store32 (xs @ c0 # c1 # c2 # c3 # b0 # b1 # b2 # b3 # ys) a w =
     Some (xs @ c0 # c1 # c2 # c3 # bytes32 w @ ys)"
  by (simp add: store32_def bytes32_def list_update_append eval_nat_numeral)

lemma load32_None_iff: "load32 m a = None \<longleftrightarrow> length m < a + 4"
  by (auto simp: load32_def)

lemma bytes32_le32 [byte_simps, simp]: "bytes32 (le32 b0 b1 b2 b3) = [b0, b1, b2, b3]"
  by (simp add: bytes32_def)

lemma length_8_conv:
  "length xs = 8 \<longleftrightarrow> (\<exists>b0 b1 b2 b3 b4 b5 b6 b7. xs = [b0, b1, b2, b3, b4, b5, b6, b7])"
  by (auto simp: eval_nat_numeral length_Suc_conv)

section \<open>Lists in chunks of eight bytes\<close>

text \<open>Apply a function to each full chunk of eight bytes; a shorter rest is dropped.\<close>

fun map_chunks8 :: "(mem \<Rightarrow> mem) \<Rightarrow> mem \<Rightarrow> mem" where
  "map_chunks8 f (b0 # b1 # b2 # b3 # b4 # b5 # b6 # b7 # bs) =
     f [b0, b1, b2, b3, b4, b5, b6, b7] @ map_chunks8 f bs"
| "map_chunks8 f bs = []"

lemma length_map_chunks8:
  assumes "\<And>b. length b = 8 \<Longrightarrow> length (f b) = 8"
  shows "length (map_chunks8 f bs) = 8 * (length bs div 8)"
  using assms by (induction f bs rule: map_chunks8.induct) (auto simp: div_add1_eq)

text \<open>The induction over a buffer of whole chunks.\<close>

lemma chunks8_induct [consumes 1, case_names Nil chunk]:
  assumes "8 dvd length bs"
    and "P []"
    and "\<And>b bs. length b = 8 \<Longrightarrow> 8 dvd length bs \<Longrightarrow> P bs \<Longrightarrow> P (b @ bs)"
  shows "P bs"
  using assms(1)
proof (induction bs rule: length_induct)
  case (1 bs)
  show ?case
  proof (cases "bs = []")
    case False
    then have "8 \<le> length bs" using "1.prems" by (auto dest: dvd_imp_le)
    moreover have "8 dvd length (drop 8 bs)" using "1.prems" by auto
    ultimately have "P (take 8 bs @ drop 8 bs)"
      using 1 by (intro assms(3)) auto
    then show ?thesis by simp
  qed (simp add: assms(2))
qed

lemma map_chunks8_append8:
  "length b = 8 \<Longrightarrow> map_chunks8 f (b @ bs) = f b @ map_chunks8 f bs"
  by (auto simp: length_8_conv)

lemma map_chunks8_append:
  "8 dvd length xs \<Longrightarrow> map_chunks8 f (xs @ ys) = map_chunks8 f xs @ map_chunks8 f ys"
  by (induction xs rule: chunks8_induct) (auto simp: map_chunks8_append8)

lemma map_chunks8_concat:
  "\<forall>p \<in> set ps. 8 dvd length p \<Longrightarrow>
   map_chunks8 f (concat ps) = concat (map (map_chunks8 f) ps)"
  by (induction ps) (auto simp: map_chunks8_append)

lemma dvd_length_concat: "\<forall>p \<in> set ps. k dvd length p \<Longrightarrow> k dvd length (concat ps)"
  by (induction ps) auto

lemma length_le_concat: "p \<in> set ps \<Longrightarrow> length p \<le> length (concat ps)"
  by (induction ps) auto

lemma map_chunks8_inverse:
  assumes "8 dvd length bs"
    and "\<And>b. length b = 8 \<Longrightarrow> g (f b) = b" and "\<And>b. length b = 8 \<Longrightarrow> length (f b) = 8"
  shows "map_chunks8 g (map_chunks8 f bs) = bs"
  using assms(1) by (induction bs rule: chunks8_induct) (auto simp: map_chunks8_append8 assms(2,3))

end
