(* ===== verification/Tea.thy ===== *)
theory Tea
  imports Prelude
begin

text \<open>
  The TEA block cipher of \<open>src/src/tea.c\<close>: the key schedule constant, one round of
  the encryption and of the decryption loop, the two block routines that work in place on
  eight bytes of memory, and the loops \<open>encrypt_block\<close> and \<open>decrypt_block\<close> over a
  buffer.  A key is the C array \<open>uint32_t k[4]\<close>.  The lemmas show that the loops compute
  the electronic-codebook map of one block function, which is the contract (locale
  \<open>block_cipher\<close>) the rest of the system relies on.
\<close>

type_synonym tea_key = "u32 list"

section \<open>One block\<close>

definition delta :: u32 where
  "delta = 0x9e3779b9"

text \<open>The body of the two loops; the triple is \<open>v0\<close>, \<open>v1\<close>, \<open>sum\<close>.\<close>

definition encrypt_cycle :: "tea_key \<Rightarrow> u32 \<times> u32 \<times> u32 \<Rightarrow> u32 \<times> u32 \<times> u32" where
  "encrypt_cycle k = (\<lambda>(v0, v1, sum).
     let sum = sum + delta;
         v0 = v0 + ((push_bit 4 v1 + k ! 0) XOR (v1 + sum) XOR (drop_bit 5 v1 + k ! 1));
         v1 = v1 + ((push_bit 4 v0 + k ! 2) XOR (v0 + sum) XOR (drop_bit 5 v0 + k ! 3))
     in (v0, v1, sum))"

definition decrypt_cycle :: "tea_key \<Rightarrow> u32 \<times> u32 \<times> u32 \<Rightarrow> u32 \<times> u32 \<times> u32" where
  "decrypt_cycle k = (\<lambda>(v0, v1, sum).
     let v1 = v1 - ((push_bit 4 v0 + k ! 2) XOR (v0 + sum) XOR (drop_bit 5 v0 + k ! 3));
         v0 = v0 - ((push_bit 4 v1 + k ! 0) XOR (v1 + sum) XOR (drop_bit 5 v1 + k ! 1));
         sum = sum - delta
     in (v0, v1, sum))"

text \<open>
  \<open>encrypt\<close> and \<open>decrypt\<close> on the two words at offset \<open>a\<close> of a buffer: load, 32 rounds,
  store.  \<open>None\<close> when the eight bytes are not all inside the buffer.
\<close>

definition encrypt :: "mem \<Rightarrow> nat \<Rightarrow> tea_key \<Rightarrow> mem option" where
  "encrypt m a k =
     Option.bind (load32 m a) (\<lambda>v0.
     Option.bind (load32 m (a + 4)) (\<lambda>v1.
     let (v0, v1, _) = (encrypt_cycle k ^^ 32) (v0, v1, 0)
     in Option.bind (store32 m a v0) (\<lambda>m. store32 m (a + 4) v1)))"

definition decrypt :: "mem \<Rightarrow> nat \<Rightarrow> tea_key \<Rightarrow> mem option" where
  "decrypt m a k =
     Option.bind (load32 m a) (\<lambda>v0.
     Option.bind (load32 m (a + 4)) (\<lambda>v1.
     let (v0, v1, _) = (decrypt_cycle k ^^ 32) (v0, v1, 0xC6EF3720)
     in Option.bind (store32 m a v0) (\<lambda>m. store32 m (a + 4) v1)))"

section \<open>Buffers\<close>

text \<open>
  \<open>for (i=0; i<count; i+=2) f (data + i, k)\<close> over the buffer as an array of words.  The
  number of words is at most \<open>2 ^ 30\<close>, so the 32-bit counter \<open>i\<close> does not wrap.
\<close>

function block_loop :: "(mem \<Rightarrow> nat \<Rightarrow> mem option) \<Rightarrow> nat \<Rightarrow> nat \<Rightarrow> mem \<Rightarrow> mem option" where
  "block_loop f i count m =
     (if i < count then Option.bind (f m (4 * i)) (block_loop f (i + 2) count) else Some m)"
  by pat_completeness auto
termination
  by (relation "measure (\<lambda>(f, i, count, m). count - i)") auto

declare block_loop.simps [simp del]

definition encrypt_block :: "mem \<Rightarrow> u32 \<Rightarrow> tea_key \<Rightarrow> mem option" where
  "encrypt_block m len k =
     (let count = unat (drop_bit 2 len) in block_loop (\<lambda>m a. encrypt m a k) 0 count m)"

definition decrypt_block :: "mem \<Rightarrow> u32 \<Rightarrow> tea_key \<Rightarrow> mem option" where
  "decrypt_block m len k =
     (let count = unat (drop_bit 2 len) in block_loop (\<lambda>m a. decrypt m a k) 0 count m)"

section \<open>The cipher on one block of eight bytes\<close>

text \<open>The block function the routines compute, on a list of exactly eight bytes.\<close>

definition enc8 :: "tea_key \<Rightarrow> mem \<Rightarrow> mem" where
  "enc8 k b = the (encrypt b 0 k)"

definition dec8 :: "tea_key \<Rightarrow> mem \<Rightarrow> mem" where
  "dec8 k b = the (decrypt b 0 k)"

lemma decrypt_encrypt_cycle: "decrypt_cycle k (encrypt_cycle k s) = s"
  by (cases s) (simp add: encrypt_cycle_def decrypt_cycle_def Let_def)

lemma encrypt_decrypt_cycle: "encrypt_cycle k (decrypt_cycle k s) = s"
  by (cases s) (simp add: encrypt_cycle_def decrypt_cycle_def Let_def)

lemma funpow_inverse:
  fixes f g :: "'a \<Rightarrow> 'a"
  assumes "\<And>x. g (f x) = x"
  shows "(g ^^ n) ((f ^^ n) x) = x"
proof (induction n arbitrary: x)
  case (Suc n)
  have "(g ^^ Suc n) ((f ^^ Suc n) x) = (g ^^ n) (g (f ((f ^^ n) x)))"
    by (simp add: funpow_swap1)
  with Suc show ?case by (simp add: assms)
qed simp

lemmas decrypt_encrypt_rounds = funpow_inverse [of "decrypt_cycle k" "encrypt_cycle k" for k,
    OF decrypt_encrypt_cycle]
lemmas encrypt_decrypt_rounds = funpow_inverse [of "encrypt_cycle k" "decrypt_cycle k" for k,
    OF encrypt_decrypt_cycle]

text \<open>The round constants do not depend on the data: 32 steps of \<open>delta\<close> give the start of \<open>decrypt\<close>.\<close>

lemma sum_encrypt_rounds:
  "snd (snd ((encrypt_cycle k ^^ n) s)) = snd (snd s) + of_nat n * delta"
  by (induction n) (auto simp: encrypt_cycle_def Let_def split_beta algebra_simps)

lemma sum_decrypt_rounds:
  "snd (snd ((decrypt_cycle k ^^ n) s)) = snd (snd s) - of_nat n * delta"
  by (induction n) (auto simp: decrypt_cycle_def Let_def split_beta algebra_simps)

lemma sum_end: "32 * delta = 0xC6EF3720"
  by (simp add: delta_def)

lemma encrypt_at:
  assumes "length b = 8" and "a = length xs"
  shows "encrypt (xs @ b @ ys) a k = Some (xs @ enc8 k b @ ys) \<and> length (enc8 k b) = 8"
  using assms
  by (auto simp: length_8_conv encrypt_def enc8_def mem_simps bytes32_def Let_def split_beta
      load32_append [of _ "[]", simplified] load32_append4 [of _ "[]", simplified]
      store32_append [of _ "[]", simplified] store32_append4 [of _ "[]", simplified])

lemma decrypt_at:
  assumes "length b = 8" and "a = length xs"
  shows "decrypt (xs @ b @ ys) a k = Some (xs @ dec8 k b @ ys) \<and> length (dec8 k b) = 8"
  using assms
  by (auto simp: length_8_conv decrypt_def dec8_def mem_simps bytes32_def Let_def split_beta
      load32_append [of _ "[]", simplified] load32_append4 [of _ "[]", simplified]
      store32_append [of _ "[]", simplified] store32_append4 [of _ "[]", simplified])

text \<open>The block functions in terms of the two words of the block.\<close>

lemma enc8_words:
  "enc8 k (bytes32 a @ bytes32 b) =
     (let (v0, v1, _) = (encrypt_cycle k ^^ 32) (a, b, 0) in bytes32 v0 @ bytes32 v1)"
  by (simp add: enc8_def encrypt_def bytes32_def Let_def split_beta load32_def store32_def)

lemma dec8_words:
  "dec8 k (bytes32 a @ bytes32 b) =
     (let (v0, v1, _) = (decrypt_cycle k ^^ 32) (a, b, 0xC6EF3720) in bytes32 v0 @ bytes32 v1)"
  by (simp add: dec8_def decrypt_def bytes32_def Let_def split_beta load32_def store32_def)

lemma block_words:
  assumes "length b = 8"
  obtains v0 v1 where "b = bytes32 v0 @ bytes32 v1"
proof -
  from assms obtain b0 b1 b2 b3 b4 b5 b6 b7 where "b = [b0, b1, b2, b3, b4, b5, b6, b7]"
    by (auto simp: length_8_conv)
  then have "b = bytes32 (le32 b0 b1 b2 b3) @ bytes32 (le32 b4 b5 b6 b7)" by simp
  then show ?thesis by (rule that)
qed

lemma dec8_enc8:
  assumes "length b = 8"
  shows "dec8 k (enc8 k b) = b"
proof -
  obtain v0 v1 where b: "b = bytes32 v0 @ bytes32 v1" using assms by (rule block_words)
  obtain w0 w1 s where w: "(encrypt_cycle k ^^ 32) (v0, v1, 0) = (w0, w1, s)"
    by (cases "(encrypt_cycle k ^^ 32) (v0, v1, 0)")
  have "s = 0xC6EF3720"
    using sum_encrypt_rounds [of 32 k "(v0, v1, 0)"] by (simp add: w sum_end)
  with decrypt_encrypt_rounds [of 32 k "(v0, v1, 0)"] show ?thesis
    by (simp add: b enc8_words dec8_words w)
qed

lemma enc8_dec8:
  assumes "length b = 8"
  shows "enc8 k (dec8 k b) = b"
proof -
  obtain v0 v1 where b: "b = bytes32 v0 @ bytes32 v1" using assms by (rule block_words)
  obtain w0 w1 s where w: "(decrypt_cycle k ^^ 32) (v0, v1, 0xC6EF3720) = (w0, w1, s)"
    by (cases "(decrypt_cycle k ^^ 32) (v0, v1, 0xC6EF3720)")
  have "s = 0"
    using sum_decrypt_rounds [of 32 k "(v0, v1, 0xC6EF3720)"] by (simp add: w sum_end)
  with encrypt_decrypt_rounds [of 32 k "(v0, v1, 0xC6EF3720)"] show ?thesis
    by (simp add: b enc8_words dec8_words w)
qed

lemma length_enc8 [simp]: "length b = 8 \<Longrightarrow> length (enc8 k b) = 8"
  using encrypt_at [of b 0 "[]"] by simp

lemma length_dec8 [simp]: "length b = 8 \<Longrightarrow> length (dec8 k b) = 8"
  using decrypt_at [of b 0 "[]"] by simp

section \<open>The interface: a block cipher in codebook mode\<close>

text \<open>
  What the server and the boot loader use of the cipher: two functions on blocks of eight
  bytes that undo each other.  The lemmas on whole buffers are proved once here.
\<close>

locale block_cipher =
  fixes enc :: "'k \<Rightarrow> mem \<Rightarrow> mem" and dec :: "'k \<Rightarrow> mem \<Rightarrow> mem"
  assumes dec_enc: "length b = 8 \<Longrightarrow> dec k (enc k b) = b"
    and enc_dec: "length b = 8 \<Longrightarrow> enc k (dec k b) = b"
    and len_enc: "length b = 8 \<Longrightarrow> length (enc k b) = 8"
    and len_dec: "length b = 8 \<Longrightarrow> length (dec k b) = 8"
begin

lemma length_ecb_enc: "8 dvd length bs \<Longrightarrow> length (map_chunks8 (enc k) bs) = length bs"
  by (simp add: length_map_chunks8 len_enc)

lemma length_ecb_dec: "8 dvd length bs \<Longrightarrow> length (map_chunks8 (dec k) bs) = length bs"
  by (simp add: length_map_chunks8 len_dec)

lemma ecb_dec_enc: "8 dvd length bs \<Longrightarrow> map_chunks8 (dec k) (map_chunks8 (enc k) bs) = bs"
  by (rule map_chunks8_inverse) (auto simp: dec_enc len_enc)

lemma ecb_enc_dec: "8 dvd length bs \<Longrightarrow> map_chunks8 (enc k) (map_chunks8 (dec k) bs) = bs"
  by (rule map_chunks8_inverse) (auto simp: enc_dec len_dec)

text \<open>Decrypting packet by packet what was encrypted in one piece.\<close>

lemma ecb_packets:
  assumes "map_chunks8 (enc k) bs = concat ps" and "\<forall>p \<in> set ps. 8 dvd length p"
    and "8 dvd length bs"
  shows "concat (map (map_chunks8 (dec k)) ps) = bs"
  using map_chunks8_concat [OF assms(2), of "dec k"] ecb_dec_enc [OF assms(3), of k] assms(1)
  by simp

end

interpretation tea: block_cipher enc8 dec8
  by unfold_locales (simp_all add: dec8_enc8 enc8_dec8)

section \<open>The loops compute the codebook map\<close>

lemma block_loop_chunks:
  assumes f: "\<And>xs b ys. length b = 8 \<Longrightarrow> f (xs @ b @ ys) (length xs) = Some (xs @ g b @ ys)"
    and g: "\<And>b. length b = 8 \<Longrightarrow> length (g b) = 8"
    and "8 dvd length bs" and "length xs = 4 * i" and "length bs = 4 * (count - i)"
  shows "block_loop f i count (xs @ bs @ ys) = Some (xs @ map_chunks8 g bs @ ys)"
  using assms(3-5)
proof (induction bs arbitrary: xs i rule: chunks8_induct)
  case (chunk b bs)
  have "block_loop f (i + 2) count ((xs @ g b) @ bs @ ys) =
      Some ((xs @ g b) @ map_chunks8 g bs @ ys)"
    by (rule chunk.IH) (use chunk.prems chunk.hyps g in auto)
  moreover have "f (xs @ b @ bs @ ys) (4 * i) = Some (xs @ g b @ bs @ ys)"
    using f [of b xs "bs @ ys"] chunk by simp
  moreover have "i < count" using chunk by simp
  ultimately show ?case
    using chunk.hyps by (subst block_loop.simps) (simp add: map_chunks8_append8)
qed (simp add: block_loop.simps)

text \<open>
  The loop leaves the buffer exactly when the words, rounded up to whole blocks, do not fit.
\<close>

lemma block_loop_None_iff:
  assumes f: "\<And>m a. f m a = None \<longleftrightarrow> length m < a + 8"
    and len: "\<And>m a m'. f m a = Some m' \<Longrightarrow> length m' = length m"
  shows "block_loop f i count m = None \<longleftrightarrow>
    i < count \<and> length m < 4 * (count + (count - i) mod 2)"
proof (induction "count - i" arbitrary: i m rule: less_induct)
  case less
  show ?case
  proof (cases "f m (4 * i)")
    case None
    then have short: "length m < 4 * i + 8" by (simp add: f)
    define r where "r = count + (count - i) mod 2"
    have "i < count \<Longrightarrow> i + 2 \<le> r"
      unfolding r_def by (cases "count = i + 1") auto
    with short have "i < count \<Longrightarrow> length m < 4 * r" by auto
    then show ?thesis using None by (subst block_loop.simps) (auto simp: r_def)
  next
    case (Some m')
    then have m': "length m' = length m" "4 * i + 8 \<le> length m"
      using len f [of m "4 * i"] by (simp, metis option.distinct(1) not_less)
    show ?thesis
    proof (cases "i < count")
      case True
      have IH: "block_loop f (i + 2) count m' = None \<longleftrightarrow>
          i + 2 < count \<and> length m < 4 * (count + (count - (i + 2)) mod 2)"
        using less [of "i + 2" m'] True m' by auto
      show ?thesis
      proof (cases "i + 2 < count")
        case True
        then have "count - i = count - (i + 2) + 2" by simp
        then have "(count - (i + 2)) mod 2 = (count - i) mod 2" by simp
        with True IH Some show ?thesis by (subst block_loop.simps) simp
      next
        case False
        with True have "count = i + 1 \<or> count = i + 2" by auto
        with IH Some m' show ?thesis by (subst block_loop.simps) auto
      qed
    qed (simp add: block_loop.simps)
  qed
qed

lemma encrypt_None_iff: "encrypt m a k = None \<longleftrightarrow> length m < a + 8"
  by (auto simp: encrypt_def load32_def store32_def Let_def split_beta)

lemma decrypt_None_iff: "decrypt m a k = None \<longleftrightarrow> length m < a + 8"
  by (auto simp: decrypt_def load32_def store32_def Let_def split_beta)

lemma encrypt_length: "encrypt m a k = Some m' \<Longrightarrow> length m' = length m"
  by (auto simp: encrypt_def load32_def store32_def Let_def split_beta split: if_splits)

lemma decrypt_length: "decrypt m a k = Some m' \<Longrightarrow> length m' = length m"
  by (auto simp: decrypt_def load32_def store32_def Let_def split_beta split: if_splits)

lemma block_loop_length:
  assumes "\<And>m a m'. f m a = Some m' \<Longrightarrow> length m' = length m"
  shows "block_loop f i count m = Some m' \<Longrightarrow> length m' = length m"
proof (induction "count - i" arbitrary: i m rule: less_induct)
  case less
  show ?case
  proof (cases "i < count")
    case True
    with less.prems obtain m1 where "f m (4 * i) = Some m1" "block_loop f (i + 2) count m1 = Some m'"
      by (subst (asm) block_loop.simps) (auto simp: bind_eq_Some_conv)
    with True less.hyps [of "i + 2" m1] show ?thesis by (auto dest: assms)
  next
    case False
    with less.prems show ?thesis by (simp add: block_loop.simps)
  qed
qed

lemma encrypt_block_length: "encrypt_block m len k = Some m' \<Longrightarrow> length m' = length m"
  by (auto simp: encrypt_block_def Let_def dest!: block_loop_length [rotated] dest: encrypt_length)

lemma word_count: "unat (drop_bit 2 (len :: u32)) = unat len div 4"
  by (simp only: unat_drop_bit_eq) (simp add: drop_bit_eq_div)

lemma encrypt_block_eq:
  assumes "8 dvd unat len" and "unat len \<le> length m"
  shows "encrypt_block m len k = Some (map_chunks8 (enc8 k) (take (unat len) m) @ drop (unat len) m)"
proof -
  have "4 * (unat len div 4) = unat len"
    using assms(1) by (intro dvd_mult_div_cancel) (auto elim: dvd_trans [rotated])
  then show ?thesis
    using block_loop_chunks [of "\<lambda>m a. encrypt m a k" "enc8 k" "take (unat len) m" "[]" 0
        "unat len div 4" "drop (unat len) m"] assms encrypt_at [OF _ refl]
    unfolding encrypt_block_def word_count by simp
qed

lemma decrypt_block_eq:
  assumes "8 dvd unat len" and "unat len \<le> length m"
  shows "decrypt_block m len k = Some (map_chunks8 (dec8 k) (take (unat len) m) @ drop (unat len) m)"
proof -
  have "4 * (unat len div 4) = unat len"
    using assms(1) by (intro dvd_mult_div_cancel) (auto elim: dvd_trans [rotated])
  then show ?thesis
    using block_loop_chunks [of "\<lambda>m a. decrypt m a k" "dec8 k" "take (unat len) m" "[]" 0
        "unat len div 4" "drop (unat len) m"] assms decrypt_at [OF _ refl]
    unfolding decrypt_block_def word_count by simp
qed

section \<open>Properties\<close>

text \<open>
  C1: The two buffer routines undo each other, in both orders, on every buffer of whole
  blocks, and leave the bytes after \<open>len\<close> alone.
\<close>

theorem block_roundtrip:
  assumes "8 dvd unat len" and "unat len \<le> length m"
  shows "Option.bind (encrypt_block m len k) (\<lambda>c. decrypt_block c len k) = Some m
    \<and> Option.bind (decrypt_block m len k) (\<lambda>c. encrypt_block c len k) = Some m
    \<and> map_option (drop (unat len)) (encrypt_block m len k) = Some (drop (unat len) m)"
proof -
  have dvd: "8 dvd length (take (unat len) m)" using assms by simp
  show ?thesis
    using assms tea.length_ecb_enc [OF dvd, of k] tea.length_ecb_dec [OF dvd, of k]
    by (simp add: encrypt_block_eq decrypt_block_eq tea.ecb_dec_enc [OF dvd] tea.ecb_enc_dec [OF dvd])
qed

theorem block_roundtrip_witness:
  "Option.bind (encrypt_block [1,2,3,4,5,6,7,8,9] 8 [10,11,12,13])
     (\<lambda>c. decrypt_block c 8 [10,11,12,13]) = Some [1,2,3,4,5,6,7,8,9]"
  using block_roundtrip [of 8 "[1,2,3,4,5,6,7,8,9]" "[10,11,12,13]"] by simp

text \<open>
  The routines touch memory outside the buffer exactly when the number of words,
  rounded up to whole blocks, does not fit: a length that is not a multiple of eight
  makes the last step overrun a buffer of that length.
\<close>

theorem block_overrun:
  "(encrypt_block m len k = None) = (length m < 4 * (unat len div 4 + unat len div 4 mod 2))
   \<and> (decrypt_block m len k = None) = (length m < 4 * (unat len div 4 + unat len div 4 mod 2))"
  using block_loop_None_iff [of "\<lambda>m a. encrypt m a k" 0 "unat len div 4" m]
    block_loop_None_iff [of "\<lambda>m a. decrypt m a k" 0 "unat len div 4" m]
  by (auto simp: encrypt_block_def decrypt_block_def word_count encrypt_None_iff decrypt_None_iff
      encrypt_length decrypt_length)

text \<open>
  Decrypting a stream packet by packet gives what was encrypted in one piece, however
  the stream is cut at multiples of eight: the packets of the cipher text, decrypted one at a
  time, concatenate to the plain text.
\<close>

theorem decrypt_packets:
  assumes "encrypt_block m (of_nat (length m)) k = Some (concat ps)"
    and "\<forall>p \<in> set ps. 8 dvd length p" and "length m < 2 ^ 32"
  shows "concat (map (\<lambda>p. the (decrypt_block p (of_nat (length p)) k)) ps) = m"
proof -
  have len: "length (concat ps) = length m" using assms(1) by (rule encrypt_block_length)
  have n: "unat (of_nat (length m) :: u32) = length m" using assms(3) by (simp add: unat_of_nat)
  have dvd: "8 dvd length m" using dvd_length_concat [OF assms(2)] len by simp
  have enc: "map_chunks8 (enc8 k) m = concat ps"
    using assms(1) encrypt_block_eq [of "of_nat (length m)" m k] dvd by (simp add: n)
  have "the (decrypt_block p (of_nat (length p)) k) = map_chunks8 (dec8 k) p" if "p \<in> set ps" for p
  proof -
    have "length p < 2 ^ 32" using length_le_concat [OF that] len assms(3) by simp
    then have "unat (of_nat (length p) :: u32) = length p" by (simp add: unat_of_nat)
    with that assms(2) show ?thesis using decrypt_block_eq [of "of_nat (length p)" p k] by simp
  qed
  then have "map (\<lambda>p. the (decrypt_block p (of_nat (length p)) k)) ps =
      map (map_chunks8 (dec8 k)) ps" by simp
  with tea.ecb_packets [OF enc assms(2) dvd] show ?thesis by (simp cong: map_cong)
qed

theorem decrypt_packets_witness:
  "\<exists>p q. concat (map (\<lambda>p. the (decrypt_block p (of_nat (length p)) [1,2,3,4])) [p, q])
     = [1,2,3,4,5,6,7,8] @ [9,9,9,9,9,9,9,9]"
proof -
  let ?m = "[1,2,3,4,5,6,7,8] @ [9,9,9,9,9,9,9,9] :: mem"
  let ?p = "enc8 [1,2,3,4] [1,2,3,4,5,6,7,8]" and ?q = "enc8 [1,2,3,4] [9,9,9,9,9,9,9,9]"
  have "encrypt_block ?m (of_nat (length ?m)) [1,2,3,4] = Some (concat [?p, ?q])"
    by (subst encrypt_block_eq) simp_all
  from decrypt_packets [OF this] show ?thesis by (intro exI [of _ ?p] exI [of _ ?q]) simp
qed

end
