(* ===== verification/Keys.thy ===== *)
theory Keys
  imports Tea
begin

text \<open>
  The keys of \<open>src/src/keys.c\<close>: the two constant secret keys, the identification of one chip
  (\<open>GetUUID\<close>, where the registers of the chip are parameters), and the keys of one device
  derived from it by \<open>xor_key\<close>.  Both sides of the system compute with these: the device
  in \<open>generate_keys\<close>, the server by undoing the \<open>xor\<close> with the server key.
\<close>

record private_keys =
  server :: tea_key
  loader :: tea_key

definition SecretKeys :: private_keys where
  "SecretKeys = \<lparr>
     server = [0x548BE7C9, 0x6A192FFF, 0x4F60B9AA, 0x25B2F8A2],
     loader = [0x7090F460, 0x142A17AB, 0x5CFA0569, 0x37F47998] \<rparr>"

text \<open>\<open>UUID_SIZE\<close> and \<open>TEA_KEY_SIZE\<close> are both four.\<close>

definition UUID_SIZE :: nat where
  "UUID_SIZE = 4"

definition xor_key :: "u32 list \<Rightarrow> u32 list \<Rightarrow> u32 list" where
  "xor_key inkey u = map (\<lambda>n. inkey ! n XOR u ! n) [0..<UUID_SIZE]"

text \<open>
  On the chip: three words of the unique identification and the low half of the flash size
  word.  \<open>ID\<close> and \<open>SIZE\<close> are what the two memory-mapped registers read.
\<close>

definition GetUUID :: "(nat \<Rightarrow> u32) \<Rightarrow> u32 \<Rightarrow> u32 list" where
  "GetUUID ID SIZE = map ID [0..<3] @ [SIZE AND 0xFFFF]"

definition generate_keys_for :: "u32 list \<Rightarrow> private_keys" where
  "generate_keys_for uuid = \<lparr> server = xor_key (server SecretKeys) uuid,
                              loader = xor_key (loader SecretKeys) uuid \<rparr>"

definition generate_keys_arm :: "(nat \<Rightarrow> u32) \<Rightarrow> u32 \<Rightarrow> private_keys" where
  "generate_keys_arm ID SIZE = generate_keys_for (GetUUID ID SIZE)"

definition generate_keys_host :: private_keys where
  "generate_keys_host = generate_keys_for [0x001e0027, 0x33314718, 0x35373532, 0x00000000]"

lemma length_4_conv: "length k = 4 \<longleftrightarrow> (\<exists>a b c d. k = [a, b, c, d])"
  by (auto simp: eval_nat_numeral length_Suc_conv)

lemma xor_key_4 [simp]: "xor_key [a, b, c, d] [e, f, g, h] = [a XOR e, b XOR f, c XOR g, d XOR h]"
  by (simp add: xor_key_def UUID_SIZE_def upt_rec)

lemma length_xor_key [simp]: "length (xor_key k u) = 4"
  by (simp add: xor_key_def UUID_SIZE_def)

lemma upto3: "[0..<3] = [0, 1, 2::nat]"
  by (simp add: eval_nat_numeral)

lemma length_GetUUID [simp]: "length (GetUUID ID SIZE) = 4"
  by (simp add: GetUUID_def)

lemma xor_key_commute: "xor_key k u = xor_key u k"
  by (simp add: xor_key_def xor.commute)

lemma xor_key_cancel:
  assumes "length k = 4" and "length u = 4"
  shows "xor_key (xor_key k u) k = u"
proof -
  have "(x XOR y) XOR x = y" for x y :: u32
    by (metis xor.commute xor.left_commute xor.right_neutral xor_self_eq)
  with assms show ?thesis by (auto simp: length_4_conv)
qed

lemma xor_key_cancel_left:
  "length k = 4 \<Longrightarrow> length u = 4 \<Longrightarrow> xor_key k (xor_key k u) = u"
  by (simp add: xor_key_cancel xor_key_commute [of k "xor_key k u"])

lemma length_SecretKeys [simp]:
  "length (server SecretKeys) = 4" "length (loader SecretKeys) = 4"
  by (simp_all add: SecretKeys_def)

text \<open>
  What the device shows to the world (the server key) tells the server the identification of
  the chip, and from it the server computes the loader key of exactly that device.
\<close>

theorem server_recovers_loader_key:
  "let dev = generate_keys_arm ID SIZE;
       uuid = xor_key (server dev) (server SecretKeys)
   in uuid = GetUUID ID SIZE \<and> xor_key uuid (loader SecretKeys) = loader dev"
  by (simp add: generate_keys_arm_def generate_keys_for_def xor_key_cancel Let_def
      xor_key_commute [of "GetUUID ID SIZE"])

text \<open>
  Two chips get the same loader key only when they have the same identification; the upper half
  of the word read at the flash size register does not matter.
\<close>

theorem loader_key_injective:
  "(loader (generate_keys_arm ID SIZE) = loader (generate_keys_arm ID' SIZE')) =
   (ID 0 = ID' 0 \<and> ID 1 = ID' 1 \<and> ID 2 = ID' 2 \<and> SIZE AND 0xFFFF = SIZE' AND 0xFFFF)"
proof -
  have inj: "(xor_key (loader SecretKeys) u = xor_key (loader SecretKeys) u') = (u = u')"
    if "length u = 4" "length u' = 4" for u u'
    by (metis that xor_key_cancel_left length_SecretKeys(2))
  have "(loader (generate_keys_arm ID SIZE) = loader (generate_keys_arm ID' SIZE')) =
      (GetUUID ID SIZE = GetUUID ID' SIZE')"
    by (simp add: generate_keys_arm_def generate_keys_for_def inj)
  then show ?thesis
    by (simp add: GetUUID_def upto3)
qed

end
