(* ===== verification/Image.thy ===== *)
theory Image
  imports Prelude
begin

text \<open>
  The firmware image and its descriptor.  The server completes an image file (\<open>FwCheck\<close> in
  \<open>src/src/fwcheck.cpp\<close>: padding, size and check sum), the boot loader decides with
  \<open>UserCheck\<close> and \<open>check_user\<close> (\<open>src/work/boot/checks.cpp\<close>) whether the image in flash
  may be started.  The memory of the boot loader's check is the flash from
  \<open>user_code_begin\<close> to its end.  The lemmas relate both to the sum of the words of the image.
\<close>

section \<open>The descriptor and the check sum\<close>

definition DescriptorOffset :: nat where
  "DescriptorOffset = 0x188"

definition UserMagicNumber :: u32 where
  "UserMagicNumber = 0x12345678"

text \<open>The members of \<open>UserDescriptor\<close>, three consecutive words.\<close>

definition ud_magic :: nat where "ud_magic = DescriptorOffset"
definition ud_size :: nat where "ud_size = DescriptorOffset + 4"
definition ud_check :: nat where "ud_check = DescriptorOffset + 8"

text \<open>\<open>for (n=0; n<len; n++) cs += wptr [n]\<close>; the first argument counts the steps left.\<close>

primrec sum_loop :: "nat \<Rightarrow> nat \<Rightarrow> mem \<Rightarrow> u32 \<Rightarrow> u32 option" where
  "sum_loop 0 n m cs = Some cs"
| "sum_loop (Suc k) n m cs = Option.bind (load32 m (4 * n)) (\<lambda>w. sum_loop k (n + 1) m (cs + w))"

section \<open>The boot loader\<close>

text \<open>
  The result of \<open>UserCheck\<close> with the value it leaves in \<open>image_size\<close>; \<open>None\<close> when the
  check reads behind the end of the memory.
\<close>

definition UserCheck :: "mem \<Rightarrow> (bool \<times> u32) option" where
  "UserCheck m =
     Option.bind (load32 m ud_magic) (\<lambda>magic.
     if magic \<noteq> UserMagicNumber then Some (False, 0) else
     Option.bind (load32 m ud_size) (\<lambda>size.
     let len = unat (drop_bit 2 size) in
     if len = 0 then Some (False, 0) else
     Option.bind (sum_loop len 0 m 0) (\<lambda>cs.
     if cs \<noteq> 0 then Some (False, 0) else Some (True, size))))"

definition check_user :: "bool \<Rightarrow> mem \<Rightarrow> u32 option" where
  "check_user button m =
     Option.bind (UserCheck m) (\<lambda>(_, image_size).
     if button then Some 1 else if image_size = 0 then Some 1 else Some 0)"

section \<open>The server\<close>

definition UserCheck_fw :: "mem \<Rightarrow> u32 \<Rightarrow> bool option" where
  "UserCheck_fw m filesize =
     Option.bind (load32 m ud_magic) (\<lambda>magic.
     if magic \<noteq> UserMagicNumber then Some False else
     Option.bind (load32 m ud_size) (\<lambda>ud.
     if ud \<noteq> filesize then Some False else
     let len = unat (drop_bit 2 ud) in
     Option.bind (sum_loop len 0 m 0) (\<lambda>cs.
     if cs \<noteq> 0 then Some False else Some True)))"

text \<open>
  The outcomes of \<open>FwCheck\<close>: no file, nothing read, a bad magic number (the three
  \<open>return 0\<close>), an access outside of the buffer, or the image.
\<close>

datatype fw_error = NoFile | NothingRead | BadMagic | OutOfBounds

definition check_bounds :: "'a option \<Rightarrow> ('a \<Rightarrow> fw_error + 'b) \<Rightarrow> fw_error + 'b" where
  "check_bounds r f = (case r of None \<Rightarrow> Inl OutOfBounds | Some x \<Rightarrow> f x)"

text \<open>The size of the buffer: the file size rounded up to a multiple of eight, at 32 bits.\<close>

definition padded :: "u32 \<Rightarrow> u32" where
  "padded filesize =
     (if filesize AND 7 \<noteq> 0 then push_bit 3 (drop_bit 3 filesize + 1) else filesize)"

text \<open>\<open>FwCheck\<close> on the content of the file; \<open>st_size\<close> is stored in 32 bits.\<close>

definition FwCheck :: "mem option \<Rightarrow> fw_error + mem" where
  "FwCheck file = (case file of None \<Rightarrow> Inl NoFile | Some content \<Rightarrow>
     let filesize = padded (of_nat (length content)) in
     if unat filesize < length content then Inl OutOfBounds else
     if content = [] then Inl NothingRead else
     let image = content @ replicate (unat filesize - length content) 0 in
     check_bounds (load32 image ud_magic) (\<lambda>magic.
     check_bounds (load32 image ud_size) (\<lambda>_.
     check_bounds (load32 image ud_check) (\<lambda>_.
     if magic \<noteq> UserMagicNumber then Inl BadMagic else
     check_bounds (store32 image ud_size filesize) (\<lambda>image.
     check_bounds (store32 image ud_check 0) (\<lambda>image.
     check_bounds (sum_loop (unat (drop_bit 2 filesize)) 0 image 0) (\<lambda>cs.
     check_bounds (store32 image ud_check (0 - cs)) (\<lambda>image.
     check_bounds (UserCheck_fw image filesize) (\<lambda>_. Inr image)))))))))"

section \<open>The sum of the words\<close>

definition word_at :: "mem \<Rightarrow> nat \<Rightarrow> u32" where
  "word_at m n = le32 (m ! (4 * n)) (m ! (4 * n + 1)) (m ! (4 * n + 2)) (m ! (4 * n + 3))"

definition word_sum :: "mem \<Rightarrow> nat \<Rightarrow> u32" where
  "word_sum m len = (\<Sum>n<len. word_at m n)"

lemma load32_word_at: "load32 m (4 * n) = (if 4 * (n + 1) \<le> length m then Some (word_at m n) else None)"
  by (auto simp: load32_def word_at_def)

lemma sum_loop_eq:
  "sum_loop k n m cs =
    (if k = 0 \<or> 4 * (n + k) \<le> length m then Some (cs + (\<Sum>i = n..<n + k. word_at m i)) else None)"
proof (induction k arbitrary: n cs)
  case (Suc k)
  have "(\<Sum>i = n..<n + Suc k. word_at m i) = word_at m n + (\<Sum>i = n + 1..<n + 1 + k. word_at m i)"
    by (simp add: sum.atLeast_Suc_lessThan del: sum.op_ivl_Suc)
  then show ?case by (auto simp: Suc load32_word_at add.assoc)
qed simp

lemma sum_loop_start:
  "sum_loop k 0 m cs = (if k = 0 \<or> 4 * k \<le> length m then Some (cs + word_sum m k) else None)"
  by (simp add: sum_loop_eq word_sum_def atLeast0LessThan)

lemma store32_word_at:
  assumes "store32 m (4 * j) w = Some m'"
  shows "length m' = length m" and "4 * (j + 1) \<le> length m"
    and "word_at m' n = (if n = j then w else word_at m n)"
proof -
  from assms have m': "m' = m[4 * j := byte_of 0 w, 4 * j + 1 := byte_of 1 w,
      4 * j + 2 := byte_of 2 w, 4 * j + 3 := byte_of 3 w]" and le: "4 * j + 4 \<le> length m"
    by (auto simp: store32_def split: if_splits)
  show "length m' = length m" "4 * (j + 1) \<le> length m" using le by (auto simp: m')
  show "word_at m' n = (if n = j then w else word_at m n)"
  proof (cases "n = j")
    case True
    then show ?thesis using le by (simp add: word_at_def m' nth_list_update)
  next
    case False
    then have "n < j \<or> j < n" by auto
    then have "4 * n + i \<noteq> 4 * j + k" if "i < 4" "k < 4" for i k using that by auto
    from this [of 0] this [of 1] this [of 2] this [of 3] False show ?thesis
      by (simp add: word_at_def m' nth_list_update)
  qed
qed

lemma word_sum_store:
  assumes "store32 m (4 * j) w = Some m'" and "j < len"
  shows "word_sum m' len = word_sum m len - word_at m j + w"
proof -
  have split: "{..<len} = insert j ({..<len} - {j})" using assms(2) by auto
  have "word_sum x len = word_at x j + (\<Sum>n \<in> {..<len} - {j}. word_at x n)" for x
    unfolding word_sum_def by (subst split, subst sum.insert) auto
  then show ?thesis by (simp add: store32_word_at(3) [OF assms(1)])
qed

text \<open>The descriptor lies on words.\<close>

lemma ud_words: "ud_magic = 4 * 98" "ud_size = 4 * 99" "ud_check = 4 * 100"
  by (simp_all add: ud_magic_def ud_size_def ud_check_def DescriptorOffset_def)

lemma load32_ud:
  "load32 m ud_magic = (if 396 \<le> length m then Some (word_at m 98) else None)"
  "load32 m ud_size = (if 400 \<le> length m then Some (word_at m 99) else None)"
  "load32 m ud_check = (if 404 \<le> length m then Some (word_at m 100) else None)"
  using load32_word_at [of m 98] load32_word_at [of m 99] load32_word_at [of m 100]
  by (simp_all add: ud_words)

lemma word_at_append: "4 * (n + 1) \<le> length m \<Longrightarrow> word_at (m @ r) n = word_at m n"
  by (simp add: word_at_def nth_append)

lemma word_sum_append: "4 * len \<le> length m \<Longrightarrow> word_sum (m @ r) len = word_sum m len"
  unfolding word_sum_def by (rule sum.cong) (auto simp: word_at_append)

text \<open>What the boot loader accepts, in terms of the words of the image.\<close>

lemma UserCheck_accepts_iff:
  "UserCheck m = Some (True, sz) \<longleftrightarrow>
     400 \<le> length m \<and> word_at m 98 = UserMagicNumber \<and> word_at m 99 = sz \<and>
     0 < unat (drop_bit 2 sz) \<and> 4 * unat (drop_bit 2 sz) \<le> length m \<and>
     word_sum m (unat (drop_bit 2 sz)) = 0"
  by (auto simp: UserCheck_def load32_ud sum_loop_start bind_eq_Some_conv Let_def split: if_splits)

lemma and7_eq_0: "w AND 7 = 0 \<longleftrightarrow> unat (w :: u32) mod 8 = 0"
proof -
  have "w AND 7 = take_bit 3 w" by (simp add: take_bit_eq_mask mask_eq_exp_minus_1)
  then have "w AND 7 = 0 \<longleftrightarrow> unat (take_bit 3 w) = 0" by (simp add: unat_eq_0)
  then show ?thesis by (simp only: unsigned_take_bit_eq) (simp add: take_bit_eq_mod)
qed

lemma unat_push3: "unat (push_bit 3 x) = (8 * unat x) mod 2 ^ 32" for x :: u32
  by (simp only: unsigned_push_bit_eq) (simp add: push_bit_eq_mult take_bit_eq_mod mult.commute)

lemma dvd8_padded: "8 dvd unat (padded w)"
  by (auto simp: padded_def and7_eq_0 unat_push3 dvd_mod)

lemma unat_padded:
  assumes "unat w < 2 ^ 32 - 8"
  shows "unat (padded w) = 8 * ((unat w + 7) div 8)"
proof (cases "w AND 7 = 0")
  case True
  then show ?thesis by (simp add: padded_def and7_eq_0) presburger
next
  case False
  have "unat (drop_bit 3 w) = unat w div 8"
    by (simp only: unat_drop_bit_eq) (simp add: drop_bit_eq_div)
  moreover have "unat w div 8 + 1 < 2 ^ 29" using assms by simp
  ultimately have "unat (drop_bit 3 w + 1) = unat w div 8 + 1"
    by (simp add: unat_word_ariths)
  moreover have "(unat w + 7) div 8 = unat w div 8 + 1"
    using False unfolding and7_eq_0 by presburger
  ultimately show ?thesis
    using False assms by (simp add: padded_def unat_push3)
qed

text \<open>The three stores of \<open>FwCheck\<close> make the words of the image add up to zero.\<close>

lemma seal_sum:
  assumes "store32 im0 ud_size sz = Some im1" and "store32 im1 ud_check 0 = Some im2"
    and "store32 im2 ud_check (0 - word_sum im2 len) = Some im3" and "100 < len"
  shows "word_sum im3 len = 0" and "word_at im3 98 = word_at im0 98" and "word_at im3 99 = sz"
    and "length im3 = length im0" and "n \<noteq> 99 \<Longrightarrow> n \<noteq> 100 \<Longrightarrow> word_at im3 n = word_at im0 n"
proof -
  note st = assms(1-3) [unfolded ud_words]
  show "word_sum im3 len = 0"
    using word_sum_store [OF st(3) assms(4)] store32_word_at(3) [OF st(2), of 100] by simp
  show "word_at im3 98 = word_at im0 98" "word_at im3 99 = sz"
    by (simp_all add: store32_word_at(3) [OF st(3)] store32_word_at(3) [OF st(2)]
        store32_word_at(3) [OF st(1)])
  show "length im3 = length im0"
    using store32_word_at(1) [OF st(1)] store32_word_at(1) [OF st(2)] store32_word_at(1) [OF st(3)]
    by simp
  show "n \<noteq> 99 \<Longrightarrow> n \<noteq> 100 \<Longrightarrow> word_at im3 n = word_at im0 n"
    by (simp add: store32_word_at(3) [OF st(3)] store32_word_at(3) [OF st(2)]
        store32_word_at(3) [OF st(1)])
qed

text \<open>The image \<open>FwCheck\<close> works on before it seals it.\<close>

definition fw_buffer :: "mem \<Rightarrow> mem" where
  "fw_buffer content = content @
     replicate (unat (padded (of_nat (length content))) - length content) 0"

lemma check_bounds_Inr [simp]:
  "check_bounds r f = Inr y \<longleftrightarrow> (\<exists>x. r = Some x \<and> f x = Inr y)"
  by (auto simp: check_bounds_def split: option.splits)

lemma FwCheck_Inr_cases:
  assumes "FwCheck (Some content) = Inr img"
  obtains im1 im2 where
    "length (fw_buffer content) = unat (padded (of_nat (length content)))"
    "404 \<le> length (fw_buffer content)" "word_at (fw_buffer content) 98 = UserMagicNumber"
    "store32 (fw_buffer content) ud_size (padded (of_nat (length content))) = Some im1"
    "store32 im1 ud_check 0 = Some im2"
    "store32 im2 ud_check (0 - word_sum im2 (length (fw_buffer content) div 4)) = Some img"
proof -
  let ?sz = "padded (of_nat (length content))"
  have le: "length content \<le> unat ?sz"
    using assms by (auto simp: FwCheck_def Let_def split: if_splits)
  then have len: "length (fw_buffer content) = unat ?sz" by (simp add: fw_buffer_def)
  have "unat (drop_bit 2 ?sz) = length (fw_buffer content) div 4"
    unfolding len by (simp only: unat_drop_bit_eq) (simp add: drop_bit_eq_div)
  with assms le len show ?thesis
    by (auto simp: FwCheck_def Let_def load32_ud sum_loop_start fw_buffer_def [symmetric]
        split: if_splits intro: that)
qed

text \<open>The outcome of \<open>FwCheck\<close> by the length of the file.\<close>

lemma length_fw_buffer:
  assumes "length content < 2 ^ 32 - 8"
  shows "unat (padded (of_nat (length content))) = 8 * ((length content + 7) div 8)"
    and "length (fw_buffer content) = 8 * ((length content + 7) div 8)"
proof -
  have "unat (of_nat (length content) :: u32) = length content" using assms by (simp add: unat_of_nat)
  with assms show *: "unat (padded (of_nat (length content))) = 8 * ((length content + 7) div 8)"
    using unat_padded [of "of_nat (length content)"] by simp
  show "length (fw_buffer content) = 8 * ((length content + 7) div 8)"
    unfolding fw_buffer_def length_append length_replicate * by presburger
qed

lemma FwCheck_unfold:
  assumes "length content < 2 ^ 32 - 8" and "content \<noteq> []"
  shows "FwCheck (Some content) =
    (let filesize = padded (of_nat (length content)); img = fw_buffer content in
     check_bounds (load32 img ud_magic) (\<lambda>magic.
     check_bounds (load32 img ud_size) (\<lambda>_.
     check_bounds (load32 img ud_check) (\<lambda>_.
     if magic \<noteq> UserMagicNumber then Inl BadMagic else
     check_bounds (store32 img ud_size filesize) (\<lambda>img.
     check_bounds (store32 img ud_check 0) (\<lambda>img.
     check_bounds (sum_loop (unat (drop_bit 2 filesize)) 0 img 0) (\<lambda>cs.
     check_bounds (store32 img ud_check (0 - cs)) (\<lambda>img.
     check_bounds (UserCheck_fw img filesize) (\<lambda>_. Inr img)))))))))"
proof -
  have "\<not> 8 * ((length content + 7) div 8) < length content" by presburger
  with assms(2) length_fw_buffer(1) [OF assms(1)] show ?thesis
    by (simp add: FwCheck_def fw_buffer_def Let_def)
qed

lemma FwCheck_small:
  assumes "length content < 2 ^ 32 - 8"
  shows "content = [] \<Longrightarrow> FwCheck (Some content) = Inl NothingRead"
    and "content \<noteq> [] \<Longrightarrow> length content \<le> 400 \<Longrightarrow> FwCheck (Some content) = Inl OutOfBounds"
proof -
  show "content = [] \<Longrightarrow> FwCheck (Some content) = Inl NothingRead"
    by (simp add: FwCheck_def padded_def)
  assume "content \<noteq> []" "length content \<le> 400"
  moreover from this have "(length content + 7) div 8 \<le> 50" by simp
  then have "length (fw_buffer content) \<le> 400" using length_fw_buffer(2) [OF assms] by simp
  ultimately show "FwCheck (Some content) = Inl OutOfBounds"
    using FwCheck_unfold [OF assms] by (simp add: Let_def load32_ud check_bounds_def)
qed

lemma FwCheck_large:
  assumes "length content < 2 ^ 32 - 8" and "400 < length content"
  shows "word_at (fw_buffer content) 98 \<noteq> UserMagicNumber \<Longrightarrow> FwCheck (Some content) = Inl BadMagic"
    and "word_at (fw_buffer content) 98 = UserMagicNumber \<Longrightarrow> \<exists>img. FwCheck (Some content) = Inr img"
proof -
  let ?sz = "padded (of_nat (length content))" and ?b = "fw_buffer content"
  have "51 \<le> (length content + 7) div 8" using assms(2) by simp
  then have big: "408 \<le> length ?b" using length_fw_buffer(2) [OF assms(1)] by simp
  have sz: "unat ?sz = length ?b" using length_fw_buffer [OF assms(1)] by simp
  note unfolded = FwCheck_unfold [OF assms(1)]
  have ne: "content \<noteq> []" using assms(2) by auto
  show "word_at ?b 98 \<noteq> UserMagicNumber \<Longrightarrow> FwCheck (Some content) = Inl BadMagic"
    using unfolded [OF ne] big by (simp add: Let_def load32_ud check_bounds_def)
  assume magic: "word_at ?b 98 = UserMagicNumber"
  obtain im1 where im1: "store32 ?b ud_size ?sz = Some im1" "length im1 = length ?b"
    using big by (simp add: store32_def ud_words)
  obtain im2 where im2: "store32 im1 ud_check 0 = Some im2" "length im2 = length ?b"
    using big im1(2) by (simp add: store32_def ud_words)
  define words where "words = unat (drop_bit 2 ?sz)"
  have words: "words = length ?b div 4"
    unfolding words_def sz [symmetric] by (simp only: unat_drop_bit_eq) (simp add: drop_bit_eq_div)
  obtain im3 where im3: "store32 im2 ud_check (0 - word_sum im2 words) = Some im3" "length im3 = length ?b"
    using big im2(2) by (simp add: store32_def ud_words)
  have "word_at im3 98 = UserMagicNumber" "word_at im3 99 = ?sz" "word_sum im3 words = 0"
    using seal_sum [OF im1(1) im2(1) im3(1)] big magic words by auto
  then have "UserCheck_fw im3 ?sz = Some True"
    using im3(2) big words by (simp add: UserCheck_fw_def load32_ud Let_def sum_loop_start words_def)
  then have "FwCheck (Some content) = Inr im3"
    using unfolded [OF ne] big magic im1 im2 im3 words
    by (simp add: Let_def load32_ud check_bounds_def sum_loop_start words_def)
  then show "\<exists>img. FwCheck (Some content) = Inr img" ..
qed

lemma sealed_image:
  assumes "FwCheck (Some content) = Inr img"
  shows "UserCheck (img @ rest) = Some (True, of_nat (length img))
    \<and> check_user False (img @ rest) = Some 0
    \<and> 8 dvd length img \<and> length content \<le> length img \<and> length img < 2 ^ 32
    \<and> (\<forall>n. n = 99 \<or> n = 100 \<or> word_at img n = word_at (fw_buffer content) n)"
proof -
  let ?b = "fw_buffer content" and ?sz = "padded (of_nat (length content))"
  obtain im1 im2 where b: "length ?b = unat ?sz" "404 \<le> length ?b" "word_at ?b 98 = UserMagicNumber"
    and st: "store32 ?b ud_size ?sz = Some im1" "store32 im1 ud_check 0 = Some im2"
      "store32 im2 ud_check (0 - word_sum im2 (length ?b div 4)) = Some img"
    using assms by (rule FwCheck_Inr_cases)
  have big: "100 < length ?b div 4" using b(2) by simp
  note seal = seal_sum [OF st big]
  have sz: "of_nat (length img) = ?sz" using b(1) seal(4) by simp
  have words: "unat (drop_bit 2 ?sz) = length ?b div 4"
    unfolding b(1) by (simp only: unat_drop_bit_eq) (simp add: drop_bit_eq_div)
  have accept: "UserCheck (img @ rest) = Some (True, of_nat (length img))"
    unfolding UserCheck_accepts_iff sz words
    using big b(2,3) seal by (simp add: word_at_append word_sum_append)
  moreover have "?sz \<noteq> 0" using b by auto
  ultimately have "check_user False (img @ rest) = Some 0"
    using sz by (simp add: check_user_def)
  with accept show ?thesis
    using b(1) seal(4,5) dvd8_padded [of "of_nat (length content)"] unsigned_less [of ?sz]
    by (auto simp: fw_buffer_def)
qed

text \<open>
  C2: An image the server has sealed passes the boot loader's check wherever it lies in flash (with any
  bytes behind it), with its own length as \<open>image_size\<close>; its length is a multiple of the cipher
  block, and the words of the file are kept, the size and the check sum of the descriptor apart.
\<close>

theorem sealed_image_boots:
  assumes "FwCheck (Some content) = Inr img"
  shows "UserCheck (img @ rest) = Some (True, of_nat (length img))
    \<and> check_user False (img @ rest) = Some 0
    \<and> 8 dvd length img \<and> length content \<le> length img \<and> length img < 2 ^ 32
    \<and> (\<forall>n. n = 99 \<or> n = 100 \<or> word_at img n = word_at (fw_buffer content) n)"
  using assms by (rule sealed_image)

theorem sealed_image_boots_witness:
  "\<exists>img. FwCheck (Some (replicate 392 0 @ [0x78, 0x56, 0x34, 0x12] @ replicate 8 0xAB @ [7])) =
       Inr img \<and> UserCheck (img @ [0xFF]) = Some (True, of_nat (length img))"
proof -
  let ?c = "replicate 392 0 @ [0x78, 0x56, 0x34, 0x12] @ replicate 8 0xAB @ [7] :: mem"
  have "UserMagicNumber = le32 0x78 0x56 0x34 0x12"
    by (simp add: UserMagicNumber_def le32_def push_bit_eq_mult)
  then have "\<exists>img. FwCheck (Some ?c) = Inr img"
    by (intro FwCheck_large(2)) (simp_all add: fw_buffer_def word_at_def nth_append)
  then obtain img where "FwCheck (Some ?c) = Inr img" ..
  with sealed_image_boots [OF this, of "[0xFF]"] show ?thesis by blast
qed

text \<open>
  C17: The outcome of \<open>FwCheck\<close> on every file of less than four gigabytes: an empty file is
  refused, one that ends before the descriptor makes the code read outside of its buffer, a wrong magic
  number is refused, and every other file is sealed.
\<close>

theorem FwCheck_outcomes:
  assumes "length content < 2 ^ 32 - 8"
  shows "(FwCheck (Some content) = Inl NothingRead) = (content = [])
    \<and> (FwCheck (Some content) = Inl OutOfBounds) = (content \<noteq> [] \<and> length content \<le> 400)
    \<and> (FwCheck (Some content) = Inl BadMagic) =
      (400 < length content \<and> word_at (fw_buffer content) 98 \<noteq> UserMagicNumber)
    \<and> (\<exists>img. FwCheck (Some content) = Inr img) =
      (400 < length content \<and> word_at (fw_buffer content) 98 = UserMagicNumber)"
  using FwCheck_small [OF assms] FwCheck_large [OF assms]
  by (cases "content = []"; cases "length content \<le> 400";
      cases "word_at (fw_buffer content) 98 = UserMagicNumber") auto

theorem FwCheck_outcomes_witness:
  "FwCheck (Some []) = Inl NothingRead \<and> FwCheck (Some [1, 2, 3]) = Inl OutOfBounds"
  using FwCheck_outcomes [of "[]"] FwCheck_outcomes [of "[1, 2, 3]"] by simp

text \<open>
  C13: The check sum detects every corruption of a single word: from an accepted image, replacing any one
  word of it by another value (the size word apart, which moves the end of the sum) makes the
  check fail.
\<close>

theorem corruption_detected:
  assumes "UserCheck m = Some (True, sz)" and "n < unat (drop_bit 2 sz)" and "n \<noteq> 99"
    and "w \<noteq> word_at m n" and "store32 m (4 * n) w = Some m'"
  shows "UserCheck m' = Some (False, 0) \<and> check_user button m' = Some 1"
proof -
  have old: "400 \<le> length m" "word_at m 98 = UserMagicNumber" "word_at m 99 = sz"
      "0 < unat (drop_bit 2 sz)" "4 * unat (drop_bit 2 sz) \<le> length m"
      "word_sum m (unat (drop_bit 2 sz)) = 0"
    using assms(1) by (auto simp: UserCheck_accepts_iff)
  have "word_sum m' (unat (drop_bit 2 sz)) \<noteq> 0"
    using word_sum_store [OF assms(5,2)] old(6) assms(4) by simp
  then have "UserCheck m' = Some (False, 0)"
    using old assms(3) store32_word_at [OF assms(5)]
    by (simp add: UserCheck_def load32_ud sum_loop_start Let_def)
  then show ?thesis by (simp add: check_user_def)
qed

text \<open>
  The size in the descriptor is not compared with the size of the flash: a header with the right
  magic number and a size beyond the end makes the check read outside of the flash
  (a bus fault at every start of the device).
\<close>

theorem unbounded_size_read:
  assumes "load32 m ud_magic = Some UserMagicNumber" and "load32 m ud_size = Some sz"
    and "length m < 4 * unat (drop_bit 2 sz)"
  shows "UserCheck m = None \<and> check_user button m = None"
  using assms by (auto simp: UserCheck_def check_user_def sum_loop_start Let_def)

text \<open>A descriptor in 408 bytes of flash: 97 words of one, the magic number, a size, a check.\<close>

definition example_image :: "u32 \<Rightarrow> u32 \<Rightarrow> mem" where
  "example_image sz cs = replicate 392 0 @ bytes32 UserMagicNumber @ bytes32 sz @ bytes32 cs"

lemma length_example_image [simp]: "length (example_image sz cs) = 404"
  by (simp add: example_image_def)

lemma word_at_example_image [simp]:
  "n < 98 \<Longrightarrow> word_at (example_image sz cs) n = 0"
  "word_at (example_image sz cs) 98 = UserMagicNumber"
  "word_at (example_image sz cs) 99 = sz"
  "word_at (example_image sz cs) 100 = cs"
  by (simp_all add: example_image_def word_at_def nth_append bytes32_def) (simp add: le32_def)

lemma word_sum_example_image [simp]: "word_sum (example_image sz cs) 101 = UserMagicNumber + sz + cs"
proof -
  have "(101 :: nat) = Suc (Suc (Suc 98))" by simp
  moreover have "(\<Sum>n<98. word_at (example_image sz cs) n) = 0" by simp
  ultimately show ?thesis by (simp only: word_sum_def sum.lessThan_Suc) simp
qed

theorem unbounded_size_read_witness: "UserCheck (example_image 0x10000000 0) = None"
  using unbounded_size_read [of "example_image 0x10000000 0" "0x10000000" False]
  by (simp add: load32_ud)

theorem corruption_detected_witness:
  "\<exists>m. store32 (example_image 404 (- UserMagicNumber - 404)) (4 * 7) 5 = Some m
     \<and> UserCheck m = Some (False, 0)"
proof -
  let ?m = "example_image 404 (- UserMagicNumber - 404)"
  have "UserCheck ?m = Some (True, 404)" by (simp add: UserCheck_accepts_iff)
  moreover obtain m where "store32 ?m (4 * 7) 5 = Some m" by (simp add: store32_def)
  ultimately show ?thesis using corruption_detected [of ?m 404 7 5 m] by auto
qed

end
