(* ===== verification/Flash.thy ===== *)
theory Flash
  imports Prelude
begin

unbundle bit_operations_syntax

text \<open>
  The flash driver \<open>src/lib/stm32f4/src/flash.cpp\<close>.  The flash interface of the chip is hardware and a
  parameter: a record \<open>flash_hw\<close> of the volatile accesses the driver makes, on an
  abstract state \<open>'h\<close> (reading the status register may advance the hardware).  What the
  reference manual of the chip promises of these accesses is the predicate \<open>flash_contract\<close>; it speaks of
  register bits and cells only.  The lemmas derive from it what the driver's operations do.
\<close>

record 'h flash_hw =
  read_CR :: "'h \<Rightarrow> u32"
  write_CR :: "u32 \<Rightarrow> 'h \<Rightarrow> 'h"
  write_KEYR :: "u32 \<Rightarrow> 'h \<Rightarrow> 'h"
  read_SR :: "'h \<Rightarrow> u32 \<times> 'h"
  write16 :: "u32 \<Rightarrow> u16 \<Rightarrow> 'h \<Rightarrow> 'h"

section \<open>The registers\<close>

definition FLASH_FLAG_OPERR :: u32 where "FLASH_FLAG_OPERR = 0x00000002"
definition FLASH_FLAG_WRPERR :: u32 where "FLASH_FLAG_WRPERR = 0x00000010"
definition FLASH_FLAG_BSY :: u32 where "FLASH_FLAG_BSY = 0x00010000"
definition FLASH_PSIZE_HALF_WORD :: u32 where "FLASH_PSIZE_HALF_WORD = 0x00000100"
definition CR_PSIZE_MASK :: u32 where "CR_PSIZE_MASK = 0xFFFFFCFF"
definition SECTOR_MASK :: u32 where "SECTOR_MASK = 0xFFFFFF07"
definition FLASH_CR_PG :: u32 where "FLASH_CR_PG = 0x00000001"
definition FLASH_CR_SER :: u32 where "FLASH_CR_SER = 0x00000002"
definition FLASH_CR_MER :: u32 where "FLASH_CR_MER = 0x00000004"
definition FLASH_CR_STRT :: u32 where "FLASH_CR_STRT = 0x00010000"
definition FLASH_CR_LOCK :: u32 where "FLASH_CR_LOCK = 0x80000000"
definition FLASH_KEY1 :: u32 where "FLASH_KEY1 = 0x45670123"
definition FLASH_KEY2 :: u32 where "FLASH_KEY2 = 0xCDEF89AB"

lemmas flash_bits = FLASH_FLAG_OPERR_def FLASH_FLAG_WRPERR_def FLASH_FLAG_BSY_def
  FLASH_PSIZE_HALF_WORD_def CR_PSIZE_MASK_def SECTOR_MASK_def FLASH_CR_PG_def FLASH_CR_SER_def
  FLASH_CR_MER_def FLASH_CR_STRT_def FLASH_CR_LOCK_def

datatype FLASH_Status =
    FLASH_BUSY | FLASH_ERROR_PGS | FLASH_ERROR_PGP | FLASH_ERROR_PGA | FLASH_ERROR_WRP
  | FLASH_ERROR_PROGRAM | FLASH_ERROR_OPERATION | FLASH_COMPLETE

section \<open>The driver\<close>

definition isLocked :: "'h flash_hw \<Rightarrow> 'h \<Rightarrow> bool" where
  "isLocked hw h = (read_CR hw h AND FLASH_CR_LOCK \<noteq> 0)"

definition Unlock :: "'h flash_hw \<Rightarrow> 'h \<Rightarrow> 'h" where
  "Unlock hw h =
     (if read_CR hw h AND FLASH_CR_LOCK \<noteq> 0
      then write_KEYR hw FLASH_KEY2 (write_KEYR hw FLASH_KEY1 h) else h)"

text \<open>Each test reads the status register again.\<close>

definition GetStatus :: "'h flash_hw \<Rightarrow> 'h \<Rightarrow> FLASH_Status \<times> 'h" where
  "GetStatus hw h =
     (let (sr, h) = read_SR hw h in
      if sr AND FLASH_FLAG_BSY = FLASH_FLAG_BSY then (FLASH_BUSY, h) else
      let (sr, h) = read_SR hw h in
      if sr AND FLASH_FLAG_WRPERR \<noteq> 0 then (FLASH_ERROR_WRP, h) else
      let (sr, h) = read_SR hw h in
      if sr AND 0xEF \<noteq> 0 then (FLASH_ERROR_PROGRAM, h) else
      let (sr, h) = read_SR hw h in
      if sr AND FLASH_FLAG_OPERR \<noteq> 0 then (FLASH_ERROR_OPERATION, h) else (FLASH_COMPLETE, h))"

text \<open>The polling loop; \<open>None\<close> when the hardware stays busy for ever.\<close>

partial_function (option) WaitForLastOperation ::
  "'h flash_hw \<Rightarrow> 'h \<Rightarrow> (FLASH_Status \<times> 'h) option" where
  "WaitForLastOperation hw h =
     (let (status, h) = GetStatus hw h in
      if status = FLASH_BUSY then WaitForLastOperation hw h else Some (status, h))"

definition modify_CR :: "'h flash_hw \<Rightarrow> (u32 \<Rightarrow> u32) \<Rightarrow> 'h \<Rightarrow> 'h" where
  "modify_CR hw f h = write_CR hw (f (read_CR hw h)) h"

definition EraseSector :: "'h flash_hw \<Rightarrow> u32 \<Rightarrow> 'h \<Rightarrow> (FLASH_Status \<times> 'h) option" where
  "EraseSector hw FLASH_Sector h =
     (if isLocked hw h then Some (FLASH_COMPLETE, h) else
      Option.bind (WaitForLastOperation hw h) (\<lambda>(status, h).
      if status = FLASH_COMPLETE then
        let h = modify_CR hw (\<lambda>cr. cr AND CR_PSIZE_MASK) h;
            h = modify_CR hw (\<lambda>cr. cr OR FLASH_PSIZE_HALF_WORD) h;
            h = modify_CR hw (\<lambda>cr. cr AND SECTOR_MASK) h;
            h = modify_CR hw (\<lambda>cr. cr OR (FLASH_CR_SER OR push_bit 3 FLASH_Sector)) h;
            h = modify_CR hw (\<lambda>cr. cr OR FLASH_CR_STRT) h
        in Option.bind (WaitForLastOperation hw h) (\<lambda>(status, h).
           let h = modify_CR hw (\<lambda>cr. cr AND NOT FLASH_CR_SER) h;
               h = modify_CR hw (\<lambda>cr. cr AND SECTOR_MASK) h
           in Some (status, h))
      else Some (status, h)))"

definition ProgramHalfWord ::
  "'h flash_hw \<Rightarrow> u32 \<Rightarrow> u16 \<Rightarrow> 'h \<Rightarrow> (FLASH_Status \<times> 'h) option" where
  "ProgramHalfWord hw Address Data h =
     Option.bind (WaitForLastOperation hw h) (\<lambda>(status, h).
     if status = FLASH_COMPLETE then
       let h = modify_CR hw (\<lambda>cr. cr AND CR_PSIZE_MASK) h;
           h = modify_CR hw (\<lambda>cr. cr OR FLASH_PSIZE_HALF_WORD) h;
           h = modify_CR hw (\<lambda>cr. cr OR FLASH_CR_PG) h;
           h = write16 hw Address Data h
       in Option.bind (WaitForLastOperation hw h) (\<lambda>(status, h).
          let h = modify_CR hw (\<lambda>cr. cr AND NOT FLASH_CR_PG) h
          in Some (status, h))
     else Some (status, h))"

section \<open>What the driver returns\<close>

lemma WaitForLastOperation_not_busy:
  "WaitForLastOperation hw h = Some r \<Longrightarrow> fst r \<noteq> FLASH_BUSY"
  by (erule WaitForLastOperation.raw_induct [where P = "\<lambda>hw h r. fst r \<noteq> FLASH_BUSY", rotated])
    (auto split: prod.splits if_splits)

section \<open>The contract of the hardware\<close>

text \<open>The sector sizes in KiB and the address where a sector starts (flash begins at 0x08000000).\<close>

definition SectorSizes :: "nat list" where
  "SectorSizes = [16, 16, 16, 16, 64, 128, 128, 128, 128, 128, 128, 128]"

definition maxsectors :: nat where
  "maxsectors = 12"

definition sector_base :: "nat \<Rightarrow> nat" where
  "sector_base k = 0x08000000 + 1024 * sum_list (take k SectorSizes)"

definition in_sector :: "nat \<Rightarrow> u32 \<Rightarrow> bool" where
  "in_sector k a \<longleftrightarrow> sector_base k \<le> unat a \<and> unat a < sector_base (k + 1)"

text \<open>\<open>n\<close> reads of the status register that show a running operation.\<close>

primrec polls :: "'h flash_hw \<Rightarrow> nat \<Rightarrow> 'h \<Rightarrow> 'h \<Rightarrow> bool" where
  "polls hw 0 h h' = (h = h')"
| "polls hw (Suc n) h h' =
     (fst (read_SR hw h) AND FLASH_FLAG_BSY = FLASH_FLAG_BSY \<and> polls hw n (snd (read_SR hw h)) h')"

text \<open>
  The chip (\<open>idle\<close>: no operation runs and no error flag is set; \<open>cells\<close>: the content by
  address): the unlock sequence clears LOCK; a write of the control register without STRT or LOCK just
  sets it; STRT with SER erases the sector in bits 3 to 6; a half word written
  with PG set is stored when its two cells are erased.  Both operations show BSY for a finite
  number of reads.
\<close>

definition flash_contract :: "'h flash_hw \<Rightarrow> ('h \<Rightarrow> bool) \<Rightarrow> ('h \<Rightarrow> u32 \<Rightarrow> u8) \<Rightarrow> bool" where
  "flash_contract hw idle cells \<longleftrightarrow>
     (\<forall>h. idle h \<longrightarrow> read_SR hw h = (0, h)) \<and>
     (\<forall>h. idle h \<and> read_CR hw h AND FLASH_CR_LOCK \<noteq> 0 \<longrightarrow>
        (let h' = write_KEYR hw FLASH_KEY2 (write_KEYR hw FLASH_KEY1 h) in
         idle h' \<and> read_CR hw h' = read_CR hw h AND NOT FLASH_CR_LOCK \<and> cells h' = cells h)) \<and>
     (\<forall>h v. idle h \<and> read_CR hw h AND FLASH_CR_LOCK = 0 \<and> v AND 0x80010000 = 0 \<longrightarrow>
        idle (write_CR hw v h) \<and> read_CR hw (write_CR hw v h) = v \<and>
        cells (write_CR hw v h) = cells h) \<and>
     (\<forall>h v. idle h \<and> read_CR hw h AND FLASH_CR_LOCK = 0 \<and> v AND 0x80010007 = 0x00010002 \<longrightarrow>
        (\<exists>n h'. polls hw n (write_CR hw v h) h' \<and> idle h' \<and> read_CR hw h' = v AND NOT FLASH_CR_STRT \<and>
          cells h' = (\<lambda>a. if in_sector (unat (drop_bit 3 (v AND 0x78))) a then 0xFF else cells h a))) \<and>
     (\<forall>h a d. idle h \<and> read_CR hw h AND 0x80010307 = 0x101 \<and> even (unat a) \<and>
        cells h a = 0xFF \<and> cells h (a + 1) = 0xFF \<longrightarrow>
        (\<exists>n h'. polls hw n (write16 hw a d h) h' \<and> idle h' \<and> read_CR hw h' = read_CR hw h \<and>
          cells h' = (cells h)(a := ucast d, a + 1 := ucast (drop_bit 8 d))))"

text \<open>The state between two operations of the driver: idle, unlocked, no operation selected.\<close>

definition ready :: "'h flash_hw \<Rightarrow> ('h \<Rightarrow> bool) \<Rightarrow> 'h \<Rightarrow> bool" where
  "ready hw idle h \<longleftrightarrow> idle h \<and> read_CR hw h AND 0x80010007 = 0"

lemma contract_SR: "flash_contract hw idle cells \<Longrightarrow> idle h \<Longrightarrow> read_SR hw h = (0, h)"
  by (simp add: flash_contract_def)

lemma contract_erase:
  "flash_contract hw idle cells \<Longrightarrow> idle h \<Longrightarrow> read_CR hw h AND FLASH_CR_LOCK = 0 \<Longrightarrow>
   v AND 0x80010007 = 0x00010002 \<Longrightarrow>
   \<exists>n h'. polls hw n (write_CR hw v h) h' \<and> idle h' \<and> read_CR hw h' = v AND NOT FLASH_CR_STRT \<and>
     cells h' = (\<lambda>a. if in_sector (unat (drop_bit 3 (v AND 0x78))) a then 0xFF else cells h a)"
  unfolding flash_contract_def by blast

lemma contract_program:
  "flash_contract hw idle cells \<Longrightarrow> idle h \<Longrightarrow> read_CR hw h AND 0x80010307 = 0x101 \<Longrightarrow>
   even (unat a) \<Longrightarrow> cells h a = 0xFF \<Longrightarrow> cells h (a + 1) = 0xFF \<Longrightarrow>
   \<exists>n h'. polls hw n (write16 hw a d h) h' \<and> idle h' \<and> read_CR hw h' = read_CR hw h \<and>
     cells h' = (cells h)(a := ucast d, a + 1 := ucast (drop_bit 8 d))"
  unfolding flash_contract_def by blast

lemma contract_CR:
  "flash_contract hw idle cells \<Longrightarrow> idle h \<Longrightarrow> read_CR hw h AND FLASH_CR_LOCK = 0 \<Longrightarrow>
   f (read_CR hw h) AND 0x80010000 = 0 \<Longrightarrow>
   idle (modify_CR hw f h) \<and> read_CR hw (modify_CR hw f h) = f (read_CR hw h) \<and>
   cells (modify_CR hw f h) = cells h"
  by (simp add: flash_contract_def modify_CR_def)

lemma Wait_polls:
  "read_SR hw h' = (0, h') \<Longrightarrow> polls hw n h h' \<Longrightarrow>
   WaitForLastOperation hw h = Some (FLASH_COMPLETE, h')"
proof (induction n arbitrary: h)
  case 0
  then show ?case
    by (subst WaitForLastOperation.simps) (simp add: GetStatus_def flash_bits)
next
  case (Suc n)
  then have "GetStatus hw h = (FLASH_BUSY, snd (read_SR hw h))"
    by (simp add: GetStatus_def split_beta Let_def)
  with Suc show ?case by (subst WaitForLastOperation.simps) simp
qed

lemma Wait_idle:
  "flash_contract hw idle cells \<Longrightarrow> idle h \<Longrightarrow> WaitForLastOperation hw h = Some (FLASH_COMPLETE, h)"
  by (rule Wait_polls [of hw h 0]) (auto dest: contract_SR)

section \<open>The driver on a chip that keeps the contract\<close>

text \<open>Masks of a control register value that was built up from fixed bits.\<close>

lemma mask_join:
  fixes x y m :: u32
  shows "(x OR y) AND m = (x AND m) OR (y AND m)" and "(x AND y) AND m = x AND (y AND m)"
  by (simp_all add: bit.conj_disj_distrib2 and.assoc)

lemma mask_below:
  fixes c m n :: u32
  assumes "c AND m = 0" and "n AND m = n"
  shows "c AND n = 0"
  by (metis assms and.left_commute and.commute and_zero_eq)

lemma sector_number_bits:
  assumes "k < (12 :: u32)"
  shows "push_bit 3 k AND 0x80010007 = 0" and "push_bit 3 k AND 0x78 = push_bit 3 k"
    and "drop_bit 3 (push_bit 3 k) = k"
proof -
  have "unat k < 12" using assms by (simp add: word_less_nat_alt)
  then have "unat k \<in> {0, 1, 2, 3, 4, 5, 6, 7, 8, 9, 10, 11}"
    unfolding insert_iff empty_iff by presburger
  then have "k \<in> {0, 1, 2, 3, 4, 5, 6, 7, 8, 9, 10, 11}" by (auto simp: word_unat_eq_iff)
  then show "push_bit 3 k AND 0x80010007 = 0" "push_bit 3 k AND 0x78 = push_bit 3 k"
    "drop_bit 3 (push_bit 3 k) = k" by (auto simp: push_bit_eq_mult drop_bit_eq_div)
qed

lemma ready_low:
  "ready hw idle h \<Longrightarrow> n AND 0x80010007 = n \<Longrightarrow> read_CR hw h AND n = 0"
  using mask_below [of "read_CR hw h" "0x80010007" n] by (simp add: ready_def)

text \<open>The control register the driver prepares before it starts an erase operation.\<close>

definition erase_CR :: "u32 \<Rightarrow> u32 \<Rightarrow> u32" where
  "erase_CR c k = (((c AND CR_PSIZE_MASK) OR FLASH_PSIZE_HALF_WORD) AND SECTOR_MASK)
      OR (FLASH_CR_SER OR push_bit 3 k)"

lemma erase_CR_bits:
  assumes "c AND 0x80010007 = 0" and "k < 12"
  shows "erase_CR c k AND 0x80010007 = 2" and "erase_CR c k AND 0x78 = push_bit 3 k"
  using mask_below [OF assms(1)] sector_number_bits [OF assms(2)]
  by (simp_all add: erase_CR_def mask_join flash_bits)

lemma prepare_erase:
  assumes con: "flash_contract hw idle cells" and rdy: "ready hw idle h" and k: "k < 12"
    and h4: "h4 = modify_CR hw (\<lambda>cr. cr OR (FLASH_CR_SER OR push_bit 3 k))
      (modify_CR hw (\<lambda>cr. cr AND SECTOR_MASK)
      (modify_CR hw (\<lambda>cr. cr OR FLASH_PSIZE_HALF_WORD)
      (modify_CR hw (\<lambda>cr. cr AND CR_PSIZE_MASK) h)))"
  shows "idle h4 \<and> read_CR hw h4 = erase_CR (read_CR hw h) k \<and> cells h4 = cells h"
proof -
  let ?h1 = "modify_CR hw (\<lambda>cr. cr AND CR_PSIZE_MASK) h"
  let ?h2 = "modify_CR hw (\<lambda>cr. cr OR FLASH_PSIZE_HALF_WORD) ?h1"
  let ?h3 = "modify_CR hw (\<lambda>cr. cr AND SECTOR_MASK) ?h2"
  have low: "read_CR hw h AND n = 0" if "n AND 0x80010007 = n" for n
    using mask_below [of "read_CR hw h" "0x80010007" n] rdy that by (simp add: ready_def)
  have idle: "idle h" using rdy by (simp add: ready_def)
  have 1: "idle ?h1 \<and> read_CR hw ?h1 = read_CR hw h AND CR_PSIZE_MASK \<and> cells ?h1 = cells h"
    by (rule contract_CR [OF con idle]) (simp_all add: low mask_join flash_bits)
  then have 2: "idle ?h2 \<and> read_CR hw ?h2 = (read_CR hw h AND CR_PSIZE_MASK) OR FLASH_PSIZE_HALF_WORD
      \<and> cells ?h2 = cells h"
    using contract_CR [OF con, of ?h1 "\<lambda>cr. cr OR FLASH_PSIZE_HALF_WORD"]
    by (simp add: low mask_join flash_bits)
  then have 3: "idle ?h3 \<and> read_CR hw ?h3 = ((read_CR hw h AND CR_PSIZE_MASK) OR FLASH_PSIZE_HALF_WORD)
      AND SECTOR_MASK \<and> cells ?h3 = cells h"
    using contract_CR [OF con, of ?h2 "\<lambda>cr. cr AND SECTOR_MASK"]
    by (simp add: low mask_join flash_bits)
  have "push_bit 3 k AND 0x80010000 = 0"
    using mask_below [OF sector_number_bits(1) [OF k]] by simp
  then show ?thesis unfolding h4 using 3
    contract_CR [OF con, of ?h3 "\<lambda>cr. cr OR (FLASH_CR_SER OR push_bit 3 k)"]
    by (simp add: low mask_join flash_bits erase_CR_def)
qed

lemma mask_sub:
  fixes c m n r :: u32
  assumes "c AND m = r" and "n AND m = n"
  shows "c AND n = r AND n"
  by (metis assms and.assoc and.commute)

lemma EraseSector_contract:
  assumes con: "flash_contract hw idle cells" and rdy: "ready hw idle h" and k: "k < 12"
  shows "\<exists>h'. EraseSector hw k h = Some (FLASH_COMPLETE, h') \<and> ready hw idle h' \<and>
    cells h' = (\<lambda>a. if in_sector (unat k) a then 0xFF else cells h a)"
proof -
  define v where "v = erase_CR (read_CR hw h) k OR FLASH_CR_STRT"
  define h4 where "h4 = modify_CR hw (\<lambda>cr. cr OR (FLASH_CR_SER OR push_bit 3 k))
      (modify_CR hw (\<lambda>cr. cr AND SECTOR_MASK)
      (modify_CR hw (\<lambda>cr. cr OR FLASH_PSIZE_HALF_WORD)
      (modify_CR hw (\<lambda>cr. cr AND CR_PSIZE_MASK) h)))"
  note h4 = prepare_erase [OF con rdy k h4_def]
  have idle: "idle h" using rdy by (simp add: ready_def)
  have "read_CR hw h AND FLASH_CR_LOCK = 0"
    using rdy mask_below [of "read_CR hw h" "0x80010007" FLASH_CR_LOCK]
    by (simp add: ready_def flash_bits)
  then have unlocked: "\<not> isLocked hw h" by (simp add: isLocked_def)
  note bits = erase_CR_bits [of "read_CR hw h" k, OF _ k]
  have c0: "read_CR hw h AND 0x80010007 = 0" using rdy by (simp add: ready_def)
  have v: "v AND 0x80010007 = 0x00010002" "v AND 0x78 = push_bit 3 k"
    using bits [OF c0] by (simp_all add: v_def mask_join FLASH_CR_STRT_def)
  have "erase_CR (read_CR hw h) k AND FLASH_CR_LOCK = 0"
    using mask_sub [OF bits(1) [OF c0], of FLASH_CR_LOCK] by (simp add: flash_bits)
  then obtain n h5 where h5: "polls hw n (write_CR hw v h4) h5" "idle h5"
      "read_CR hw h5 = v AND NOT FLASH_CR_STRT"
      "cells h5 = (\<lambda>a. if in_sector (unat k) a then 0xFF else cells h4 a)"
    using contract_erase [OF con, of h4 v] h4 v sector_number_bits(3) [OF k] by auto
  define h6 where "h6 = modify_CR hw (\<lambda>cr. cr AND NOT FLASH_CR_SER) h5"
  have low5: "read_CR hw h5 AND m = 2 AND m" if "m AND 0x80010007 = m" for m
  proof -
    have "read_CR hw h5 AND 0x80010007 = v AND 0x80000007"
      by (simp add: h5(3) mask_join FLASH_CR_STRT_def)
    then have "read_CR hw h5 AND 0x80010007 = 2" using mask_sub [OF v(1), of "0x80000007"] by simp
    then show ?thesis by (rule mask_sub) (rule that)
  qed
  have h6: "idle h6 \<and> read_CR hw h6 = read_CR hw h5 AND NOT FLASH_CR_SER \<and> cells h6 = cells h5"
    unfolding h6_def by (rule contract_CR [OF con h5(2)])
      (simp_all add: mask_join low5 flash_bits)
  define h7 where "h7 = modify_CR hw (\<lambda>cr. cr AND SECTOR_MASK) h6"
  have h7: "idle h7 \<and> read_CR hw h7 = (read_CR hw h5 AND NOT FLASH_CR_SER) AND SECTOR_MASK
      \<and> cells h7 = cells h6"
    using contract_CR [OF con, of h6 "\<lambda>cr. cr AND SECTOR_MASK"] h6
    by (simp add: h7_def mask_join low5 flash_bits)
  have "EraseSector hw k h = Some (FLASH_COMPLETE, h7)"
    using unlocked Wait_idle [OF con idle] Wait_polls [OF contract_SR [OF con h5(2)] h5(1)] h4
    by (simp add: EraseSector_def Let_def h4_def [symmetric] h6_def [symmetric] h7_def [symmetric])
      (simp add: modify_CR_def [of hw "\<lambda>cr. cr OR FLASH_CR_STRT"] v_def [symmetric]
        h6_def h7_def)
  moreover have "ready hw idle h7"
    using h7 by (simp add: ready_def mask_join low5 flash_bits)
  ultimately show ?thesis using h4 h5(4) h6 h7 by auto
qed

lemma Unlock_contract:
  assumes con: "flash_contract hw idle cells" and idle: "idle h"
    and quiet: "read_CR hw h AND 0x00010007 = 0"
  shows "ready hw idle (Unlock hw h) \<and> cells (Unlock hw h) = cells h"
proof (cases "read_CR hw h AND FLASH_CR_LOCK = 0")
  case True
  have "read_CR hw h AND 0x80010007 = (read_CR hw h AND 0x00010007) OR (read_CR hw h AND FLASH_CR_LOCK)"
    by (simp add: bit.conj_disj_distrib [symmetric] FLASH_CR_LOCK_def)
  with True idle quiet show ?thesis by (simp add: Unlock_def ready_def)
next
  case False
  let ?h = "write_KEYR hw FLASH_KEY2 (write_KEYR hw FLASH_KEY1 h)"
  have "idle ?h \<and> read_CR hw ?h = read_CR hw h AND NOT FLASH_CR_LOCK \<and> cells ?h = cells h"
    using con idle False unfolding flash_contract_def Let_def by blast
  with False quiet show ?thesis
    by (simp add: Unlock_def ready_def mask_join FLASH_CR_LOCK_def)
qed

lemma ProgramHalfWord_contract:
  assumes con: "flash_contract hw idle cells" and rdy: "ready hw idle h"
    and a: "even (unat a)" "cells h a = 0xFF" "cells h (a + 1) = 0xFF"
  shows "\<exists>h'. ProgramHalfWord hw a d h = Some (FLASH_COMPLETE, h') \<and> ready hw idle h' \<and>
    cells h' = (cells h)(a := ucast d, a + 1 := ucast (drop_bit 8 d))"
proof -
  have idle: "idle h" using rdy by (simp add: ready_def)
  have low: "read_CR hw h AND n = 0" if "n AND 0x80010007 = n" for n
    using mask_below [of "read_CR hw h" "0x80010007" n] rdy that by (simp add: ready_def)
  define h1 where "h1 = modify_CR hw (\<lambda>cr. cr AND CR_PSIZE_MASK) h"
  define h2 where "h2 = modify_CR hw (\<lambda>cr. cr OR FLASH_PSIZE_HALF_WORD) h1"
  define h3 where "h3 = modify_CR hw (\<lambda>cr. cr OR FLASH_CR_PG) h2"
  have 1: "idle h1 \<and> read_CR hw h1 = read_CR hw h AND CR_PSIZE_MASK \<and> cells h1 = cells h"
    unfolding h1_def by (rule contract_CR [OF con idle]) (simp_all add: low mask_join flash_bits)
  then have 2: "idle h2 \<and> read_CR hw h2 = (read_CR hw h AND CR_PSIZE_MASK) OR FLASH_PSIZE_HALF_WORD
      \<and> cells h2 = cells h"
    using contract_CR [OF con, of h1 "\<lambda>cr. cr OR FLASH_PSIZE_HALF_WORD"]
    by (simp add: h2_def low mask_join flash_bits)
  then have 3: "idle h3 \<and> read_CR hw h3 = ((read_CR hw h AND CR_PSIZE_MASK) OR FLASH_PSIZE_HALF_WORD)
      OR FLASH_CR_PG \<and> cells h3 = cells h"
    using contract_CR [OF con, of h2 "\<lambda>cr. cr OR FLASH_CR_PG"]
    by (simp add: h3_def low mask_join flash_bits)
  then have c3: "read_CR hw h3 AND 0x80010307 = 0x101" by (simp add: low mask_join flash_bits)
  obtain n h4 where h4: "polls hw n (write16 hw a d h3) h4" "idle h4" "read_CR hw h4 = read_CR hw h3"
      "cells h4 = (cells h3)(a := ucast d, a + 1 := ucast (drop_bit 8 d))"
    using contract_program [OF con, of h3 a d] 3 c3 a by auto
  define h5 where "h5 = modify_CR hw (\<lambda>cr. cr AND NOT FLASH_CR_PG) h4"
  have h5: "idle h5 \<and> read_CR hw h5 = read_CR hw h4 AND NOT FLASH_CR_PG \<and> cells h5 = cells h4"
    unfolding h5_def by (rule contract_CR [OF con h4(2)])
      (use h4(3) 3 in \<open>simp_all add: low mask_join flash_bits\<close>)
  have "ProgramHalfWord hw a d h = Some (FLASH_COMPLETE, h5)"
    using Wait_idle [OF con idle] Wait_polls [OF contract_SR [OF con h4(2)] h4(1)]
    by (simp add: ProgramHalfWord_def Let_def h1_def [symmetric] h2_def [symmetric] h3_def [symmetric]
        h5_def [symmetric])
  moreover have "ready hw idle h5"
    using h5 h4(3) 3 by (simp add: ready_def low mask_join flash_bits)
  ultimately show ?thesis using h4(4) h5 3 by auto
qed

section \<open>A chip that keeps the contract\<close>

text \<open>
  An instance of the hardware: control register, busy reads left, first key seen, cells.  Each
  operation is busy for one read of the status register.
\<close>

type_synonym chip = "u32 \<times> nat \<times> bool \<times> (u32 \<Rightarrow> u8)"

definition example_chip :: "chip flash_hw" where
  "example_chip = \<lparr>
     read_CR = fst,
     write_CR = (\<lambda>v (c, b, k, m).
       if v AND 0x80010007 = 0x00010002
       then (v AND NOT FLASH_CR_STRT, 1, k,
             \<lambda>a. if in_sector (unat (drop_bit 3 (v AND 0x78))) a then 0xFF else m a)
       else (v, b, k, m)),
     write_KEYR = (\<lambda>w (c, b, k, m).
       if w = FLASH_KEY1 then (c, b, True, m)
       else if w = FLASH_KEY2 \<and> k then (c AND NOT FLASH_CR_LOCK, b, False, m) else (c, b, False, m)),
     read_SR = (\<lambda>(c, b, k, m). if b = 0 then (0, (c, b, k, m)) else (FLASH_FLAG_BSY, (c, b - 1, k, m))),
     write16 = (\<lambda>a d (c, b, k, m). (c, 1, k, m(a := ucast d, a + 1 := ucast (drop_bit 8 d)))) \<rparr>"

definition chip_idle :: "chip \<Rightarrow> bool" where
  "chip_idle = (\<lambda>(c, b, k, m). b = 0)"

definition chip_cells :: "chip \<Rightarrow> u32 \<Rightarrow> u8" where
  "chip_cells = (\<lambda>(c, b, k, m). m)"

lemma example_chip_contract: "flash_contract example_chip chip_idle chip_cells"
proof -
  have start: "v AND 0x80010007 \<noteq> 0x00010002" if "v AND 0x80010000 = 0" for v :: u32
  proof
    assume "v AND 0x80010007 = 0x00010002"
    from mask_sub [OF this, of "0x80010000"] that show False by simp
  qed
  show ?thesis
    unfolding flash_contract_def
  proof (intro conjI allI impI)
    fix h :: chip and v :: u32 assume "chip_idle h \<and> read_CR example_chip h AND FLASH_CR_LOCK = 0
      \<and> v AND 0x80010007 = 0x00010002"
    then show "\<exists>n h'. polls example_chip n (write_CR example_chip v h) h' \<and> chip_idle h' \<and>
        read_CR example_chip h' = v AND NOT FLASH_CR_STRT \<and>
        chip_cells h' = (\<lambda>a. if in_sector (unat (drop_bit 3 (v AND 0x78))) a then 0xFF else chip_cells h a)"
      by (cases h, intro exI [of _ "Suc 0"], intro exI)
        (auto simp: example_chip_def chip_idle_def chip_cells_def)
  next
    fix h :: chip and a :: u32 and d :: u16 assume "chip_idle h \<and> read_CR example_chip h AND 0x80010307 = 0x101 \<and> even (unat a) \<and>
        chip_cells h a = 0xFF \<and> chip_cells h (a + 1) = 0xFF"
    then show "\<exists>n h'. polls example_chip n (write16 example_chip a d h) h' \<and> chip_idle h' \<and>
        read_CR example_chip h' = read_CR example_chip h \<and>
        chip_cells h' = (chip_cells h)(a := ucast d, a + 1 := ucast (drop_bit 8 d))"
      by (cases h, intro exI [of _ "Suc 0"], intro exI)
        (auto simp: example_chip_def chip_idle_def chip_cells_def)
  qed (auto simp: example_chip_def chip_idle_def chip_cells_def Let_def start
      FLASH_KEY1_def FLASH_KEY2_def)
qed

section \<open>Properties\<close>

lemma BSY_bit: "sr AND FLASH_FLAG_BSY = (if bit sr 16 then FLASH_FLAG_BSY else 0)"
proof -
  have "FLASH_FLAG_BSY = 2 ^ 16" by (simp add: FLASH_FLAG_BSY_def)
  then have "bit FLASH_FLAG_BSY n \<longleftrightarrow> n = 16" for n
    using bit_exp_iff [of 16 n, where 'a = "32 word"] by auto
  then show ?thesis by (simp, intro conjI impI; intro bit_word_eqI) (auto simp: bit_simps)
qed

text \<open>
  C14: Erasing a sector and programming one half word in it, on a chip that keeps the contract of its
  reference manual and starts locked or not: the driver returns, the half word is stored, the rest of the
  sector is erased, every other cell of the flash is unchanged, and the driver is ready
  for the next operation.
\<close>

theorem erase_then_program:
  assumes "flash_contract hw idle cells" and "idle h" and "read_CR hw h AND 0x00010007 = 0"
    and "k < 12" and "in_sector (unat k) a" and "in_sector (unat k) (a + 1)" and "even (unat a)"
  shows "\<exists>h1 h2. EraseSector hw k (Unlock hw h) = Some (FLASH_COMPLETE, h1)
    \<and> ProgramHalfWord hw a d h1 = Some (FLASH_COMPLETE, h2) \<and> ready hw idle h2
    \<and> cells h2 = (\<lambda>x. if x = a + 1 then ucast (drop_bit 8 d) else if x = a then ucast d
         else if in_sector (unat k) x then 0xFF else cells h x)"
proof -
  have unlock: "ready hw idle (Unlock hw h)" "cells (Unlock hw h) = cells h"
    using Unlock_contract [OF assms(1-3)] by auto
  obtain h1 where h1: "EraseSector hw k (Unlock hw h) = Some (FLASH_COMPLETE, h1)" "ready hw idle h1"
      "cells h1 = (\<lambda>x. if in_sector (unat k) x then 0xFF else cells h x)"
    using EraseSector_contract [OF assms(1) unlock(1) assms(4)] unfolding unlock(2) by blast
  obtain h2 where "ProgramHalfWord hw a d h1 = Some (FLASH_COMPLETE, h2)" "ready hw idle h2"
      "cells h2 = (cells h1)(a := ucast d, a + 1 := ucast (drop_bit 8 d))"
    using ProgramHalfWord_contract [OF assms(1) h1(2) assms(7)] h1(3) assms(5,6) by auto
  with h1 show ?thesis by (auto simp: fun_eq_iff)
qed

theorem erase_then_program_witness:
  "\<exists>h1 h2. EraseSector example_chip 1 (Unlock example_chip (FLASH_CR_LOCK, 0, False, \<lambda>_. 0)) =
       Some (FLASH_COMPLETE, h1)
     \<and> ProgramHalfWord example_chip 0x08004000 0x1234 h1 = Some (FLASH_COMPLETE, h2)
     \<and> chip_cells h2 0x08004001 = 0x12"
proof -
  have "in_sector 1 0x08004000" "in_sector 1 (0x08004000 + 1)"
    by (simp_all add: in_sector_def sector_base_def SectorSizes_def take_Cons')
  then show ?thesis
    using erase_then_program [OF example_chip_contract, of "(FLASH_CR_LOCK, 0, False, \<lambda>_. 0)" "1"
        "0x08004000" "0x1234"]
    by (auto simp: chip_idle_def example_chip_def flash_bits)
qed

text \<open>
  The status the driver reports for a status register that does not change between the reads.  The
  error \<open>FLASH_ERROR_OPERATION\<close> is never reported: the mask 0xEF of the test before it
  already contains the flag OPERR.
\<close>

theorem GetStatus_priority:
  assumes "read_SR hw h = (sr, h)"
  shows "GetStatus hw h =
      (if sr AND FLASH_FLAG_BSY \<noteq> 0 then FLASH_BUSY else if sr AND FLASH_FLAG_WRPERR \<noteq> 0 then FLASH_ERROR_WRP
       else if sr AND 0xEF \<noteq> 0 then FLASH_ERROR_PROGRAM else FLASH_COMPLETE, h)
    \<and> fst (GetStatus hw h) \<noteq> FLASH_ERROR_OPERATION"
proof -
  have busy: "sr AND FLASH_FLAG_BSY = FLASH_FLAG_BSY \<longleftrightarrow> sr AND FLASH_FLAG_BSY \<noteq> 0"
    unfolding BSY_bit [of sr] by (simp add: FLASH_FLAG_BSY_def)
  have "sr AND 0xEF = 0 \<Longrightarrow> sr AND FLASH_FLAG_OPERR = 0"
    using mask_below [of sr "0xEF" FLASH_FLAG_OPERR] by (simp add: flash_bits)
  then show ?thesis by (simp add: GetStatus_def assms busy)
qed

text \<open>
  A locked flash is not erased, and yet \<open>EraseSector\<close> reports completion; a status with an error
  flag stops both operations before they touch the control register.
\<close>

theorem driver_guards:
  assumes "read_SR hw h = (sr, h)" and "sr AND FLASH_FLAG_BSY = 0" and "sr AND 0xFF \<noteq> 0"
  shows "ProgramHalfWord hw a d h = Some (fst (GetStatus hw h), h)
    \<and> EraseSector hw k h =
        Some (if read_CR hw h AND FLASH_CR_LOCK \<noteq> 0 then FLASH_COMPLETE else fst (GetStatus hw h), h)
    \<and> fst (GetStatus hw h) \<noteq> FLASH_COMPLETE"
proof -
  have flags: "sr AND 0xFF = (sr AND 0xEF) OR (sr AND FLASH_FLAG_WRPERR)"
    by (simp add: bit.conj_disj_distrib [symmetric] FLASH_FLAG_WRPERR_def)
  have status: "GetStatus hw h =
      (if sr AND FLASH_FLAG_WRPERR \<noteq> 0 then FLASH_ERROR_WRP else FLASH_ERROR_PROGRAM, h)"
    using assms(2,3) flags by (auto simp: GetStatus_def assms(1) FLASH_FLAG_BSY_def)
  then have "WaitForLastOperation hw h = Some (fst (GetStatus hw h), h)"
    by (subst WaitForLastOperation.simps) simp
  with status show ?thesis
    by (simp add: ProgramHalfWord_def EraseSector_def isLocked_def)
qed

theorem driver_guards_witness:
  "ProgramHalfWord (example_chip \<lparr>read_SR := \<lambda>h. (0x80, h)\<rparr>) 0x08004000 7 (0, 0, False, \<lambda>_. 0) =
     Some (FLASH_ERROR_PROGRAM, (0, 0, False, \<lambda>_. 0))"
  using driver_guards [of "example_chip \<lparr>read_SR := \<lambda>h. (0x80, h)\<rparr>" "(0, 0, False, \<lambda>_. 0)" "0x80"
      "0x08004000" 7 0]
  by (simp add: flash_bits GetStatus_def)

theorem GetStatus_priority_witness:
  "fst (GetStatus (example_chip \<lparr>read_SR := \<lambda>h. (2, h)\<rparr>) (0, 0, False, \<lambda>_. 0)) = FLASH_ERROR_PROGRAM"
  using GetStatus_priority [of "example_chip \<lparr>read_SR := \<lambda>h. (2, h)\<rparr>" "(0, 0, False, \<lambda>_. 0)" 2]
  by (simp add: flash_bits)

end
