(* ===== verification/Writer.thy ===== *)
theory Writer
  imports Flash Tea
begin

unbundle bit_operations_syntax

text \<open>
  \<open>class ImageWriter\<close>, the store behind the emulated disk, in its two versions:
  \<open>src/work/boot/flashwriter.cpp\<close> on the flash driver and \<open>src/work/boot/imagewriter.cpp\<close> in
  memory.  Both encrypt what is read and decrypt what is written with the loader key of the
  device.  The locale \<open>image_writer\<close> is what the disk relies on; both versions are interpretations of it,
  the flash version for a chip that keeps the contract of its manual.
\<close>

section \<open>The flash version\<close>

text \<open>
  The state is the hardware and the static array \<open>isErased\<close>.  \<open>image_ctxt\<close> is the address where
  the linker puts the image; reading memory is the function \<open>cells\<close> of the hardware.
\<close>

type_synonym 'h flash_store = "'h \<times> bool list"

definition flash_ImageWriter :: "'h \<Rightarrow> 'h flash_store" where
  "flash_ImageWriter h = (h, replicate maxsectors False)"

fun erase_loop ::
  "'h flash_hw \<Rightarrow> u32 \<Rightarrow> nat list \<Rightarrow> u32 \<Rightarrow> 'h flash_store \<Rightarrow> 'h flash_store option" where
  "erase_loop hw len [] ers s = Some s"
| "erase_loop hw len (k # ks) ers (h, er) =
     (if ers < len then
        Option.bind
          (if \<not> er ! k then map_option (\<lambda>(_, h). (h, er[k := True])) (EraseSector hw (of_nat k) h)
           else Some (h, er))
          (erase_loop hw len ks (ers + push_bit 1 (of_nat (SectorSizes ! k))))
      else Some (h, er))"

definition flash_eraseBlocks ::
  "'h flash_hw \<Rightarrow> u32 \<Rightarrow> u32 \<Rightarrow> 'h flash_store \<Rightarrow> 'h flash_store option" where
  "flash_eraseBlocks hw from len s =
     (let (h, er) = s; h = Unlock hw h; len = len + from
      in erase_loop hw len [1..<maxsectors] 0 (h, er))"

definition flash_readBytes ::
  "('h \<Rightarrow> u32 \<Rightarrow> u8) \<Rightarrow> u32 \<Rightarrow> tea_key \<Rightarrow> u32 \<Rightarrow> u32 \<Rightarrow> 'h flash_store \<Rightarrow> mem option" where
  "flash_readBytes cells image_ctxt key from len s =
     (let tmp = map (\<lambda>i. cells (fst s) (image_ctxt + from + of_nat i)) [0..<unat len]
      in encrypt_block tmp len key)"

definition half_at :: "mem \<Rightarrow> nat \<Rightarrow> u16" where
  "half_at tmp n = ucast (tmp ! (2 * n)) OR push_bit 8 (ucast (tmp ! (2 * n + 1)))"

primrec program_loop :: "'h flash_hw \<Rightarrow> mem \<Rightarrow> nat \<Rightarrow> nat \<Rightarrow> u32 \<Rightarrow> 'h \<Rightarrow> 'h option" where
  "program_loop hw tmp 0 n address h = Some h"
| "program_loop hw tmp (Suc k) n address h =
     Option.bind (ProgramHalfWord hw address (half_at tmp n) h) (\<lambda>(_, h).
     program_loop hw tmp k (n + 1) (address + 2) h)"

definition flash_writeBytes ::
  "'h flash_hw \<Rightarrow> u32 \<Rightarrow> tea_key \<Rightarrow> mem \<Rightarrow> u32 \<Rightarrow> u32 \<Rightarrow> 'h flash_store \<Rightarrow> 'h flash_store option" where
  "flash_writeBytes hw image_ctxt key data from len s =
     (if length data < unat len then None else
      Option.bind (decrypt_block (take (unat len) data) len key) (\<lambda>tmp.
      let (h, er) = s in
      if isLocked hw h then Some s else
      let halfs = unat (drop_bit 1 len)
      in map_option (\<lambda>h. (h, er)) (program_loop hw tmp halfs 0 (image_ctxt + from) h)))"

section \<open>The memory version\<close>

text \<open>The state is the array \<open>image_ctxt\<close>; \<open>memcpy\<close> outside of it is \<open>None\<close>.\<close>

definition ram_eraseBlocks :: "u32 \<Rightarrow> u32 \<Rightarrow> mem \<Rightarrow> mem option" where
  "ram_eraseBlocks from len m = Some m"

definition ram_readBytes :: "tea_key \<Rightarrow> u32 \<Rightarrow> u32 \<Rightarrow> mem \<Rightarrow> mem option" where
  "ram_readBytes key from len m =
     (if length m < unat from + unat len then None
      else encrypt_block (take (unat len) (drop (unat from) m)) len key)"

definition ram_writeBytes :: "tea_key \<Rightarrow> mem \<Rightarrow> u32 \<Rightarrow> u32 \<Rightarrow> mem \<Rightarrow> mem option" where
  "ram_writeBytes key data from len m =
     (if length data < unat len then None else
      Option.bind (decrypt_block (take (unat len) data) len key) (\<lambda>tmp.
      if length m < unat from + unat len then None
      else Some (take (unat from) m @ tmp @ drop (unat from + unat len) m)))"

section \<open>The interface\<close>

definition overlay :: "(nat \<Rightarrow> u8) \<Rightarrow> nat \<Rightarrow> mem \<Rightarrow> nat \<Rightarrow> u8" where
  "overlay m off bs = (\<lambda>i. if off \<le> i \<and> i < off + length bs then bs ! (i - off) else m i)"

text \<open>Packets written one after the other.\<close>

primrec write_seq ::
  "(mem \<Rightarrow> u32 \<Rightarrow> u32 \<Rightarrow> 's \<Rightarrow> 's option) \<Rightarrow> mem list \<Rightarrow> u32 \<Rightarrow> 's \<Rightarrow> 's option" where
  "write_seq w [] off s = Some s"
| "write_seq w (p # ps) off s =
     Option.bind (w p off (of_nat (length p)) s) (write_seq w ps (off + of_nat (length p)))"

text \<open>
  \<open>img s\<close> is the plain image by offset below the capacity \<open>cap\<close>, \<open>blank s i\<close> says that the
  cell may be written, \<open>erased s i\<close> that its sector has been prepared.  \<open>rest\<close> is the state
  after the start, \<open>ready\<close> the state after the first preparation.
\<close>

locale image_writer =
  fixes erase :: "u32 \<Rightarrow> u32 \<Rightarrow> 's \<Rightarrow> 's option"
    and writeB :: "mem \<Rightarrow> u32 \<Rightarrow> u32 \<Rightarrow> 's \<Rightarrow> 's option"
    and readB :: "u32 \<Rightarrow> u32 \<Rightarrow> 's \<Rightarrow> mem option"
    and key :: tea_key
    and img :: "'s \<Rightarrow> nat \<Rightarrow> u8"
    and blank erased :: "'s \<Rightarrow> nat \<Rightarrow> bool"
    and cap :: nat
    and rest ready :: "'s \<Rightarrow> bool"
  assumes ready_rest: "ready s \<Longrightarrow> rest s"
    and erase_law: "rest s \<Longrightarrow> 512 * (unat from + unat len) \<le> cap \<Longrightarrow>
      \<exists>s'. erase from len s = Some s' \<and> ready s' \<and>
        (\<forall>i < 512 * (unat from + unat len). erased s' i) \<and>
        (\<forall>i < cap. erased s i \<longrightarrow> erased s' i \<and> img s' i = img s i \<and> blank s' i = blank s i) \<and>
        (\<forall>i < cap. \<not> erased s i \<longrightarrow> erased s' i \<longrightarrow> blank s' i)"
    and write_law: "ready s \<Longrightarrow> 8 dvd length d \<Longrightarrow> even (unat off) \<Longrightarrow> unat off + length d \<le> cap \<Longrightarrow>
      \<forall>i. unat off \<le> i \<and> i < unat off + length d \<longrightarrow> blank s i \<Longrightarrow>
      \<exists>s'. writeB d off (of_nat (length d)) s = Some s' \<and> ready s' \<and> erased s' = erased s \<and>
        (\<forall>i < cap. img s' i = overlay (img s) (unat off) (map_chunks8 (dec8 key) d) i) \<and>
        (\<forall>i < cap. i < unat off \<or> unat off + length d \<le> i \<longrightarrow> blank s' i = blank s i)"
    and read_law: "rest s \<Longrightarrow> 8 dvd unat len \<Longrightarrow> unat off + unat len \<le> cap \<Longrightarrow>
      readB off len s = Some (map_chunks8 (enc8 key) (map (\<lambda>i. img s (unat off + i)) [0..<unat len]))"
    and cap_small: "cap < 2 ^ 32"
begin

text \<open>Nothing at or above \<open>n\<close> has been written since it was prepared.\<close>

definition untouched :: "nat \<Rightarrow> 's \<Rightarrow> bool" where
  "untouched n s \<longleftrightarrow> (\<forall>i < cap. n \<le> i \<longrightarrow> erased s i \<longrightarrow> blank s i)"

lemma erase_keeps_untouched:
  assumes "rest s" and "512 * (unat from + unat len) \<le> cap" and "untouched n s"
  shows "\<exists>s'. erase from len s = Some s' \<and> ready s' \<and> untouched n s' \<and>
    (\<forall>i < 512 * (unat from + unat len). erased s' i) \<and>
    (\<forall>i < cap. erased s i \<longrightarrow> erased s' i \<and> img s' i = img s i)"
  using erase_law [OF assms(1,2)] assms(3) unfolding untouched_def by metis

lemma overlay_append:
  "overlay (overlay m off xs) (off + length xs) ys = overlay m off (xs @ ys)"
  by (rule ext) (auto simp: overlay_def nth_append)

lemma write_seq_law:
  assumes "ready s" and "untouched (unat off) s" and "\<forall>p \<in> set ps. 8 dvd length p"
    and "even (unat off)" and "unat off + length (concat ps) \<le> cap"
    and "\<forall>i < unat off + length (concat ps). erased s i"
  shows "\<exists>s'. write_seq writeB ps off s = Some s' \<and> ready s' \<and> erased s' = erased s \<and>
    untouched (unat off + length (concat ps)) s' \<and>
    (\<forall>i < cap. img s' i = overlay (img s) (unat off) (map_chunks8 (dec8 key) (concat ps)) i)"
  using assms
proof (induction ps arbitrary: s off)
  case Nil
  then show ?case by (auto simp: overlay_def)
next
  case (Cons p ps)
  let ?off = "off + of_nat (length p)"
  have le: "unat off + length p \<le> cap" using Cons.prems(5) by simp
  then have off: "unat ?off = unat off + length p"
    using cap_small by (simp add: unat_word_ariths unat_of_nat)
  have blank: "\<forall>i. unat off \<le> i \<and> i < unat off + length p \<longrightarrow> blank s i"
    using Cons.prems(2,6) le by (simp add: untouched_def)
  obtain s1 where s1: "writeB p off (of_nat (length p)) s = Some s1" "ready s1" "erased s1 = erased s"
      "\<forall>i < cap. img s1 i = overlay (img s) (unat off) (map_chunks8 (dec8 key) p) i"
      "\<forall>i < cap. i < unat off \<or> unat off + length p \<le> i \<longrightarrow> blank s1 i = blank s i"
    using write_law [of s p off] Cons.prems le blank by auto
  have "untouched (unat ?off) s1"
    using Cons.prems(2) s1(3,5) by (simp add: untouched_def off)
  moreover have "even (unat ?off)" using Cons.prems(3,4) by (auto simp: off elim: dvd_trans [rotated])
  ultimately obtain s2 where s2: "write_seq writeB ps ?off s1 = Some s2" "ready s2" "erased s2 = erased s1"
      "untouched (unat ?off + length (concat ps)) s2"
      "\<forall>i < cap. img s2 i = overlay (img s1) (unat ?off) (map_chunks8 (dec8 key) (concat ps)) i"
    using Cons.IH [of s1 ?off] Cons.prems s1 by (auto simp: off add.assoc)
  have len: "length (map_chunks8 (dec8 key) p) = length p"
    using Cons.prems(3) tea.length_ecb_dec by simp
  have "img s2 i = overlay (img s) (unat off) (map_chunks8 (dec8 key) (concat (p # ps))) i" if "i < cap" for i
  proof -
    have "img s2 i = overlay (img s1) (unat off + length p) (map_chunks8 (dec8 key) (concat ps)) i"
      using s2(5) that by (simp add: off)
    also have "\<dots> = overlay (overlay (img s) (unat off) (map_chunks8 (dec8 key) p)) (unat off + length p)
        (map_chunks8 (dec8 key) (concat ps)) i"
      using s1(4) that by (simp add: overlay_def)
    also have "\<dots> = overlay (img s) (unat off) (map_chunks8 (dec8 key) (concat (p # ps))) i"
      using overlay_append [of "img s" "unat off" "map_chunks8 (dec8 key) p"] len Cons.prems(3)
      by (simp add: map_chunks8_append)
    finally show ?thesis .
  qed
  with s1 s2 show ?case by (auto simp: off add.assoc)
qed

end

section \<open>The memory version keeps the contract\<close>

lemma unat_len: "n \<le> 1032192 \<Longrightarrow> unat (of_nat n :: u32) = n"
  by (simp add: unat_of_nat)

lemma decrypt_block_whole:
  "8 dvd length d \<Longrightarrow> length d \<le> 1032192 \<Longrightarrow>
   decrypt_block d (of_nat (length d)) k = Some (map_chunks8 (dec8 k) d)"
  using decrypt_block_eq [of "of_nat (length d)" d k] by (simp add: unat_len)

lemma encrypt_block_whole:
  "8 dvd length d \<Longrightarrow> length d = unat len \<Longrightarrow>
   encrypt_block d len k = Some (map_chunks8 (enc8 k) d)"
  using encrypt_block_eq [of len d k] by simp

lemma map_nth_slice:
  "off + n \<le> length m \<Longrightarrow> take n (drop off m) = map (\<lambda>i. m ! (off + i)) [0..<n]"
  by (rule nth_equalityI) auto

definition ram_cap :: nat where "ram_cap = 655360"

interpretation ram: image_writer ram_eraseBlocks "ram_writeBytes key" "ram_readBytes key" key nth
  "\<lambda>_ _. True" "\<lambda>_ _. True" ram_cap "\<lambda>m. length m = ram_cap" "\<lambda>m. length m = ram_cap"
proof
  fix m d :: mem and off :: u32
  assume "length m = ram_cap" "8 dvd length d" "unat off + length d \<le> ram_cap"
  then show "\<exists>m'. ram_writeBytes key d off (of_nat (length d)) m = Some m' \<and> length m' = ram_cap \<and>
      (\<lambda>_. True) = (\<lambda>_. True) \<and>
      (\<forall>i < ram_cap. m' ! i = overlay ((!) m) (unat off) (map_chunks8 (dec8 key) d) i) \<and>
      (\<forall>i < ram_cap. i < unat off \<or> unat off + length d \<le> i \<longrightarrow> True = True)"
    using tea.length_ecb_dec [of d key]
    by (auto simp: ram_writeBytes_def decrypt_block_whole unat_len ram_cap_def overlay_def nth_append)
next
  fix m :: mem and len off :: u32
  assume "length m = ram_cap" "8 dvd unat len" "unat off + unat len \<le> ram_cap"
  then show "ram_readBytes key off len m =
      Some (map_chunks8 (enc8 key) (map (\<lambda>i. m ! (unat off + i)) [0..<unat len]))"
    by (simp add: ram_readBytes_def map_nth_slice encrypt_block_whole)
qed (simp_all add: ram_eraseBlocks_def ram_cap_def)

section \<open>The flash version keeps the contract\<close>

lemma sector_base_simps [simp]:
  "sector_base 1 = 0x08004000" "sector_base (Suc 0) = 0x08004000" "sector_base 12 = 0x08100000"
  by (simp_all add: sector_base_def SectorSizes_def take_Cons')

lemma sector_base_Suc:
  "k < 12 \<Longrightarrow> sector_base (Suc k) = sector_base k + 1024 * SectorSizes ! k"
proof -
  assume "k < 12"
  then have "k < length SectorSizes" by (simp add: SectorSizes_def)
  then have "take (Suc k) SectorSizes = take k SectorSizes @ [SectorSizes ! k]"
    by (rule take_Suc_conv_app_nth)
  then show ?thesis by (simp add: sector_base_def)
qed

lemma sector_base_mono: "j \<le> k \<Longrightarrow> sector_base j \<le> sector_base k"
proof -
  assume "j \<le> k"
  then have "take k SectorSizes = take j SectorSizes @ take (k - j) (drop j SectorSizes)"
    by (metis add_diff_inverse_nat not_less take_add)
  then show ?thesis by (simp add: sector_base_def)
qed

lemma in_sector_unique: "in_sector j a \<Longrightarrow> in_sector k a \<Longrightarrow> j = k"
  unfolding in_sector_def
  by (metis add.commute le_trans linorder_neqE_nat not_less plus_1_eq_Suc sector_base_mono Suc_leI)

lemma in_some_sector:
  assumes "sector_base 1 \<le> unat a" and "unat a < sector_base 12"
  shows "\<exists>k. 1 \<le> k \<and> k < 12 \<and> in_sector k a"
proof -
  let ?P = "\<lambda>k. unat a < sector_base k"
  have "?P 12" using assms(2) .
  then have L: "?P (Least ?P)" by (rule LeastI)
  have le: "Least ?P \<le> 12" using assms(2) by (rule Least_le)
  have gt: "1 < Least ?P"
  proof (rule ccontr)
    assume "\<not> 1 < Least ?P"
    then have "sector_base (Least ?P) \<le> sector_base 1" by (intro sector_base_mono) simp
    with L assms(1) show False by simp
  qed
  then have "\<not> ?P (Least ?P - 1)" by (intro not_less_Least) simp
  with L le gt show ?thesis
    by (intro exI [of _ "Least ?P - 1"]) (auto simp: in_sector_def)
qed

text \<open>The number of blocks of 512 bytes before sector \<open>k\<close>.\<close>

definition blocks_before :: "nat \<Rightarrow> nat" where
  "blocks_before k = (sector_base k - 0x08004000) div 512"

lemma blocks_before_Suc:
  assumes "1 \<le> k" and "k < 12"
  shows "blocks_before (Suc k) = blocks_before k + 2 * SectorSizes ! k"
  using sector_base_mono [OF assms(1)] assms(2)
  by (simp add: blocks_before_def sector_base_Suc)

lemma sector_base_blocks:
  assumes "1 \<le> k"
  shows "sector_base k = 0x08004000 + 512 * blocks_before k"
proof -
  have "512 dvd sector_base k" unfolding sector_base_def by simp
  then show ?thesis using sector_base_mono [OF assms] by (auto simp: blocks_before_def)
qed

lemma blocks_before_bounds:
  "blocks_before (Suc 0) = 0" "k \<le> 12 \<Longrightarrow> blocks_before k \<le> 2016"
  using sector_base_mono [of k 12] by (auto simp: blocks_before_def)

lemma erase_loop_law:
  assumes con: "flash_contract hw idle cells"
  shows "1 \<le> k0 \<Longrightarrow> k0 \<le> 12 \<Longrightarrow> ready hw idle h \<Longrightarrow> length er = 12 \<Longrightarrow>
    \<exists>h' er'. erase_loop hw len [k0..<12] (of_nat (blocks_before k0)) (h, er) = Some (h', er') \<and>
      ready hw idle h' \<and> length er' = 12 \<and> (\<forall>k. er ! k \<longrightarrow> er' ! k) \<and>
      (\<forall>k. k0 \<le> k \<and> k < 12 \<and> blocks_before k < unat len \<longrightarrow> er' ! k) \<and>
      (\<forall>a. cells h' a = (if \<exists>k < 12. in_sector k a \<and> er' ! k \<and> \<not> er ! k then 0xFF else cells h a))"
proof (induction "12 - k0" arbitrary: k0 h er)
  case 0
  then have "k0 = 12" by simp
  with 0 show ?case by auto
next
  case (Suc d)
  have k0: "k0 < 12" using Suc.hyps(2) by simp
  have upt: "[k0..<12] = k0 # [Suc k0..<12]" using k0 by (rule upt_conv_Cons)
  have bb: "unat (of_nat (blocks_before k0) :: u32) = blocks_before k0"
    using blocks_before_bounds(2) [of k0] k0 by (simp add: unat_of_nat)
  have ers: "of_nat (blocks_before k0) + push_bit 1 (of_nat (SectorSizes ! k0) :: u32) =
      of_nat (blocks_before (Suc k0))"
    using Suc.prems(1) k0 by (simp add: blocks_before_Suc push_bit_eq_mult)
  show ?case
  proof (cases "blocks_before k0 < unat len")
    case False
    have "\<not> blocks_before k < unat len" if "k0 \<le> k" for k
      using sector_base_mono [OF that] False Suc.prems(1) unfolding blocks_before_def
      by (meson diff_le_mono div_le_mono le_trans not_less)
    with False Suc.prems(3,4) show ?thesis
      by (auto simp: upt word_less_nat_alt bb)
  next
    case True
    obtain h1 er1 where first: "(if \<not> er ! k0
          then map_option (\<lambda>(_, h). (h, er[k0 := True])) (EraseSector hw (of_nat k0) h)
          else Some (h, er)) = Some (h1, er1)" "er1 = er[k0 := True]" "ready hw idle h1"
        "\<forall>a. cells h1 a = (if in_sector k0 a \<and> \<not> er ! k0 then 0xFF else cells h a)"
    proof (cases "er ! k0")
      case True
      then have "er[k0 := True] = er" by (metis (full_types) list_update_id)
      with True Suc.prems(3) show ?thesis by (intro that [of h er]) auto
    next
      case False
      have k: "(of_nat k0 :: u32) < 12" "unat (of_nat k0 :: u32) = k0"
        using k0 by (simp_all add: word_less_nat_alt unat_of_nat)
      from EraseSector_contract [OF con Suc.prems(3) k(1)] False show ?thesis
        by (auto simp: k(2) intro: that)
    qed
    have len1: "length er1 = 12" using first(2) Suc.prems(4) by simp
    obtain h' er' where rest: "erase_loop hw len [Suc k0..<12] (of_nat (blocks_before (Suc k0))) (h1, er1) =
          Some (h', er')" "ready hw idle h'" "length er' = 12" "\<forall>k. er1 ! k \<longrightarrow> er' ! k"
        "\<forall>k. Suc k0 \<le> k \<and> k < 12 \<and> blocks_before k < unat len \<longrightarrow> er' ! k"
        "\<forall>a. cells h' a = (if \<exists>k < 12. in_sector k a \<and> er' ! k \<and> \<not> er1 ! k then 0xFF else cells h1 a)"
    proof -
      have "d = 12 - Suc k0" using Suc.hyps(2) by simp
      from Suc.hyps(1) [OF this _ _ first(3) len1] k0 that show ?thesis by auto
    qed
    have er1: "er1 ! k = (k = k0 \<or> er ! k)" for k
      using first(2) Suc.prems(4) k0 by (auto simp: nth_list_update)
    have done0: "er' ! k0" using rest(4) er1 by blast
    have "erase_loop hw len [k0..<12] (of_nat (blocks_before k0)) (h, er) = Some (h', er')"
      by (simp only: upt erase_loop.simps ers word_less_nat_alt bb True if_True first(1)
          Option.bind.simps rest(1))
    moreover have "er' ! k" if "k0 \<le> k" "k < 12" "blocks_before k < unat len" for k
      using that rest(5) done0 by (cases "k = k0") auto
    moreover have "cells h' a = (if \<exists>k < 12. in_sector k a \<and> er' ! k \<and> \<not> er ! k then 0xFF else cells h a)" for a
      using rest(6) first(4) er1 done0 k0 by (auto dest: in_sector_unique)
    ultimately show ?thesis using rest(2,3,4) er1 by blast
  qed
qed

text \<open>The offset of a cell in the image, and the addresses of the cells.\<close>

definition flash_cap :: nat where "flash_cap = 1032192"

definition cell_addr :: "nat \<Rightarrow> u32" where
  "cell_addr i = 0x08004000 + of_nat i"

definition flash_img :: "('h \<Rightarrow> u32 \<Rightarrow> u8) \<Rightarrow> 'h flash_store \<Rightarrow> nat \<Rightarrow> u8" where
  "flash_img cells s i = cells (fst s) (cell_addr i)"

definition flash_erased :: "'h flash_store \<Rightarrow> nat \<Rightarrow> bool" where
  "flash_erased s i \<longleftrightarrow> (\<exists>k \<in> {1..<12}. snd s ! k \<and> in_sector k (cell_addr i))"

definition flash_rest ::
  "'h flash_hw \<Rightarrow> ('h \<Rightarrow> bool) \<Rightarrow> ('h \<Rightarrow> u32 \<Rightarrow> u8) \<Rightarrow> 'h flash_store \<Rightarrow> bool" where
  "flash_rest hw idle cells s \<longleftrightarrow> flash_contract hw idle cells \<and> idle (fst s) \<and>
     read_CR hw (fst s) AND 0x00010007 = 0 \<and> length (snd s) = 12"

definition flash_ready ::
  "'h flash_hw \<Rightarrow> ('h \<Rightarrow> bool) \<Rightarrow> ('h \<Rightarrow> u32 \<Rightarrow> u8) \<Rightarrow> 'h flash_store \<Rightarrow> bool" where
  "flash_ready hw idle cells s \<longleftrightarrow> flash_contract hw idle cells \<and> ready hw idle (fst s) \<and>
     length (snd s) = 12"

lemma cell_addr_inj:
  assumes "i < flash_cap" and "j < flash_cap"
  shows "cell_addr i = cell_addr j \<longleftrightarrow> i = j"
proof
  assume "cell_addr i = cell_addr j"
  then have "unat (of_nat i :: u32) = unat (of_nat j :: u32)" by (simp add: cell_addr_def)
  with assms show "i = j" by (simp add: flash_cap_def unat_of_nat)
qed simp

lemma unat_cell_addr: "i < flash_cap \<Longrightarrow> unat (cell_addr i) = 0x08004000 + i"
  by (simp add: cell_addr_def flash_cap_def unat_word_ariths unat_of_nat)

lemma cell_addr_sector: "i < flash_cap \<Longrightarrow> \<exists>k \<in> {1..<12}. in_sector k (cell_addr i)"
  using in_some_sector [of "cell_addr i"] by (auto simp: unat_cell_addr flash_cap_def)

lemma flash_ready_rest: "flash_ready hw idle cells s \<Longrightarrow> flash_rest hw idle cells s"
  using mask_below [of "read_CR hw (fst s)" "0x80010007" "0x00010007"]
  by (auto simp: flash_ready_def flash_rest_def ready_def)

lemma flash_erase_law:
  assumes "flash_rest hw idle cells s" and "512 * (unat from + unat len) \<le> flash_cap"
  shows "\<exists>s'. flash_eraseBlocks hw from len s = Some s' \<and> flash_ready hw idle cells s' \<and>
    (\<forall>k. snd s ! k \<longrightarrow> snd s' ! k) \<and>
    (\<forall>i < 512 * (unat from + unat len). flash_erased s' i) \<and>
    (\<forall>a. cells (fst s') a =
      (if \<exists>k < 12. in_sector k a \<and> snd s' ! k \<and> \<not> snd s ! k then 0xFF else cells (fst s) a))"
proof -
  obtain h er where s: "s = (h, er)" by (cases s)
  have con: "flash_contract hw idle cells" and er: "length er = 12"
    and un: "ready hw idle (Unlock hw h)" "cells (Unlock hw h) = cells h"
    using assms(1) Unlock_contract [of hw idle cells h] by (auto simp: flash_rest_def s)
  have sum: "unat (len + from) = unat from + unat len"
    using assms(2) by (simp add: flash_cap_def unat_word_ariths)
  obtain h' er' where run: "erase_loop hw (len + from) [1..<12] 0 (Unlock hw h, er) = Some (h', er')"
      "ready hw idle h'" "length er' = 12" "\<forall>k. er ! k \<longrightarrow> er' ! k"
      "\<forall>k. 1 \<le> k \<and> k < 12 \<and> blocks_before k < unat from + unat len \<longrightarrow> er' ! k"
      "\<forall>a. cells h' a = (if \<exists>k < 12. in_sector k a \<and> er' ! k \<and> \<not> er ! k then 0xFF else cells h a)"
    using erase_loop_law [OF con, of 1 "Unlock hw h" er "len + from"] un(1) er
    unfolding un(2) by (auto simp: blocks_before_bounds sum)
  have "flash_erased (h', er') i" if i: "i < 512 * (unat from + unat len)" for i
  proof -
    have cap: "i < flash_cap" using i assms(2) by simp
    obtain k where k: "k \<in> {1..<12}" "in_sector k (cell_addr i)" using cell_addr_sector [OF cap] ..
    then have "512 * blocks_before k \<le> i"
      using sector_base_blocks [of k] by (simp add: in_sector_def unat_cell_addr [OF cap])
    then have "blocks_before k < unat from + unat len" using i by simp
    with k run(5) show ?thesis by (auto simp: flash_erased_def)
  qed
  moreover have "flash_eraseBlocks hw from len s = Some (h', er')"
    using run(1) by (simp add: flash_eraseBlocks_def s maxsectors_def)
  ultimately show ?thesis using run con by (auto simp: flash_ready_def s)
qed

lemma half_at_bytes:
  "ucast (half_at tmp n) = (tmp ! (2 * n) :: u8)"
  "ucast (drop_bit 8 (half_at tmp n)) = (tmp ! (2 * n + 1) :: u8)"
  by (rule bit_word_eqI, auto simp: half_at_def bit_simps dest: bit_imp_le_length)+

lemma program_loop_law:
  assumes con: "flash_contract hw idle cells" and "even off" and "off + length tmp \<le> flash_cap"
  shows "ready hw idle h \<Longrightarrow> 2 * (n + k) \<le> length tmp \<Longrightarrow>
    \<forall>i. 2 * n \<le> i \<and> i < 2 * (n + k) \<longrightarrow> cells h (cell_addr (off + i)) = 0xFF \<Longrightarrow>
    \<exists>h'. program_loop hw tmp k n (cell_addr (off + 2 * n)) h = Some h' \<and> ready hw idle h' \<and>
      (\<forall>j < flash_cap. cells h' (cell_addr j) =
        (if off + 2 * n \<le> j \<and> j < off + 2 * (n + k) then tmp ! (j - off) else cells h (cell_addr j)))"
proof (induction k arbitrary: n h)
  case 0
  then show ?case by auto
next
  case (Suc k)
  let ?a = "cell_addr (off + 2 * n)"
  have lim: "off + 2 * n + 1 < flash_cap" using Suc.prems(2) assms(3) by simp
  have a1: "?a + 1 = cell_addr (off + 2 * n + 1)" and a2: "?a + 2 = cell_addr (off + 2 * (n + 1))"
    by (simp_all add: cell_addr_def)
  have ev: "even (unat ?a)" using assms(2) lim by (simp add: unat_cell_addr)
  have "cells h ?a = 0xFF" "cells h (?a + 1) = 0xFF"
    using Suc.prems(3) [rule_format, of "2 * n"] Suc.prems(3) [rule_format, of "2 * n + 1"]
    by (simp_all add: a1 add.assoc)
  then obtain h1 where h1: "ProgramHalfWord hw ?a (half_at tmp n) h = Some (FLASH_COMPLETE, h1)"
      "ready hw idle h1"
      "cells h1 = (cells h)(?a := tmp ! (2 * n), cell_addr (off + 2 * n + 1) := tmp ! (2 * n + 1))"
    using ProgramHalfWord_contract [OF con Suc.prems(1) ev, of "half_at tmp n"]
    unfolding half_at_bytes a1 by blast
  have cells1: "cells h1 (cell_addr j) = (if j = off + 2 * n + 1 then tmp ! (2 * n + 1)
      else if j = off + 2 * n then tmp ! (2 * n) else cells h (cell_addr j))" if "j < flash_cap" for j
    using that lim by (simp add: h1(3) cell_addr_inj)
  have "\<forall>i. 2 * (n + 1) \<le> i \<and> i < 2 * (n + 1 + k) \<longrightarrow> cells h1 (cell_addr (off + i)) = 0xFF"
    using Suc.prems(2,3) assms(3) by (simp add: cells1)
  then obtain h' where h': "program_loop hw tmp k (n + 1) (cell_addr (off + 2 * (n + 1))) h1 = Some h'"
      "ready hw idle h'"
      "\<forall>j < flash_cap. cells h' (cell_addr j) = (if off + 2 * (n + 1) \<le> j \<and> j < off + 2 * (n + 1 + k)
        then tmp ! (j - off) else cells h1 (cell_addr j))"
    using Suc.IH [of h1 "n + 1"] h1(2) Suc.prems(2) by auto
  have "cells h' (cell_addr j) = (if off + 2 * n \<le> j \<and> j < off + 2 * (n + Suc k)
      then tmp ! (j - off) else cells h (cell_addr j))" if "j < flash_cap" for j
    using h'(3) cells1 that by auto
  with h1(1) h'(1,2) show ?case by (simp add: a2)
qed

lemma flash_write_law:
  assumes rdy: "flash_ready hw idle cells s" and d: "8 dvd length d" and "even (unat off)"
    and cap: "unat off + length d \<le> flash_cap"
    and blank: "\<forall>i. unat off \<le> i \<and> i < unat off + length d \<longrightarrow> flash_img cells s i = 0xFF"
  shows "\<exists>s'. flash_writeBytes hw 0x08004000 key d off (of_nat (length d)) s = Some s' \<and>
    flash_ready hw idle cells s' \<and> snd s' = snd s \<and>
    (\<forall>i < flash_cap. flash_img cells s' i = overlay (flash_img cells s) (unat off) (map_chunks8 (dec8 key) d) i)"
proof -
  obtain h er where s: "s = (h, er)" by (cases s)
  let ?tmp = "map_chunks8 (dec8 key) d"
  have len: "length ?tmp = length d" using tea.length_ecb_dec [OF d] .
  have con: "flash_contract hw idle cells" and h: "ready hw idle h" and er: "length er = 12"
    using rdy by (auto simp: flash_ready_def s)
  have dn: "length d \<le> 1032192" using cap by (simp add: flash_cap_def)
  define m where "m = unat (drop_bit 1 (of_nat (length d) :: u32))"
  have halfs: "2 * m = length d"
  proof -
    have "m = length d div 2"
      unfolding m_def by (simp only: unat_drop_bit_eq) (simp add: drop_bit_eq_div unat_len [OF dn])
    moreover have "even (length d)" using d by (auto elim: dvd_trans [rotated])
    ultimately show ?thesis by simp
  qed
  have addr: "0x08004000 + off = cell_addr (unat off)" by (simp add: cell_addr_def)
  have "\<not> isLocked hw h"
    using ready_low [OF h, of FLASH_CR_LOCK] by (simp add: isLocked_def FLASH_CR_LOCK_def)
  moreover obtain h' where "program_loop hw ?tmp m 0 (cell_addr (unat off)) h = Some h'"
      "ready hw idle h'"
      "\<forall>j < flash_cap. cells h' (cell_addr j) =
        (if unat off \<le> j \<and> j < unat off + length d then ?tmp ! (j - unat off) else cells h (cell_addr j))"
    using program_loop_law [OF con assms(3), of ?tmp h 0 m] h cap blank
    by (auto simp: len halfs flash_img_def s)
  ultimately show ?thesis
    using con er by (auto simp: flash_writeBytes_def s decrypt_block_whole [OF d dn] unat_len [OF dn] addr
        m_def [symmetric] flash_ready_def flash_img_def overlay_def len simp del: One_nat_def)
qed

interpretation flash: image_writer "flash_eraseBlocks hw" "flash_writeBytes hw 0x08004000 key"
  "flash_readBytes cells 0x08004000 key" key "flash_img cells" "\<lambda>s i. flash_img cells s i = 0xFF"
  flash_erased flash_cap "flash_rest hw idle cells" "flash_ready hw idle cells"
proof
  fix s :: "'a flash_store" and start len :: u32
  assume "flash_rest hw idle cells s" "512 * (unat start + unat len) \<le> flash_cap"
  then obtain s' where s': "flash_eraseBlocks hw start len s = Some s'" "flash_ready hw idle cells s'"
      "\<forall>k. snd s ! k \<longrightarrow> snd s' ! k" "\<forall>i < 512 * (unat start + unat len). flash_erased s' i"
      "\<forall>a. cells (fst s') a =
        (if \<exists>k < 12. in_sector k a \<and> snd s' ! k \<and> \<not> snd s ! k then 0xFF else cells (fst s) a)"
    using flash_erase_law by blast
  have keep: "flash_erased s' i \<and> flash_img cells s' i = flash_img cells s i" if "flash_erased s i" for i
    using that s'(3,5) by (auto simp: flash_erased_def flash_img_def dest: in_sector_unique)
  have fresh: "flash_img cells s' i = 0xFF" if "\<not> flash_erased s i" "flash_erased s' i" for i
    using that s'(5) by (auto simp: flash_erased_def flash_img_def)
  show "\<exists>s'. flash_eraseBlocks hw start len s = Some s' \<and> flash_ready hw idle cells s' \<and>
      (\<forall>i < 512 * (unat start + unat len). flash_erased s' i) \<and>
      (\<forall>i < flash_cap. flash_erased s i \<longrightarrow> flash_erased s' i \<and> flash_img cells s' i = flash_img cells s i \<and>
        (flash_img cells s' i = 0xFF) = (flash_img cells s i = 0xFF)) \<and>
      (\<forall>i < flash_cap. \<not> flash_erased s i \<longrightarrow> flash_erased s' i \<longrightarrow> flash_img cells s' i = 0xFF)"
    using s'(1,2,4) keep fresh by auto
next
  fix s :: "'a flash_store" and d :: mem and off :: u32
  assume "flash_ready hw idle cells s" and d: "8 dvd length d" and "even (unat off)"
    "unat off + length d \<le> flash_cap"
    "\<forall>i. unat off \<le> i \<and> i < unat off + length d \<longrightarrow> flash_img cells s i = 0xFF"
  from flash_write_law [OF this, of key] tea.length_ecb_dec [OF d, of key]
  show "\<exists>s'. flash_writeBytes hw 0x08004000 key d off (of_nat (length d)) s = Some s' \<and>
      flash_ready hw idle cells s' \<and> flash_erased s' = flash_erased s \<and>
      (\<forall>i < flash_cap. flash_img cells s' i =
        overlay (flash_img cells s) (unat off) (map_chunks8 (dec8 key) d) i) \<and>
      (\<forall>i < flash_cap. i < unat off \<or> unat off + length d \<le> i \<longrightarrow>
        (flash_img cells s' i = 0xFF) = (flash_img cells s i = 0xFF))"
    by (auto simp: flash_erased_def fun_eq_iff overlay_def)
next
  fix s :: "'a flash_store" and len off :: u32
  assume "8 dvd unat len"
  then show "flash_readBytes cells 0x08004000 key off len s =
      Some (map_chunks8 (enc8 key) (map (\<lambda>i. flash_img cells s (unat off + i)) [0..<unat len]))"
    by (simp add: flash_readBytes_def encrypt_block_whole flash_img_def cell_addr_def add.assoc)
qed (simp_all add: flash_ready_rest flash_cap_def)

section \<open>Properties\<close>

lemma flash_ImageWriter_fresh: "\<not> flash_erased (flash_ImageWriter h) i"
  by (auto simp: flash_erased_def flash_ImageWriter_def maxsectors_def)

lemma example_chip_rest:
  "flash_rest example_chip chip_idle chip_cells (flash_ImageWriter (FLASH_CR_LOCK, 0, False, m))"
  unfolding flash_rest_def
  by (intro conjI, rule example_chip_contract)
    (simp_all add: flash_ImageWriter_def chip_idle_def maxsectors_def example_chip_def FLASH_CR_LOCK_def)

text \<open>
  C3: Downloading into flash.  On a chip that keeps its contract, from the start of the device: preparing
  the blocks and writing encrypted packets one after the other succeeds, and the flash then holds the
  decrypted stream; everything outside of the stream is as the preparation left it.
\<close>

theorem flash_download:
  assumes "flash_rest hw idle cells (flash_ImageWriter h)" and "\<forall>p \<in> set ps. 8 dvd length p"
    and "length (concat ps) \<le> 512 * unat blocks" and "512 * unat blocks \<le> flash_cap"
  shows "\<exists>s1 s2. flash_eraseBlocks hw 0 blocks (flash_ImageWriter h) = Some s1
    \<and> write_seq (flash_writeBytes hw 0x08004000 key) ps 0 s1 = Some s2
    \<and> flash_ready hw idle cells s2
    \<and> (\<forall>i. i < flash_cap \<longrightarrow> flash_img cells s2 i =
         overlay (flash_img cells s1) 0 (map_chunks8 (dec8 key) (concat ps)) i)"
proof -
  have "flash.untouched cells 0 (flash_ImageWriter h)"
    by (simp add: flash.untouched_def flash_ImageWriter_fresh)
  then obtain s1 where s1: "flash_eraseBlocks hw 0 blocks (flash_ImageWriter h) = Some s1"
      "flash_ready hw idle cells s1" "flash.untouched cells 0 s1"
      "\<forall>i < 512 * unat blocks. flash_erased s1 i"
    using flash.erase_keeps_untouched [OF assms(1), of 0 blocks 0] assms(4) by auto
  with flash.write_seq_law [of hw idle cells s1 0 ps key] assms(2-4) show ?thesis by auto
qed

theorem flash_download_witness:
  "\<exists>s1 s2. flash_eraseBlocks example_chip 0 1 (flash_ImageWriter (FLASH_CR_LOCK, 0, False, \<lambda>_. 7)) = Some s1
     \<and> write_seq (flash_writeBytes example_chip 0x08004000 [1,2,3,4])
         [enc8 [1,2,3,4] [1,2,3,4,5,6,7,8], enc8 [1,2,3,4] [8,8,8,8,8,8,8,8]] 0 s1 = Some s2
     \<and> flash_img chip_cells s2 9 = 8"
proof -
  let ?s = "flash_ImageWriter (FLASH_CR_LOCK, 0, False, \<lambda>_. 7) :: chip flash_store"
  let ?ps = "[enc8 [1,2,3,4] [1,2,3,4,5,6,7,8], enc8 [1,2,3,4] [8,8,8,8,8,8,8,8]]"
  have "flash_rest example_chip chip_idle chip_cells ?s"
    by (rule example_chip_rest)
  moreover have plain: "map_chunks8 (dec8 [1,2,3,4]) (concat ?ps) = [1,2,3,4,5,6,7,8] @ [8,8,8,8,8,8,8,8]"
    using map_chunks8_append8 [of "enc8 [1,2,3,4] [8,8,8,8,8,8,8,8]" "dec8 [1,2,3,4]" "[]"]
    by (simp add: map_chunks8_append8 dec8_enc8)
  ultimately obtain s1 s2 where "flash_eraseBlocks example_chip 0 1 ?s = Some s1"
      "write_seq (flash_writeBytes example_chip 0x08004000 [1,2,3,4]) ?ps 0 s1 = Some s2"
      "\<forall>i. i < flash_cap \<longrightarrow> flash_img chip_cells s2 i = overlay (flash_img chip_cells s1) 0
        ([1,2,3,4,5,6,7,8] @ [8,8,8,8,8,8,8,8]) i"
    using flash_download [of example_chip chip_idle chip_cells "(FLASH_CR_LOCK, 0, False, \<lambda>_. 7)" ?ps 1
        "[1,2,3,4]"] by (simp add: flash_cap_def) metis
  then show ?thesis by (intro exI [of _ s1] exI [of _ s2]) (simp add: flash_cap_def overlay_def)
qed

text \<open>
  A sector is erased at most once in a session: preparing blocks again never changes a cell whose
  sector has already been prepared, so the packets written before survive the next write command.
\<close>

theorem erase_once:
  assumes "flash_rest hw idle cells s" and "512 * (unat start + unat len) \<le> flash_cap"
  shows "\<exists>s'. flash_eraseBlocks hw start len s = Some s' \<and> flash_ready hw idle cells s'
    \<and> (\<forall>i. i < flash_cap \<and> flash_erased s i \<longrightarrow> flash_img cells s' i = flash_img cells s i)
    \<and> (\<forall>i. i < flash_cap \<and> \<not> flash_erased s i \<and> flash_erased s' i \<longrightarrow> flash_img cells s' i = 0xFF)
    \<and> (\<forall>i. i < 512 * (unat start + unat len) \<longrightarrow> flash_erased s' i)"
  using flash.erase_law [OF assms] by blast

theorem erase_once_witness:
  "\<exists>s'. flash_eraseBlocks example_chip 2 6 (flash_ImageWriter (FLASH_CR_LOCK, 0, False, \<lambda>_. 7)) = Some s'
     \<and> flash_img chip_cells s' 100 = 0xFF"
proof -
  let ?s = "flash_ImageWriter (FLASH_CR_LOCK, 0, False, \<lambda>_. 7) :: chip flash_store"
  have "flash_rest example_chip chip_idle chip_cells ?s"
    by (rule example_chip_rest)
  from erase_once [OF this, of 2 6] show ?thesis
    by (auto simp: flash_cap_def flash_ImageWriter_fresh)
qed

end
