(* ===== verification/Storage.thy ===== *)
theory Storage
  imports Prelude
begin

text \<open>
  The interface \<open>class StorageBase\<close> (\<open>src/usb/storagebase.h\<close>) between the mass storage class and
  the disk behind it.  The disk calls back its \<open>parent\<close> (\<open>DecResidue\<close>, \<open>SetSenseData\<close>); here an
  operation returns these calls in their order, and the caller executes them.
\<close>

datatype mmcIOStates = mmcIOPEN | mmcIOEND

datatype parent_call = CallDecResidue u32 | CallSetSenseData u32 u32 u8

text \<open>The virtual methods; \<open>Read\<close> fills a buffer of the given length, \<open>Write\<close> gets one.\<close>

record 's storage =
  GetCapacity :: "'s \<Rightarrow> u32"
  CmdRead :: "u32 \<Rightarrow> u32 \<Rightarrow> 's \<Rightarrow> (parent_call list \<times> 's) option"
  CmdWrite :: "u32 \<Rightarrow> u32 \<Rightarrow> 's \<Rightarrow> (parent_call list \<times> 's) option"
  Read :: "u32 \<Rightarrow> 's \<Rightarrow> (mmcIOStates \<times> mem \<times> parent_call list \<times> 's) option"
  Write :: "mem \<Rightarrow> u32 \<Rightarrow> 's \<Rightarrow> (mmcIOStates \<times> parent_call list \<times> 's) option"

text \<open>Packets written one after the other, and several write commands for consecutive blocks.\<close>

primrec write_all :: "'s storage \<Rightarrow> mem list \<Rightarrow> 's \<Rightarrow> (mmcIOStates list \<times> 's) option" where
  "write_all st [] s = Some ([], s)"
| "write_all st (p # ps) s =
     Option.bind (Write st p (of_nat (length p)) s) (\<lambda>(r, _, s).
     map_option (\<lambda>(rs, s). (r # rs, s)) (write_all st ps s))"

primrec write_commands :: "'s storage \<Rightarrow> u32 \<Rightarrow> mem list list \<Rightarrow> 's \<Rightarrow> 's option" where
  "write_commands st lba [] s = Some s"
| "write_commands st lba (ps # pss) s =
     (let n = of_nat (length ps div 8) in
      Option.bind (CmdWrite st lba n s) (\<lambda>(_, s).
      Option.bind (write_all st ps s) (\<lambda>(_, s).
      write_commands st (lba + n) pss s)))"

text \<open>
  What the mass storage class may rely on.  \<open>packet s off\<close> is what a read of 64 bytes at byte \<open>off\<close> of
  the disk gives; \<open>reading s off rem\<close> and \<open>writing s off rem\<close> say that a transfer is at byte \<open>off\<close>
  with \<open>rem\<close> bytes to go; \<open>writable s m n\<close> is the condition for a write command.  A
  transfer of \<open>n\<close> blocks takes \<open>8 * n\<close> packets, of which only the last one reports the end,
  and each packet is counted by the parent.
\<close>

locale storage_provider =
  fixes st :: "'s storage" and inv :: "'s \<Rightarrow> bool" and blocks :: nat
    and packet :: "'s \<Rightarrow> nat \<Rightarrow> mem"
    and reading writing :: "'s \<Rightarrow> nat \<Rightarrow> nat \<Rightarrow> bool"
    and writable :: "'s \<Rightarrow> nat \<Rightarrow> nat \<Rightarrow> bool"
  assumes capacity_law: "inv s \<Longrightarrow> unat (GetCapacity st s) = blocks"
    and cmd_read_law: "inv s \<Longrightarrow> 0 < unat n \<Longrightarrow> unat m + unat n \<le> blocks \<Longrightarrow>
      \<exists>s'. CmdRead st m n s = Some ([], s') \<and> reading s' (512 * unat m) (512 * unat n) \<and>
        packet s' = packet s"
    and read_law: "reading s off rem \<Longrightarrow> 64 \<le> rem \<Longrightarrow>
      \<exists>s'. Read st 64 s = Some (if rem = 64 then mmcIOEND else mmcIOPEN, packet s off, [CallDecResidue 64], s')
        \<and> reading s' (off + 64) (rem - 64) \<and> packet s' = packet s \<and> length (packet s off) = 64"
    and read_inv: "reading s off rem \<Longrightarrow> inv s"
    and cmd_write_law: "inv s \<Longrightarrow> 0 < unat n \<Longrightarrow> unat m + unat n \<le> blocks \<Longrightarrow>
      writable s (unat m) (unat n) \<Longrightarrow>
      \<exists>s'. CmdWrite st m n s = Some ([], s') \<and> writing s' (512 * unat m) (512 * unat n)"
    and write_law: "writing s off rem \<Longrightarrow> 64 \<le> rem \<Longrightarrow> length p = 64 \<Longrightarrow>
      \<exists>s'. Write st p 64 s = Some (if rem = 64 then mmcIOEND else mmcIOPEN, [CallDecResidue 64], s')
        \<and> writing s' (off + 64) (rem - 64)"
    and write_inv: "writing s off rem \<Longrightarrow> inv s"

text \<open>
  A disk on which a write command may follow the blocks written so far, once these reach beyond the
  sector \<open>start\<close>: a file that is stored in consecutive sectors can be written with any number of commands.
\<close>

locale sequential_storage = storage_provider +
  fixes start :: nat
  assumes sequel_law: "writing s (512 * m) 0 \<Longrightarrow> start < m \<Longrightarrow> writable s m n"

end
