(* ===== verification/Fat12.thy ===== *)
theory Fat12
  imports Storage Writer Keys "HOL-Library.Monad_Syntax"
begin

unbundle bit_operations_syntax

text \<open>
  The emulated disk \<open>src/work/boot/fat12emul.cpp\<close>: a volume of 128 sectors whose first four sectors (boot
  sector, allocation table, directory) and whose file INDEX.HTM are in memory, and whose file FIRMWARE.BIN
  is the image behind \<open>ImageWriter\<close>.  The image writer is a parameter (\<open>image_ops\<close>), either of the
  two versions of the theory \<open>Writer\<close>.
\<close>

record 'm image_ops =
  eraseBlocks :: "u32 \<Rightarrow> u32 \<Rightarrow> 'm \<Rightarrow> 'm option"
  readBytes :: "u32 \<Rightarrow> u32 \<Rightarrow> 'm \<Rightarrow> mem option"
  writeBytes :: "mem \<Rightarrow> u32 \<Rightarrow> u32 \<Rightarrow> 'm \<Rightarrow> 'm option"

section \<open>The boot sector\<close>

record BIOS_Parameter_Block =
  Bytes_Per_Logical_Sector :: u16
  Logical_Sectors_Per_Cluster :: u8
  Reserved_Logical_Sectors :: u16
  Number_Of_FATs :: u8
  Maximum_Directory_Entries :: u16
  Total_Logical_Sectors :: u16
  Media_Descriptor :: u8
  Logical_Sectors_Per_FAT :: u16
  E0 :: u16
  E1 :: u16
  E2 :: u16

record BootSect =
  jump :: mem
  OEM_Name :: mem
  BPB :: BIOS_Parameter_Block

definition bytes16 :: "u16 \<Rightarrow> mem" where
  "bytes16 w = [ucast w, ucast (drop_bit 8 w)]"

text \<open>The packed layout of the two structures.\<close>

definition BPB_bytes :: "BIOS_Parameter_Block \<Rightarrow> mem" where
  "BPB_bytes b = bytes16 (Bytes_Per_Logical_Sector b) @ [Logical_Sectors_Per_Cluster b]
     @ bytes16 (Reserved_Logical_Sectors b) @ [Number_Of_FATs b]
     @ bytes16 (Maximum_Directory_Entries b) @ bytes16 (Total_Logical_Sectors b)
     @ [Media_Descriptor b] @ bytes16 (Logical_Sectors_Per_FAT b)
     @ bytes16 (E0 b) @ bytes16 (E1 b) @ bytes16 (E2 b)"

definition BootSect_bytes :: "BootSect \<Rightarrow> mem" where
  "BootSect_bytes b = jump b @ OEM_Name b @ BPB_bytes (BPB b)"

definition BootSector :: BootSect where
  "BootSector = \<lparr>
     jump = [0xEB, 0x3C, 0x90],
     OEM_Name = [0x6D, 0x6B, 0x66, 0x73, 0x2E, 0x66, 0x61, 0x74],
     BPB = \<lparr> Bytes_Per_Logical_Sector = 512, Logical_Sectors_Per_Cluster = 2,
       Reserved_Logical_Sectors = 1, Number_Of_FATs = 1, Maximum_Directory_Entries = 16,
       Total_Logical_Sectors = 128, Media_Descriptor = 0xF8, Logical_Sectors_Per_FAT = 2,
       E0 = 0, E1 = 0, E2 = 0 \<rparr> \<rparr>"

definition Valid_Boot_Sector_Signature :: u16 where
  "Valid_Boot_Sector_Signature = 0xAA55"

section \<open>The allocation table\<close>

text \<open>
  Two entries of 12 bits in three bytes, the first one in the low bits; the table begins at byte
  \<open>base\<close> of the buffer.
\<close>

definition read_fat_entry_n :: "mem \<Rightarrow> nat \<Rightarrow> nat \<Rightarrow> u16" where
  "read_fat_entry_n io base n =
     (let m = base + 3 * (n div 2) in
      if odd n then ucast (drop_bit 4 (io ! (m + 1))) OR push_bit 4 (ucast (io ! (m + 2)))
      else ucast (io ! m) OR push_bit 8 (ucast (io ! (m + 1) AND 0x0F)))"

definition write_fat_entry_n :: "nat \<Rightarrow> nat \<Rightarrow> u16 \<Rightarrow> mem \<Rightarrow> mem option" where
  "write_fat_entry_n base n t io =
     (let m = base + 3 * (n div 2) in
      if length io < m + 3 then None else
      if odd n then
        Some (io[m + 1 := (io ! (m + 1) AND 0x0F) OR push_bit 4 (ucast (t AND 0x0F)),
                 m + 2 := ucast (drop_bit 4 t)])
      else
        Some (io[m := ucast t,
                 m + 1 := (io ! (m + 1) AND 0xF0) OR (ucast (drop_bit 8 t) AND 0x0F)]))"

section \<open>The directory\<close>

definition DirEntries :: "mem list" where
  "DirEntries =
    [[0x42, 0x4F, 0x4F, 0x54, 0x4C, 0x4F, 0x41, 0x44, 0x45, 0x52, 0x20, 0x08, 0x00, 0x00, 0xF5, 0x8B,
      0x17, 0x4B, 0x17, 0x4B, 0x00, 0x00, 0xF5, 0x8B, 0x17, 0x4B, 0x00, 0x00, 0x00, 0x00, 0x00, 0x00],
     [0x41, 0x69, 0x00, 0x6E, 0x00, 0x64, 0x00, 0x65, 0x00, 0x78, 0x00, 0x0F, 0x00, 0x33, 0x2E, 0x00,
      0x68, 0x00, 0x74, 0x00, 0x6D, 0x00, 0x6C, 0x00, 0x00, 0x00, 0x00, 0x00, 0xFF, 0xFF, 0xFF, 0xFF],
     [0x49, 0x4E, 0x44, 0x45, 0x58, 0x7E, 0x31, 0x20, 0x48, 0x54, 0x4D, 0x21, 0x00, 0x64, 0xF5, 0x7B,
      0x17, 0x4B, 0x17, 0x4B, 0x00, 0x00, 0xF5, 0x7B, 0x17, 0x4B, 0x02, 0x00, 0x90, 0x01, 0x00, 0x00],
     [0x46, 0x49, 0x52, 0x4D, 0x57, 0x41, 0x52, 0x45, 0x42, 0x49, 0x4E, 0x20, 0x00, 0x64, 0xF5, 0x7B,
      0x17, 0x4B, 0x17, 0x4B, 0x00, 0x00, 0xF5, 0x7B, 0x17, 0x4B, 0x03, 0x00, 0x00, 0x80, 0x00, 0x00]]"

text \<open>The member \<open>First_Logical_Cluster\<close> of an entry (bytes 26 and 27).\<close>

definition First_Logical_Cluster :: "mem \<Rightarrow> u16" where
  "First_Logical_Cluster e = ucast (e ! 26) OR push_bit 8 (ucast (e ! 27))"

definition hex_digits :: mem where
  "hex_digits = [0x30, 0x31, 0x32, 0x33, 0x34, 0x35, 0x36, 0x37, 0x38, 0x39,
                 0x41, 0x42, 0x43, 0x44, 0x45, 0x46]"

text \<open>\<open>toHex\<close> fills eight characters from the last one down.\<close>

primrec toHex_loop :: "nat \<Rightarrow> u32 \<Rightarrow> mem \<Rightarrow> mem" where
  "toHex_loop 0 n p = p"
| "toHex_loop (Suc i) n p = toHex_loop i (drop_bit 4 n) (hex_digits ! unat (n AND 0x0F) # p)"

definition toHex :: "u32 \<Rightarrow> mem" where
  "toHex n = toHex_loop 8 n []"

section \<open>The state and its operations\<close>

text \<open>
  \<open>IO\<close> is the structure of 2560 bytes: \<open>boot\<close> at 0, \<open>fat\<close> at 512, \<open>dir\<close> at 1536, \<open>data\<close> at 2048.
\<close>

record 'm fat12 =
  memory :: 'm
  IO :: mem
  capacity :: u32
  rwofs :: u32
  rwlen :: u32
  pt0 :: u32
  pt1 :: u32
  pt2 :: u32
  full_size :: u32

definition block :: u32 where
  "block = 512"

definition Fat12Emul :: "'m \<Rightarrow> 'm fat12" where
  "Fat12Emul m = \<lparr> memory = m, IO = replicate 2560 0,
     capacity = ucast (Total_Logical_Sectors (BPB BootSector)), rwofs = 0, rwlen = 0,
     pt0 = 0, pt1 = 0, pt2 = 0, full_size = 0 \<rparr>"

definition fat_CmdRead :: "u32 \<Rightarrow> u32 \<Rightarrow> 'm fat12 \<Rightarrow> 'm fat12" where
  "fat_CmdRead offset lenght s = s\<lparr>rwofs := offset * block, rwlen := lenght * block\<rparr>"

definition fat_CmdWrite :: "'m image_ops \<Rightarrow> u32 \<Rightarrow> u32 \<Rightarrow> 'm fat12 \<Rightarrow> 'm fat12 option" where
  "fat_CmdWrite ops offset lenght s =
     (let s = s\<lparr>rwofs := offset * block, rwlen := lenght * block\<rparr>;
          start = sint (offset - pt2 s);
          erase = sint lenght;
          (start, erase) = (if start < 0 then (0, erase + start) else (start, erase))
      in if erase > 0
         then map_option (\<lambda>m. s\<lparr>memory := m\<rparr>)
                (eraseBlocks ops (word_of_int start) (word_of_int erase) (memory s))
         else Some s)"

definition fat_GetCapacity :: "'m fat12 \<Rightarrow> u32" where
  "fat_GetCapacity s = capacity s"

text \<open>Access to a part of \<open>IO\<close>.\<close>

definition put_bytes :: "nat \<Rightarrow> mem \<Rightarrow> mem \<Rightarrow> mem option" where
  "put_bytes off bs io =
     (if off + length bs \<le> length io
      then Some (take off io @ bs @ drop (off + length bs) io) else None)"

definition get_bytes :: "nat \<Rightarrow> nat \<Rightarrow> mem \<Rightarrow> mem option" where
  "get_bytes off n io = (if off + n \<le> length io then Some (take n (drop off io)) else None)"

section \<open>\<open>Prepare\<close>\<close>

definition fat_base :: nat where "fat_base = 512"
definition dir_base :: nat where "dir_base = 1536"
definition data_base :: nat where "data_base = 2048"

definition dirent :: "nat \<Rightarrow> mem \<Rightarrow> mem" where
  "dirent i io = take 32 (drop (dir_base + 32 * i) io)"

text \<open>The landmarks \<open>pt0\<close>, \<open>pt1\<close>, \<open>pt2\<close> and \<open>full_size\<close> from the boot sector and the directory.\<close>

definition set_geometry :: "mem \<Rightarrow> 'm fat12 \<Rightarrow> 'm fat12" where
  "set_geometry io s =
     (let b = BPB BootSector;
          offset = ucast (Reserved_Logical_Sectors b);
          offset = offset + ucast (Logical_Sectors_Per_FAT b);
          offset = (if Number_Of_FATs b > 1 then offset + ucast (Logical_Sectors_Per_FAT b) else offset);
          offset = offset + drop_bit 9 (ucast (Maximum_Directory_Entries b) * 32);
          ClusterSize = ucast (Logical_Sectors_Per_Cluster b);
          p1 = (ucast (First_Logical_Cluster (dirent 2 io)) - 2) * ClusterSize + offset;
          p2 = (ucast (First_Logical_Cluster (dirent 3 io)) - 2) * ClusterSize + offset
      in s\<lparr>pt0 := offset, pt1 := p1, pt2 := p2,
           full_size := ((ucast (Total_Logical_Sectors b) - p2) AND NOT (ClusterSize - 1)) * block\<rparr>)"

text \<open>The chain of the file: entry \<open>n\<close> points to \<open>n + 1\<close>.\<close>

primrec chain_loop :: "nat \<Rightarrow> nat \<Rightarrow> mem \<Rightarrow> mem option" where
  "chain_loop 0 n io = Some io"
| "chain_loop (Suc k) n io =
     Option.bind (write_fat_entry_n fat_base n (of_nat (n + 1)) io) (chain_loop k (n + 1))"

definition Prepare_fat :: "nat \<Rightarrow> mem \<Rightarrow> mem option" where
  "Prepare_fat clusters io = do {
     io \<leftarrow> write_fat_entry_n fat_base 0 0xFF8 io;
     io \<leftarrow> write_fat_entry_n fat_base 1 0xFFF io;
     io \<leftarrow> write_fat_entry_n fat_base 2 0xFFF io;
     if clusters \<noteq> 0 then do {
       io \<leftarrow> chain_loop (clusters - 1) 3 io;
       write_fat_entry_n fat_base (clusters + 2) 0xFFF io
     } else Some io
   }"

text \<open>The page: each \<open>%\<close> is replaced by the four words of the server key in hexadecimal.\<close>

fun Prepare_index :: "tea_key \<Rightarrow> mem \<Rightarrow> nat \<Rightarrow> mem \<Rightarrow> mem option" where
  "Prepare_index key [] m io = Some io"
| "Prepare_index key (c # cs) m io =
     (if c = 0x25 then do {
        io \<leftarrow> put_bytes (data_base + m) (concat (map toHex (take 4 key))) io;
        Prepare_index key cs (m + 32) io
      } else do {
        io \<leftarrow> put_bytes (data_base + m) [c] io;
        Prepare_index key cs (m + 1) io
      })"

definition Prepare :: "mem \<Rightarrow> tea_key \<Rightarrow> 'm fat12 \<Rightarrow> 'm fat12 option" where
  "Prepare index_ctxt key s = do {
     io \<leftarrow> put_bytes 0 (replicate (unat (push_bit 2 block)) 0) (IO s);
     io \<leftarrow> put_bytes dir_base (concat DirEntries) io;
     let s = set_geometry io s;
     io \<leftarrow> put_bytes 0 (BootSect_bytes BootSector) io;
     io \<leftarrow> put_bytes 510 (bytes16 Valid_Boot_Sector_Signature) io;
     let cluster_size = ucast (Logical_Sectors_Per_Cluster (BPB BootSector)) * block;
     io \<leftarrow> Prepare_fat (unat (full_size s div cluster_size)) io;
     io \<leftarrow> put_bytes (dir_base + 32 * 2 + 28) (bytes32 (of_nat (length index_ctxt) + 31)) io;
     io \<leftarrow> put_bytes (dir_base + 32 * 3 + 28) (bytes32 (full_size s)) io;
     io \<leftarrow> Prepare_index key index_ctxt 0 io;
     Some (s\<lparr>IO := io\<rparr>)
   }"

section \<open>\<open>Read\<close> and \<open>Write\<close>\<close>

definition zeroRead :: "u32 \<Rightarrow> mem" where
  "zeroRead len = replicate (unat len) 0"

definition systRead :: "u32 \<Rightarrow> 'm fat12 \<Rightarrow> mem option" where
  "systRead len s = get_bytes (unat (rwofs s)) (unat len) (IO s)"

definition indxRead :: "u32 \<Rightarrow> 'm fat12 \<Rightarrow> mem option" where
  "indxRead len s = get_bytes (data_base + unat (rwofs s AND 0x01FF)) (unat len) (IO s)"

definition fileRead :: "'m image_ops \<Rightarrow> u32 \<Rightarrow> u32 \<Rightarrow> 'm fat12 \<Rightarrow> mem option" where
  "fileRead ops image_size len s =
     (let ofs = rwofs s - pt2 s * block in
      if ofs < image_size then readBytes ops ofs len (memory s) else Some (zeroRead len))"

text \<open>The end of both operations: advance, tell the parent, say whether the transfer is complete.\<close>

definition advance :: "u32 \<Rightarrow> 'm fat12 \<Rightarrow> mmcIOStates \<times> parent_call list \<times> 'm fat12" where
  "advance len s =
     (let s = s\<lparr>rwofs := rwofs s + len, rwlen := rwlen s - len\<rparr>
      in (if rwlen s = 0 then mmcIOEND else mmcIOPEN, [CallDecResidue len], s))"

definition fat_Read ::
  "'m image_ops \<Rightarrow> u32 \<Rightarrow> u32 \<Rightarrow> 'm fat12 \<Rightarrow> (mmcIOStates \<times> mem \<times> parent_call list \<times> 'm fat12) option" where
  "fat_Read ops image_size len s =
     (let tag = drop_bit 9 (rwofs s) in
      Option.bind
       (if tag < pt0 s then systRead len s
        else if tag < pt1 s then Some (zeroRead len)
        else if tag < pt1 s + 1 then indxRead len s
        else if tag < pt2 s then Some (zeroRead len)
        else fileRead ops image_size len s)
       (\<lambda>buf. let (st, calls, s) = advance len s in Some (st, buf, calls, s)))"

definition systWrite :: "mem \<Rightarrow> 'm fat12 \<Rightarrow> 'm fat12 option" where
  "systWrite buf s = map_option (\<lambda>io. s\<lparr>IO := io\<rparr>) (put_bytes (unat (rwofs s)) buf (IO s))"

definition indxWrite :: "mem \<Rightarrow> 'm fat12 \<Rightarrow> 'm fat12 option" where
  "indxWrite buf s =
     map_option (\<lambda>io. s\<lparr>IO := io\<rparr>) (put_bytes (data_base + unat (rwofs s AND 0x01FF)) buf (IO s))"

definition fileWrite :: "'m image_ops \<Rightarrow> mem \<Rightarrow> u32 \<Rightarrow> 'm fat12 \<Rightarrow> 'm fat12 option" where
  "fileWrite ops buf len s =
     (let ofs = rwofs s - pt2 s * block in
      map_option (\<lambda>m. s\<lparr>memory := m\<rparr>) (writeBytes ops buf ofs len (memory s)))"

definition fat_Write ::
  "'m image_ops \<Rightarrow> mem \<Rightarrow> u32 \<Rightarrow> 'm fat12 \<Rightarrow> (mmcIOStates \<times> parent_call list \<times> 'm fat12) option" where
  "fat_Write ops buf len s =
     (let tag = drop_bit 9 (rwofs s); data = take (unat len) buf in
      if length buf < unat len then None else
      map_option (advance len)
       (if tag < pt0 s then systWrite data s
        else if tag < pt1 s then Some s
        else if tag < pt1 s + 1 then indxWrite data s
        else if tag < pt2 s then Some s
        else fileWrite ops data len s))"

text \<open>The disk as a provider of the storage interface.\<close>

definition fat12_storage :: "'m image_ops \<Rightarrow> u32 \<Rightarrow> 'm fat12 storage" where
  "fat12_storage ops image_size = \<lparr>
     GetCapacity = fat_GetCapacity,
     CmdRead = (\<lambda>offset lenght s. Some ([], fat_CmdRead offset lenght s)),
     CmdWrite = (\<lambda>offset lenght s. map_option (Pair []) (fat_CmdWrite ops offset lenght s)),
     Read = fat_Read ops image_size,
     Write = fat_Write ops \<rparr>"

section \<open>The allocation table as a map of entries\<close>

lemma low_masks: "(15 :: u8) = mask 4" "(15 :: u16) = mask 4" "(4095 :: u16) = mask 12"
    "(240 :: u8) = push_bit 4 (mask 4)"
  by (simp_all add: mask_eq_exp_minus_1 push_bit_eq_mult)

lemma nibbles:
  fixes b c :: u8 and t :: u16
  shows "ucast (drop_bit 4 (push_bit 4 (ucast (t AND 15) :: u8))) OR
      push_bit 4 (ucast (ucast (drop_bit 4 t) :: u8)) = t AND 4095"
    and "ucast (ucast t :: u8) OR push_bit 8 (ucast (((b AND 240) OR ((ucast (drop_bit 8 t) :: u8) AND 15)) AND 15)) =
      t AND 4095"
    and "drop_bit 4 b AND 15 = drop_bit 4 b"
    and "((b AND 15) OR push_bit 4 c) AND 15 = b AND 15"
  unfolding low_masks
  by (rule bit_word_eqI; auto simp: bit_simps not_less less_diff_conv2 dest: bit_imp_le_length;
      metis le_add_diff_inverse not_less)+

lemma read_write_fat_entry:
  assumes "write_fat_entry_n base n t io = Some io'"
  shows "read_fat_entry_n io' base k = (if k = n then t AND 0xFFF else read_fat_entry_n io base k)"
    and "length io' = length io" and "base + 3 * (n div 2) + 3 \<le> length io"
    and "j < base + 3 * (n div 2) \<or> base + 3 * (n div 2) + 3 \<le> j \<Longrightarrow> io' ! j = io ! j"
proof -
  let ?m = "base + 3 * (n div 2)"
  have le: "?m + 3 \<le> length io" and io': "io' = (if odd n then
        io[?m + 1 := (io ! (?m + 1) AND 0x0F) OR push_bit 4 (ucast (t AND 0x0F)),
           ?m + 2 := ucast (drop_bit 4 t)]
      else io[?m := ucast t, ?m + 1 := (io ! (?m + 1) AND 0xF0) OR (ucast (drop_bit 8 t) AND 0x0F)])"
    using assms by (auto simp: write_fat_entry_n_def Let_def split: if_splits)
  show "length io' = length io" "?m + 3 \<le> length io" using le by (simp_all add: io')
  have outside: "io' ! j = io ! j" if "j < ?m \<or> ?m + 3 \<le> j" for j
    using that by (auto simp: io' nth_list_update)
  then show "j < ?m \<or> ?m + 3 \<le> j \<Longrightarrow> io' ! j = io ! j" .
  show "read_fat_entry_n io' base k = (if k = n then t AND 0xFFF else read_fat_entry_n io base k)"
  proof (cases "k div 2 = n div 2")
    case True
    have "k = n \<or> odd k \<noteq> odd n" using True by presburger
    moreover have "odd k \<noteq> odd n \<Longrightarrow> k \<noteq> n" by auto
    ultimately show ?thesis
      using le by (auto simp: read_fat_entry_n_def Let_def io' True nth_list_update nibbles)
  next
    case False
    have far: "base + 3 * (k div 2) + i < ?m \<or> ?m + 3 \<le> base + 3 * (k div 2) + i" if "i < 3" for i
      using that False by linarith
    have e: "io' ! (base + 3 * (k div 2)) = io ! (base + 3 * (k div 2))"
      "io' ! (base + 3 * (k div 2) + 1) = io ! (base + 3 * (k div 2) + 1)"
      "io' ! (base + 3 * (k div 2) + 2) = io ! (base + 3 * (k div 2) + 2)"
      using outside [OF far, of 0] outside [OF far, of 1] outside [OF far, of 2] by simp_all
    have "k \<noteq> n" using False by blast
    moreover have "read_fat_entry_n io' base k = read_fat_entry_n io base k"
      unfolding read_fat_entry_n_def Let_def e ..
    ultimately show ?thesis by simp
  qed
qed

lemma write_fat_entry_total:
  "base + 3 * (n div 2) + 3 \<le> length io \<Longrightarrow> \<exists>io'. write_fat_entry_n base n t io = Some io'"
  by (auto simp: write_fat_entry_n_def Let_def)

text \<open>The bytes of the directory and of the page are not touched by the table.\<close>

definition same_outside :: "mem \<Rightarrow> mem \<Rightarrow> bool" where
  "same_outside io io' \<longleftrightarrow> length io' = length io \<and> take 512 io' = take 512 io \<and> drop 1536 io' = drop 1536 io"

lemma same_outside_trans: "same_outside a b \<Longrightarrow> same_outside b c \<Longrightarrow> same_outside a c"
  by (simp add: same_outside_def)

lemma write_fat_entry_outside:
  assumes "write_fat_entry_n fat_base n t io = Some io'" and "n < 680"
  shows "same_outside io io'"
proof -
  note rw = read_write_fat_entry [OF assms(1)]
  have "fat_base + 3 * (n div 2) + 3 \<le> 1536" using assms(2) by (simp add: fat_base_def)
  then have "io' ! j = io ! j" if "j < 512 \<or> 1536 \<le> j" for j
    using that by (intro rw(4)) (auto simp: fat_base_def)
  then show ?thesis
    unfolding same_outside_def using rw(2) by (auto intro!: nth_equalityI)
qed

lemma write_fat_entry_ex:
  assumes "length io = 2560" and "n < 680"
  obtains io' where "write_fat_entry_n fat_base n t io = Some io'" "length io' = 2560" "same_outside io io'"
    "\<And>e. read_fat_entry_n io' fat_base e = (if e = n then t AND 0xFFF else read_fat_entry_n io fat_base e)"
proof -
  have "\<exists>io'. write_fat_entry_n fat_base n t io = Some io'"
    using assms by (intro write_fat_entry_total) (simp add: fat_base_def)
  then obtain io' where w: "write_fat_entry_n fat_base n t io = Some io'" ..
  from that [OF w] read_write_fat_entry(1,2) [OF w] write_fat_entry_outside [OF w assms(2)] assms(1)
  show ?thesis by simp
qed

lemma chain_loop_entries:
  assumes "length io = 2560" and "n + k < 680"
  shows "\<exists>io'. chain_loop k n io = Some io' \<and> length io' = 2560 \<and> same_outside io io' \<and>
    (\<forall>e. read_fat_entry_n io' fat_base e =
      (if n \<le> e \<and> e < n + k then of_nat (e + 1) AND 0xFFF else read_fat_entry_n io fat_base e))"
  using assms
proof (induction k arbitrary: n io)
  case 0
  then show ?case by (auto simp: same_outside_def)
next
  case (Suc k)
  obtain io1 where io1: "write_fat_entry_n fat_base n (of_nat (n + 1)) io = Some io1" "length io1 = 2560"
      "same_outside io io1" "\<And>e. read_fat_entry_n io1 fat_base e =
        (if e = n then of_nat (n + 1) AND 0xFFF else read_fat_entry_n io fat_base e)"
    using write_fat_entry_ex [of io n "of_nat (n + 1)"] Suc.prems by auto
  obtain io2 where io2: "chain_loop k (n + 1) io1 = Some io2" "length io2 = 2560" "same_outside io1 io2"
      "\<forall>e. read_fat_entry_n io2 fat_base e =
        (if n + 1 \<le> e \<and> e < n + 1 + k then of_nat (e + 1) AND 0xFFF else read_fat_entry_n io1 fat_base e)"
    using Suc.IH [of io1 "n + 1"] io1(2) Suc.prems by auto
  have "chain_loop (Suc k) n io = Some io2" using io1(1) io2(1) by simp
  with io1 io2 same_outside_trans [OF io1(3) io2(3)] show ?case by auto
qed

text \<open>The table after \<open>Prepare_fat\<close>: media, end mark, the page, and the chain of the file.\<close>

definition fat_spec :: "nat \<Rightarrow> nat \<Rightarrow> u16" where
  "fat_spec clusters e =
     (if e = 0 then 0xFF8 else if e \<le> 2 then 0xFFF
      else if e < clusters + 2 then of_nat (e + 1) else 0xFFF)"

lemma below_4096:
  assumes "n < 4096"
  shows "of_nat n AND 0xFFF = (of_nat n :: u16)"
proof -
  have "(of_nat n :: u16) AND 0xFFF = take_bit 12 (of_nat n)"
    by (simp add: take_bit_eq_mask mask_eq_exp_minus_1)
  also have "\<dots> = of_nat (take_bit 12 n)" by (simp add: of_nat_take_bit)
  also have "take_bit 12 n = n" using assms by (simp add: take_bit_nat_eq_self_iff)
  finally show ?thesis .
qed

lemma Prepare_fat_entries:
  assumes "length io = 2560" and "clusters < 600"
  shows "\<exists>io'. Prepare_fat clusters io = Some io' \<and> length io' = 2560 \<and> same_outside io io' \<and>
    (\<forall>e. read_fat_entry_n io' fat_base e =
      (if e < clusters + 3 then fat_spec clusters e else read_fat_entry_n io fat_base e))"
proof -
  obtain io0 where io0: "write_fat_entry_n fat_base 0 0xFF8 io = Some io0" "length io0 = 2560"
      "same_outside io io0" "\<And>e. read_fat_entry_n io0 fat_base e =
        (if e = 0 then 0xFF8 AND 0xFFF else read_fat_entry_n io fat_base e)"
    using write_fat_entry_ex [of io 0 "0xFF8"] assms by auto
  obtain io1 where io1: "write_fat_entry_n fat_base 1 0xFFF io0 = Some io1" "length io1 = 2560"
      "same_outside io0 io1" "\<And>e. read_fat_entry_n io1 fat_base e =
        (if e = 1 then 0xFFF AND 0xFFF else read_fat_entry_n io0 fat_base e)"
    using write_fat_entry_ex [of io0 1 "0xFFF"] io0(2) by auto
  obtain io2 where io2: "write_fat_entry_n fat_base 2 0xFFF io1 = Some io2" "length io2 = 2560"
      "same_outside io1 io2" "\<And>e. read_fat_entry_n io2 fat_base e =
        (if e = 2 then 0xFFF AND 0xFFF else read_fat_entry_n io1 fat_base e)"
    using write_fat_entry_ex [of io1 2 "0xFFF"] io1(2) by auto
  have same2: "same_outside io io2"
    using same_outside_trans same_outside_trans io0(3) io1(3) io2(3) by blast
  show ?thesis
  proof (cases "clusters = 0")
    case True
    have "Prepare_fat clusters io = Some io2" using io0(1) io1(1) io2(1) True by (simp add: Prepare_fat_def)
    then show ?thesis using io2 io1(4) io0(4) same2 True
      by (auto simp: fat_spec_def numeral_2_eq_2 less_Suc_eq le_Suc_eq)
  next
    case False
    obtain io3 where io3: "chain_loop (clusters - 1) 3 io2 = Some io3" "length io3 = 2560"
        "same_outside io2 io3" "\<forall>e. read_fat_entry_n io3 fat_base e =
          (if 3 \<le> e \<and> e < 3 + (clusters - 1) then of_nat (e + 1) AND 0xFFF
           else read_fat_entry_n io2 fat_base e)"
    proof -
      have "3 + (clusters - 1) < 680" using assms(2) by simp
      from chain_loop_entries [OF io2(2) this] that show ?thesis by blast
    qed
    obtain io4 where io4: "write_fat_entry_n fat_base (clusters + 2) 0xFFF io3 = Some io4"
        "length io4 = 2560" "same_outside io3 io4" "\<And>e. read_fat_entry_n io4 fat_base e =
          (if e = clusters + 2 then 0xFFF AND 0xFFF else read_fat_entry_n io3 fat_base e)"
      using write_fat_entry_ex [of io3 "clusters + 2" "0xFFF"] io3(2) assms(2) by auto
    have small: "of_nat (e + 1) AND 0xFFF = (of_nat (e + 1) :: u16)" if "e < clusters + 2" for e
      using that assms(2) by (intro below_4096) simp
    have "Prepare_fat clusters io = Some io4"
      using io0(1) io1(1) io2(1) io3(1) io4(1) False by (simp add: Prepare_fat_def)
    moreover have "same_outside io io4"
      using same_outside_trans same2 io3(3) io4(3) by blast
    moreover have "read_fat_entry_n io4 fat_base e =
        (if e < clusters + 3 then fat_spec clusters e else read_fat_entry_n io fat_base e)" for e
      using io4(4) io3(4) io2(4) io1(4) io0(4) False small [of e]
      by (auto simp: fat_spec_def)
    ultimately show ?thesis using io4(2) by blast
  qed
qed

section \<open>The prepared volume\<close>

lemma put_bytes_ex:
  assumes "off + length bs \<le> length io"
  obtains io' where "put_bytes off bs io = Some io'" "length io' = length io"
    "\<And>j. io' ! j = (if off \<le> j \<and> j < off + length bs then bs ! (j - off) else io ! j)"
proof -
  let ?io = "take off io @ bs @ drop (off + length bs) io"
  have "?io ! j = (if off \<le> j \<and> j < off + length bs then bs ! (j - off) else io ! j)" for j
    using assms by (cases "j < length io") (auto simp: nth_append nth_drop)
  with assms show ?thesis by (intro that [of ?io]) (auto simp: put_bytes_def)
qed

text \<open>The page with the key filled in.\<close>

definition page :: "tea_key \<Rightarrow> mem \<Rightarrow> mem" where
  "page key ctxt = concat (map (\<lambda>c. if c = 0x25 then concat (map toHex (take 4 key)) else [c]) ctxt)"

lemma length_toHex_loop: "length (toHex_loop n w p) = n + length p"
  by (induction n arbitrary: w p) auto

lemma length_toHex [simp]: "length (toHex w) = 8"
  by (simp add: toHex_def length_toHex_loop)

lemma length_hex_key: "length key = 4 \<Longrightarrow> length (concat (map toHex (take 4 key))) = 32"
  by (auto simp: length_4_conv)

lemma Prepare_index_page:
  assumes "length key = 4" and "length io = 2560" and "m + length (page key ctxt) \<le> 512"
  shows "\<exists>io'. Prepare_index key ctxt m io = Some io' \<and> length io' = 2560 \<and>
    (\<forall>j. io' ! j = (if data_base + m \<le> j \<and> j < data_base + m + length (page key ctxt)
      then page key ctxt ! (j - (data_base + m)) else io ! j))"
  using assms(2,3)
proof (induction ctxt arbitrary: m io)
  case Nil
  then show ?case by (auto simp: page_def)
next
  case (Cons c cs)
  define bs where "bs = (if c = 0x25 then concat (map toHex (take 4 key)) else [c])"
  have page: "page key (c # cs) = bs @ page key cs" by (simp add: page_def bs_def)
  have len: "length bs = (if c = 0x25 then 32 else 1)"
    using length_hex_key [OF assms(1)] by (simp add: bs_def)
  have "data_base + m + length bs \<le> length io"
    using Cons.prems by (simp add: page data_base_def)
  then obtain io1 where io1: "put_bytes (data_base + m) bs io = Some io1" "length io1 = length io"
      "\<And>j. io1 ! j = (if data_base + m \<le> j \<and> j < data_base + m + length bs
        then bs ! (j - (data_base + m)) else io ! j)"
    by (rule put_bytes_ex) blast
  have IHp: "length io1 = 2560" "m + length bs + length (page key cs) \<le> 512"
    using io1(2) Cons.prems by (simp_all add: page)
  obtain io2 where io2: "Prepare_index key cs (m + length bs) io1 = Some io2" "length io2 = 2560"
      "\<forall>j. io2 ! j = (if data_base + (m + length bs) \<le> j \<and> j < data_base + (m + length bs) + length (page key cs)
      then page key cs ! (j - (data_base + (m + length bs))) else io1 ! j)"
    using Cons.IH [OF IHp] by auto
  have "Prepare_index key (c # cs) m io = Some io2"
    using io1(1) io2(1) length_hex_key [OF assms(1)] by (auto simp: bs_def split: if_splits)
  moreover have "io2 ! j = (if data_base + m \<le> j \<and> j < data_base + m + length (page key (c # cs))
      then page key (c # cs) ! (j - (data_base + m)) else io ! j)" for j
    using io2(3) io1(3) by (auto simp: page nth_append add.assoc)
  ultimately show ?case using io2(2) by blast
qed

lemma dirent_of_put:
  assumes "put_bytes dir_base (concat DirEntries) io = Some io'" and "length io = 2560"
  shows "dirent 2 io' = DirEntries ! 2" and "dirent 3 io' = DirEntries ! 3"
proof -
  have "drop dir_base io' = concat DirEntries @ drop (dir_base + length (concat DirEntries)) io"
    using assms by (auto simp: put_bytes_def dir_base_def split: if_splits)
  moreover have "dirent i io' = take 32 (drop (32 * i) (drop dir_base io'))" for i
    by (simp add: dirent_def add.commute)
  ultimately show "dirent 2 io' = DirEntries ! 2" "dirent 3 io' = DirEntries ! 3"
    by (simp_all add: DirEntries_def)
qed

lemma geometry_values:
  assumes "dirent 2 io = DirEntries ! 2" and "dirent 3 io = DirEntries ! 3"
  shows "set_geometry io s = s\<lparr>pt0 := 4, pt1 := 4, pt2 := 6, full_size := 62464\<rparr>"
  using assms
  by (simp add: set_geometry_def BootSector_def First_Logical_Cluster_def DirEntries_def block_def Let_def)

lemma read_fat_cong:
  assumes "\<And>j. 512 \<le> j \<Longrightarrow> j < 1536 \<Longrightarrow> io' ! j = io ! j" and "e < 600"
  shows "read_fat_entry_n io' fat_base e = read_fat_entry_n io fat_base e"
proof -
  have "io' ! (fat_base + 3 * (e div 2) + i) = io ! (fat_base + 3 * (e div 2) + i)" if "i < 3" for i
    using assms(2) that by (intro assms(1)) (auto simp: fat_base_def)
  from this [of 0] this [of 1] this [of 2] show ?thesis
    by (simp add: read_fat_entry_n_def Let_def)
qed

lemma same_outside_nth:
  assumes "same_outside io io'" and "j < 512 \<or> 1536 \<le> j" and "j < length io"
  shows "io' ! j = io ! j"
proof (cases "j < 512")
  case True
  have "take 512 io' ! j = take 512 io ! j" using assms(1) unfolding same_outside_def by presburger
  with True show ?thesis by simp
next
  case False
  have eq: "drop 1536 io' ! (j - 1536) = drop 1536 io ! (j - 1536)"
    and len: "length io' = length io"
    using assms(1) unfolding same_outside_def by presburger+
  have "io' ! j = drop 1536 io' ! (j - 1536)" "drop 1536 io ! (j - 1536) = io ! j"
    using False assms(2,3) len by simp_all
  from trans [OF trans [OF this(1) eq] this(2)] show ?thesis .
qed

lemma load32_nth:
  "a + 4 \<le> length io \<Longrightarrow> (\<And>i. i < 4 \<Longrightarrow> io ! (a + i) = bytes32 w ! i) \<Longrightarrow> load32 io a = Some w"
proof -
  assume le: "a + 4 \<le> length io" and eq: "\<And>i. i < 4 \<Longrightarrow> io ! (a + i) = bytes32 w ! i"
  show ?thesis using le eq [of 0] eq [of 1] eq [of 2] eq [of 3]
    by (simp add: load32_def bytes32_def)
qed

text \<open>What a prepared volume looks like.\<close>

definition volume :: "mem \<Rightarrow> tea_key \<Rightarrow> mem \<Rightarrow> bool" where
  "volume index_ctxt key io \<longleftrightarrow> length io = 2560
     \<and> take 30 io = BootSect_bytes BootSector \<and> take 2 (drop 510 io) = [0x55, 0xAA]
     \<and> (\<forall>e < 64. read_fat_entry_n io fat_base e = fat_spec 61 e)
     \<and> First_Logical_Cluster (dirent 2 io) = 2 \<and> First_Logical_Cluster (dirent 3 io) = 3
     \<and> load32 io (dir_base + 92) = Some (of_nat (length index_ctxt) + 31)
     \<and> load32 io (dir_base + 124) = Some 62464
     \<and> take (length (page key index_ctxt)) (drop data_base io) = page key index_ctxt"

lemma First_Logical_Cluster_nth:
  "length io = 2560 \<Longrightarrow> i < 4 \<Longrightarrow> First_Logical_Cluster (dirent i io) =
    ucast (io ! (1562 + 32 * i)) OR push_bit 8 (ucast (io ! (1563 + 32 * i)))"
  by (simp add: First_Logical_Cluster_def dirent_def dir_base_def add.commute)

lemma length_BootSect [simp]: "length (BootSect_bytes BootSector) = 30"
  by (simp add: BootSect_bytes_def BPB_bytes_def BootSector_def bytes16_def)

lemma signature_bytes: "bytes16 Valid_Boot_Sector_Signature = [0x55, 0xAA]"
  by (simp add: bytes16_def Valid_Boot_Sector_Signature_def)

lemma Prepare_steps:
  assumes "length (IO s) = 2560" and "length key = 4" and "length (page key index_ctxt) \<le> 512"
  shows "\<exists>io. Prepare index_ctxt key s =
      Some (s\<lparr>IO := io, pt0 := 4, pt1 := 4, pt2 := 6, full_size := 62464\<rparr>) \<and> volume index_ctxt key io"
proof -
  let ?s = "s\<lparr>pt0 := 4, pt1 := 4, pt2 := 6, full_size := 62464\<rparr>"
  let ?n = "length (page key index_ctxt)"
  have z: "unat (push_bit 2 block) = 2048" by (simp add: block_def push_bit_eq_mult)
  have dirs: "length (concat DirEntries) = 128" by (simp add: DirEntries_def)
  obtain a where a: "put_bytes 0 (replicate 2048 0) (IO s) = Some a" "length a = 2560"
    using put_bytes_ex [of 0 "replicate 2048 0" "IO s"] assms(1) by auto
  obtain b where b: "put_bytes dir_base (concat DirEntries) a = Some b" "length b = 2560"
    using put_bytes_ex [of dir_base "concat DirEntries" a] a(2) by (auto simp: dirs dir_base_def)
  have flc: "b ! 1626 = 2" "b ! 1627 = 0" "b ! 1658 = 3" "b ! 1659 = 0"
    using b(1) a(2) by (auto simp: put_bytes_def dir_base_def nth_append DirEntries_def split: if_splits)
  obtain c where c: "put_bytes 0 (BootSect_bytes BootSector) b = Some c" "length c = 2560"
      "\<And>j. c ! j = (if 0 \<le> j \<and> j < 0 + 30 then BootSect_bytes BootSector ! (j - 0) else b ! j)"
    using put_bytes_ex [of 0 "BootSect_bytes BootSector" b] b(2) by (auto simp del: le0)
  obtain d where d: "put_bytes 510 (bytes16 Valid_Boot_Sector_Signature) c = Some d" "length d = 2560"
      "\<And>j. d ! j = (if 510 \<le> j \<and> j < 512 then [0x55, 0xAA] ! (j - 510) else c ! j)"
    using put_bytes_ex [of 510 "[0x55, 0xAA]" c] c(2) unfolding signature_bytes by auto
  obtain e where e: "Prepare_fat 61 d = Some e" "length e = 2560" "same_outside d e"
      "\<And>k. k < 64 \<Longrightarrow> read_fat_entry_n e fat_base k = fat_spec 61 k"
    using Prepare_fat_entries [of d 61] d(2) by auto
  obtain f where f: "put_bytes 1628 (bytes32 (of_nat (length index_ctxt) + 31)) e = Some f" "length f = 2560"
      "\<And>j. f ! j = (if 1628 \<le> j \<and> j < 1632 then bytes32 (of_nat (length index_ctxt) + 31) ! (j - 1628)
        else e ! j)"
    using put_bytes_ex [of 1628 "bytes32 (of_nat (length index_ctxt) + 31)" e] e(2) by auto
  obtain g where g: "put_bytes 1660 (bytes32 62464) f = Some g" "length g = 2560"
      "\<And>j. g ! j = (if 1660 \<le> j \<and> j < 1664 then bytes32 62464 ! (j - 1660) else f ! j)"
    using put_bytes_ex [of 1660 "bytes32 62464" f] f(2) by auto
  obtain h where h: "Prepare_index key index_ctxt 0 g = Some h" "length h = 2560"
      "\<And>j. h ! j = (if 2048 \<le> j \<and> j < 2048 + ?n then page key index_ctxt ! (j - 2048) else g ! j)"
    using Prepare_index_page [OF assms(2) g(2), of 0 index_ctxt] assms(3) by (auto simp: data_base_def)
  have run: "Prepare index_ctxt key s = Some (?s\<lparr>IO := h\<rparr>)"
    using a(1) b(1) c(1) d(1) e(1) f(1) g(1) h(1)
    by (simp add: Prepare_def z geometry_values [OF dirent_of_put [OF b(1) a(2)]] Let_def)
      (simp add: BootSector_def block_def dir_base_def)
  have low: "h ! j = d ! j" if "j < 512" for j
    using that e(3) d(2) same_outside_nth [of d e j] by (simp add: h(3) g(3) f(3))
  have dir: "h ! j = b ! j" if "1536 \<le> j" "j < 2048" "j < 1628 \<or> 1632 \<le> j" "j < 1660 \<or> 1664 \<le> j" for j
    using that e(3) d(2) same_outside_nth [of d e j] by (auto simp: h(3) g(3) f(3) d(3) c(3))
  have boot: "take 30 h = BootSect_bytes BootSector"
    by (rule nth_equalityI) (use h(2) in \<open>auto simp: low d(3) c(3)\<close>)
  have sig: "take 2 (drop 510 h) = [0x55, 0xAA]"
    by (rule nth_equalityI) (use h(2) in \<open>auto simp: low d(3)\<close>)
  have fat: "read_fat_entry_n h fat_base k = fat_spec 61 k" if "k < 64" for k
    using read_fat_cong [of h e k] e(4) [OF that] that by (simp add: h(3) g(3) f(3))
  have flc_h: "First_Logical_Cluster (dirent 2 h) = 2" "First_Logical_Cluster (dirent 3 h) = 3"
    using dir flc by (simp_all add: First_Logical_Cluster_nth [OF h(2)])
  have size2: "load32 h 1628 = Some (of_nat (length index_ctxt) + 31)"
    by (rule load32_nth) (use h(2) in \<open>auto simp: h(3) g(3) f(3)\<close>)
  have size3: "load32 h 1660 = Some 62464"
    by (rule load32_nth) (use h(2) in \<open>auto simp: h(3) g(3)\<close>)
  have data: "take ?n (drop 2048 h) = page key index_ctxt"
    by (rule nth_equalityI) (use h(2) assms(3) in \<open>auto simp: h(3)\<close>)
  have "volume index_ctxt key h"
    unfolding volume_def using h(2) boot sig fat flc_h size2 size3 data
    by (simp add: dir_base_def data_base_def)
  with run show ?thesis by (intro exI [of _ h]) (simp add: fat12.defs)
qed

section \<open>The disk keeps the contract of the storage interface\<close>

lemma volume_length: "volume index_ctxt key io \<Longrightarrow> length io = 2560"
  by (simp add: volume_def)

text \<open>A disk after \<open>Prepare\<close>, and where a transfer stands.\<close>

definition fat_ready :: "'m fat12 \<Rightarrow> bool" where
  "fat_ready s \<longleftrightarrow> length (IO s) = 2560 \<and> capacity s = 128 \<and> pt0 s = 4 \<and> pt1 s = 4 \<and> pt2 s = 6"

definition fat_at :: "'m fat12 \<Rightarrow> nat \<Rightarrow> nat \<Rightarrow> bool" where
  "fat_at s off rem \<longleftrightarrow> fat_ready s \<and> unat (rwofs s) = off \<and> unat (rwlen s) = rem \<and>
     64 dvd off \<and> 64 dvd rem \<and> off + rem \<le> 65536"

text \<open>The 64 bytes at \<open>off\<close>, given the image behind the disk.\<close>

definition fat_packet :: "tea_key \<Rightarrow> ('m \<Rightarrow> nat \<Rightarrow> u8) \<Rightarrow> u32 \<Rightarrow> 'm fat12 \<Rightarrow> nat \<Rightarrow> mem" where
  "fat_packet key img image_size s off =
     (if off < 2560 then take 64 (drop off (IO s))
      else if off < 3072 \<or> unat image_size \<le> off - 3072 then replicate 64 0
      else map_chunks8 (enc8 key) (map (\<lambda>i. img (memory s) (off - 3072 + i)) [0..<64]))"

lemma fat_at_advance:
  assumes "fat_at s off rem" and "64 \<le> rem"
  shows "fst (advance 64 s) = (if rem = 64 then mmcIOEND else mmcIOPEN)"
    and "fst (snd (advance 64 s)) = [CallDecResidue 64]"
    and "fat_at (snd (snd (advance 64 s))) (off + 64) (rem - 64)"
    and "IO (snd (snd (advance 64 s))) = IO s" and "memory (snd (snd (advance 64 s))) = memory s"
proof -
  have o: "unat (rwofs s + 64) = off + 64" and r: "unat (rwlen s - 64) = rem - 64"
    using assms by (auto simp: fat_at_def unat_word_ariths unat_sub word_le_nat_alt)
  have "rwlen s - 64 = 0 \<longleftrightarrow> rem = 64"
    using r assms(2) unat_eq_0 [of "rwlen s - 64"] by auto
  then show "fst (advance 64 s) = (if rem = 64 then mmcIOEND else mmcIOPEN)"
    "fst (snd (advance 64 s)) = [CallDecResidue 64]" by (simp_all add: advance_def Let_def)
  show "fat_at (snd (snd (advance 64 s))) (off + 64) (rem - 64)"
    using assms o r by (auto simp: advance_def Let_def fat_at_def fat_ready_def dvd_diff_nat)
  show "IO (snd (snd (advance 64 s))) = IO s" "memory (snd (snd (advance 64 s))) = memory s"
    by (simp_all add: advance_def Let_def)
qed

lemma fat_tag:
  assumes "unat (rwofs s) = off"
  shows "drop_bit 9 (rwofs s) < 4 \<longleftrightarrow> off < 2048" and "drop_bit 9 (rwofs s) < 5 \<longleftrightarrow> off < 2560"
    and "drop_bit 9 (rwofs s) < 6 \<longleftrightarrow> off < 3072"
proof -
  have "unat (drop_bit 9 (rwofs s)) = off div 512"
    by (simp only: unat_drop_bit_eq) (simp add: drop_bit_eq_div assms)
  then show "drop_bit 9 (rwofs s) < 4 \<longleftrightarrow> off < 2048" "drop_bit 9 (rwofs s) < 5 \<longleftrightarrow> off < 2560"
    "drop_bit 9 (rwofs s) < 6 \<longleftrightarrow> off < 3072"
    by (simp_all add: word_less_nat_alt div_less_iff_less_mult)
qed

lemma index_offset:
  assumes "unat (rwofs s) = off" and "2048 \<le> off" and "off < 2560"
  shows "data_base + unat (rwofs s AND 0x01FF) = off"
proof -
  have low: "unat (w AND 0x01FF) = unat w mod 512" for w :: u32
  proof -
    have "w AND 0x01FF = w AND mask 9" by (simp add: mask_eq_exp_minus_1)
    also have "\<dots> = w mod 2 ^ 9" by (simp only: take_bit_eq_mask [symmetric] take_bit_eq_mod)
    finally show ?thesis by (simp only: unat_mod) simp
  qed
  have "unat (rwofs s AND 0x01FF) = off mod 512" using low [of "rwofs s"] unfolding assms(1) .
  moreover have "off mod 512 = off - 2048"
    using mod_mult_self1 [of "off - 2048" 4 512] assms(2,3) by simp
  ultimately have "unat (rwofs s AND 0x01FF) = off - 2048" by (rule trans)
  then show ?thesis unfolding data_base_def using assms(2) by linarith
qed

lemma file_offset:
  assumes "unat (rwofs s) = off" and "3072 \<le> off" and "pt2 s = 6"
  shows "unat (rwofs s - pt2 s * block) = off - 3072"
  using assms by (simp add: block_def unat_sub word_le_nat_alt)

definition mk_ops ::
  "(u32 \<Rightarrow> u32 \<Rightarrow> 'm \<Rightarrow> 'm option) \<Rightarrow> (mem \<Rightarrow> u32 \<Rightarrow> u32 \<Rightarrow> 'm \<Rightarrow> 'm option) \<Rightarrow>
   (u32 \<Rightarrow> u32 \<Rightarrow> 'm \<Rightarrow> mem option) \<Rightarrow> 'm image_ops" where
  "mk_ops erase writeB readB = \<lparr>eraseBlocks = erase, readBytes = readB, writeBytes = writeB\<rparr>"

lemma sint_of_small_int:
  assumes "- 128 \<le> k" and "k \<le> 128"
  shows "sint (word_of_int k :: u32) = k"
proof -
  have "sint (word_of_int k :: u32) = signed_take_bit 31 k" by (simp add: sint_sbintrunc')
  then show ?thesis using assms by (simp add: signed_take_bit_int_eq_self)
qed

lemma word_of_unat: "(n :: u32) = word_of_int (int (unat n))"
  by simp

lemma CmdWrite_erase:
  assumes "pt2 s = 6" and "unat m + unat n \<le> 128"
  shows "fat_CmdWrite ops m n s =
    (let s' = s\<lparr>rwofs := m * block, rwlen := n * block\<rparr>;
         first = unat m - 6; count = unat m + unat n - 6 - (unat m - 6)
     in if 6 < unat m + unat n \<and> 0 < unat n
        then map_option (\<lambda>x. s'\<lparr>memory := x\<rparr>) (eraseBlocks ops (of_nat first) (of_nat count) (memory s))
        else Some s')"
proof -
  have n: "sint n = int (unat n)"
  proof -
    have "sint (word_of_int (int (unat n)) :: u32) = int (unat n)"
      using assms(2) by (intro sint_of_small_int) linarith+
    then show ?thesis by simp
  qed
  have "m - 6 = word_of_int (int (unat m) - 6)" by (simp add: wi_hom_sub [symmetric])
  then have m: "sint (m - 6) = int (unat m) - 6"
  proof -
    have "sint (word_of_int (int (unat m) - 6) :: u32) = int (unat m) - 6"
      using assms(2) by (intro sint_of_small_int) linarith+
    with \<open>m - 6 = _\<close> show ?thesis by simp
  qed
  define a where "a = unat m"
  define b where "b = unat n"
  have m': "sint (m - 6) = int a - 6" and n': "sint n = int b" using m n by (simp_all add: a_def b_def)
  show ?thesis
    unfolding a_def [symmetric] b_def [symmetric]
  proof (cases "a < 6")
    case True
    have "word_of_int (int b + (int a - 6)) = (of_nat (a + b - 6) :: u32)" if "6 < a + b"
    proof -
      have "int b + (int a - 6) = int (a + b - 6)" using that by simp
      then show ?thesis by (simp only: of_int_of_nat_eq)
    qed
    with True show "fat_CmdWrite ops m n s =
        (let s' = s\<lparr>rwofs := m * block, rwlen := n * block\<rparr>; first = a - 6; count = a + b - 6 - (a - 6)
         in if 6 < a + b \<and> 0 < b
            then map_option (\<lambda>x. s'\<lparr>memory := x\<rparr>) (eraseBlocks ops (of_nat first) (of_nat count) (memory s))
            else Some s')"
      by (auto simp: fat_CmdWrite_def Let_def n' m' assms(1) algebra_simps)
  next
    case False
    have "word_of_int (int a - 6) = (of_nat (a - 6) :: u32)"
    proof -
      have "int a - 6 = int (a - 6)" using False by simp
      then show ?thesis by (simp only: of_int_of_nat_eq)
    qed
    moreover have "a + b - 6 - (a - 6) = b" using False by simp
    moreover have "word_of_int (int b) = (of_nat b :: u32)" by (simp only: of_int_of_nat_eq)
    ultimately show "fat_CmdWrite ops m n s =
        (let s' = s\<lparr>rwofs := m * block, rwlen := n * block\<rparr>; first = a - 6; count = a + b - 6 - (a - 6)
         in if 6 < a + b \<and> 0 < b
            then map_option (\<lambda>x. s'\<lparr>memory := x\<rparr>) (eraseBlocks ops (of_nat first) (of_nat count) (memory s))
            else Some s')"
      using False by (auto simp: fat_CmdWrite_def Let_def n' m' assms(1))
  qed
qed

locale disk_writer = image_writer +
  assumes cap_disk: "62464 \<le> cap"
begin

abbreviation ops :: "'a image_ops" where
  "ops \<equiv> mk_ops erase writeB readB"

definition disk_inv :: "'a fat12 \<Rightarrow> bool" where
  "disk_inv s \<longleftrightarrow> fat_ready s \<and> rest (memory s)"

definition disk_reading :: "'a fat12 \<Rightarrow> nat \<Rightarrow> nat \<Rightarrow> bool" where
  "disk_reading s off rem \<longleftrightarrow> fat_at s off rem \<and> rest (memory s)"

definition disk_writing :: "'a fat12 \<Rightarrow> nat \<Rightarrow> nat \<Rightarrow> bool" where
  "disk_writing s off rem \<longleftrightarrow> fat_at s off rem \<and> rest (memory s) \<and>
     (3072 < off + rem \<longrightarrow> ready (memory s) \<and> untouched (off - 3072) (memory s) \<and>
        (\<forall>i < off + rem - 3072. erased (memory s) i))"

definition disk_writable :: "'a fat12 \<Rightarrow> nat \<Rightarrow> nat \<Rightarrow> bool" where
  "disk_writable s m n \<longleftrightarrow> untouched (512 * m - 3072) (memory s)"

lemma disk_read:
  assumes "disk_reading s off rem" and "64 \<le> rem"
  shows "\<exists>s'. fat_Read ops image_size 64 s =
      Some (if rem = 64 then mmcIOEND else mmcIOPEN, fat_packet key img image_size s off, [CallDecResidue 64], s')
    \<and> disk_reading s' (off + 64) (rem - 64) \<and> IO s' = IO s \<and> memory s' = memory s
    \<and> length (fat_packet key img image_size s off) = 64"
proof -
  have at: "fat_at s off rem" and rest: "rest (memory s)" using assms(1) by (auto simp: disk_reading_def)
  then have st: "length (IO s) = 2560" "pt0 s = 4" "pt1 s = 4" "pt2 s = 6" "unat (rwofs s) = off"
      "64 dvd off" "off + rem \<le> 65536"
    by (auto simp: fat_at_def fat_ready_def)
  note tag = fat_tag [OF st(5)] and adv = fat_at_advance [OF at assms(2)]
  let ?p = "fat_packet key img image_size s off"
  have len: "length (map_chunks8 (enc8 key) (map (\<lambda>i. img (memory s) (off - 3072 + i)) [0..<64])) = 64"
    using tea.length_ecb_enc [of "map (\<lambda>i. img (memory s) (off - 3072 + i)) [0..<64]" key] by simp
  have sector: "off + 64 \<le> 2560" if "off < 2560"
    using that st(6) by (auto elim!: dvdE)
  have buf: "(if drop_bit 9 (rwofs s) < pt0 s then systRead 64 s
      else if drop_bit 9 (rwofs s) < pt1 s then Some (zeroRead 64)
      else if drop_bit 9 (rwofs s) < pt1 s + 1 then indxRead 64 s
      else if drop_bit 9 (rwofs s) < pt2 s then Some (zeroRead 64)
      else fileRead ops image_size 64 s) = Some ?p"
  proof (cases "off < 2560")
    case True
    then show ?thesis using st tag sector index_offset [OF st(5)]
      by (auto simp: systRead_def indxRead_def get_bytes_def fat_packet_def)
  next
    case False
    show ?thesis
    proof (cases "off < 3072")
      case True
      with False st tag show ?thesis by (simp add: zeroRead_def fat_packet_def)
    next
      case high: False
      have ofs: "unat (rwofs s - pt2 s * block) = off - 3072"
        by (rule file_offset) (use high st in auto)
      have "readB (rwofs s - pt2 s * block) 64 (memory s) =
          Some (map_chunks8 (enc8 key) (map (\<lambda>i. img (memory s) (off - 3072 + i)) [0..<64]))"
        using read_law [OF rest, of 64 "rwofs s - pt2 s * block"] ofs high st(7) assms(2) cap_disk by simp
      with high st tag ofs show ?thesis
        by (auto simp: fileRead_def fat_packet_def mk_ops_def Let_def word_less_nat_alt zeroRead_def)
    qed
  qed
  show ?thesis
    using adv rest sector st(1) len
    by (intro exI [of _ "snd (snd (advance 64 s))"])
      (auto simp: fat_Read_def Let_def buf split_beta disk_reading_def fat_packet_def)
qed

lemma disk_CmdRead:
  assumes "disk_inv s" and "unat m + unat n \<le> 128"
  shows "disk_reading (fat_CmdRead m n s) (512 * unat m) (512 * unat n)"
  using assms
  by (auto simp: disk_reading_def disk_inv_def fat_at_def fat_ready_def fat_CmdRead_def block_def unat_word_ariths)

lemma disk_CmdWrite:
  assumes inv: "disk_inv s" and n: "0 < unat n" "unat m + unat n \<le> 128"
    and wr: "disk_writable s (unat m) (unat n)"
  shows "\<exists>s'. fat_CmdWrite ops m n s = Some s' \<and> disk_writing s' (512 * unat m) (512 * unat n)
    \<and> (\<forall>i < cap. erased (memory s) i \<longrightarrow> erased (memory s') i \<and> img (memory s') i = img (memory s) i)"
proof -
  let ?s = "s\<lparr>rwofs := m * block, rwlen := n * block\<rparr>"
  have pt: "pt2 s = 6" and rest: "rest (memory s)" using inv by (auto simp: disk_inv_def fat_ready_def)
  have at: "fat_at (?s\<lparr>memory := x\<rparr>) (512 * unat m) (512 * unat n)" for x
    using inv n by (auto simp: disk_inv_def fat_at_def fat_ready_def block_def unat_word_ariths)
  show ?thesis
  proof (cases "6 < unat m + unat n")
    case False
    then have "fat_CmdWrite ops m n s = Some (?s\<lparr>memory := memory s\<rparr>)"
      using CmdWrite_erase [OF pt n(2)] by (simp add: Let_def)
    with at [of "memory s"] rest False show ?thesis by (auto simp: disk_writing_def)
  next
    case True
    let ?first = "of_nat (unat m - 6) :: u32"
    let ?count = "of_nat (unat m + unat n - 6 - (unat m - 6)) :: u32"
    have sum: "unat ?first + unat ?count = unat m + unat n - 6"
    proof -
      have "unat ?first = unat m - 6" by (rule unat_len) (use n(2) in linarith)
      moreover have "unat ?count = unat m + unat n - 6 - (unat m - 6)"
        by (rule unat_len) (use n(2) in linarith)
      ultimately show ?thesis using True n(1) by linarith
    qed
    have fits: "512 * (unat ?first + unat ?count) \<le> cap" unfolding sum using n(2) cap_disk by simp
    have unt: "untouched (512 * unat m - 3072) (memory s)" using wr by (simp add: disk_writable_def)
    obtain m' where m': "erase ?first ?count (memory s) = Some m'" "ready m'"
        "untouched (512 * unat m - 3072) m'" "\<forall>i < 512 * (unat m + unat n - 6). erased m' i"
        "\<forall>i < cap. erased (memory s) i \<longrightarrow> erased m' i \<and> img m' i = img (memory s) i"
      using erase_keeps_untouched [OF rest fits unt] unfolding sum by blast
    have "fat_CmdWrite ops m n s = Some (?s\<lparr>memory := m'\<rparr>)"
      using CmdWrite_erase [OF pt n(2), of ops] True n(1) m'(1) by (simp add: Let_def mk_ops_def)
    moreover have "disk_writing (?s\<lparr>memory := m'\<rparr>) (512 * unat m) (512 * unat n)"
      unfolding disk_writing_def using at [of m'] ready_rest [OF m'(2)] m' by auto
    ultimately show ?thesis using m'(5) by auto
  qed
qed

lemma disk_write:
  assumes wr: "disk_writing s off rem" and rem: "64 \<le> rem" and p: "length p = 64"
  shows "\<exists>s'. fat_Write ops p 64 s = Some (if rem = 64 then mmcIOEND else mmcIOPEN, [CallDecResidue 64], s')
    \<and> disk_writing s' (off + 64) (rem - 64)
    \<and> (\<forall>i < cap. img (memory s') i =
        (if 3072 \<le> off then overlay (img (memory s)) (off - 3072) (map_chunks8 (dec8 key) p) i
         else img (memory s) i))
    \<and> IO s' = (if off < 2560 then take off (IO s) @ p @ drop (off + 64) (IO s) else IO s)"
proof -
  have at: "fat_at s off rem" and rest: "rest (memory s)"
    and part: "3072 < off + rem \<longrightarrow> ready (memory s) \<and> untouched (off - 3072) (memory s) \<and>
        (\<forall>i < off + rem - 3072. erased (memory s) i)"
    using wr by (auto simp: disk_writing_def)
  then have st: "length (IO s) = 2560" "pt0 s = 4" "pt1 s = 4" "pt2 s = 6" "unat (rwofs s) = off"
      "64 dvd off" "off + rem \<le> 65536"
    by (auto simp: fat_at_def fat_ready_def)
  note tag = fat_tag [OF st(5)]
  have sector: "off + 64 \<le> 2560" if "off < 2560"
    using that st(6) by (auto elim!: dvdE)
  have sector2: "off + 64 \<le> 3072" if "off < 3072"
    using that st(6) by (auto elim!: dvdE)
  show ?thesis
  proof (cases "off < 3072")
    case True
    define io where "io = (if off < 2560 then take off (IO s) @ p @ drop (off + 64) (IO s) else IO s)"
    have "fat_Write ops p 64 s = Some (advance 64 (s\<lparr>IO := io\<rparr>))"
      using st tag sector index_offset [OF st(5)] p True
      by (auto simp: fat_Write_def Let_def systWrite_def indxWrite_def put_bytes_def io_def)
    moreover have "fat_at (s\<lparr>IO := io\<rparr>) off rem"
      using at st(1) p sector by (auto simp: fat_at_def fat_ready_def io_def)
    note adv = fat_at_advance [OF this rem]
    moreover have "disk_writing (snd (snd (advance 64 (s\<lparr>IO := io\<rparr>)))) (off + 64) (rem - 64)"
      unfolding disk_writing_def using adv part rest True sector2 rem by auto
    ultimately show ?thesis using True
      by (intro exI [of _ "snd (snd (advance 64 (s\<lparr>IO := io\<rparr>)))"])
        (auto simp: io_def prod_eq_iff)
  next
    case False
    define o' where "o' = rwofs s - pt2 s * block"
    have ofs: "unat o' = off - 3072"
      unfolding o'_def by (rule file_offset) (use False st in auto)
    have rdy: "ready (memory s)" and unt: "untouched (off - 3072) (memory s)"
      and er: "\<forall>i < off + rem - 3072. erased (memory s) i" using part False rem by auto
    have "even (unat o')" "unat o' + 64 \<le> cap" "\<forall>i. unat o' \<le> i \<and> i < unat o' + 64 \<longrightarrow> blank (memory s) i"
      using ofs st(6,7) False rem cap_disk unt er by (auto simp: untouched_def elim!: dvdE)
    then obtain m' where m': "writeB p o' 64 (memory s) = Some m'" "ready m'" "erased m' = erased (memory s)"
        "\<forall>i < cap. img m' i = overlay (img (memory s)) (off - 3072) (map_chunks8 (dec8 key) p) i"
        "\<forall>i < cap. i < off - 3072 \<or> off - 3072 + 64 \<le> i \<longrightarrow> blank m' i = blank (memory s) i"
      using write_law [OF rdy, of p o'] p unfolding ofs by auto
    have "fat_Write ops p 64 s = Some (advance 64 (s\<lparr>memory := m'\<rparr>))"
      using m'(1) p tag False st by (simp add: fat_Write_def fileWrite_def mk_ops_def Let_def o'_def)
    moreover have "fat_at (s\<lparr>memory := m'\<rparr>) off rem" using at by (simp add: fat_at_def fat_ready_def)
    note adv = fat_at_advance [OF this rem]
    moreover have "disk_writing (snd (snd (advance 64 (s\<lparr>memory := m'\<rparr>)))) (off + 64) (rem - 64)"
      unfolding disk_writing_def
      using adv m'(2,3,5) ready_rest [OF m'(2)] er unt False rem by (auto simp: untouched_def)
    ultimately show ?thesis using False m'(4)
      by (intro exI [of _ "snd (snd (advance 64 (s\<lparr>memory := m'\<rparr>)))"]) (auto simp: prod_eq_iff)
  qed
qed

end

section \<open>The two disks\<close>

definition flash_ops ::
  "'h flash_hw \<Rightarrow> ('h \<Rightarrow> u32 \<Rightarrow> u8) \<Rightarrow> tea_key \<Rightarrow> 'h flash_store image_ops" where
  "flash_ops hw cells key = mk_ops (flash_eraseBlocks hw) (flash_writeBytes hw 0x08004000 key)
     (flash_readBytes cells 0x08004000 key)"

definition ram_ops :: "tea_key \<Rightarrow> mem image_ops" where
  "ram_ops key = mk_ops ram_eraseBlocks (ram_writeBytes key) (ram_readBytes key)"

interpretation flash_disk: disk_writer "flash_eraseBlocks hw" "flash_writeBytes hw 0x08004000 key"
  "flash_readBytes cells 0x08004000 key" key "flash_img cells" "\<lambda>s i. flash_img cells s i = 0xFF"
  flash_erased flash_cap "flash_rest hw idle cells" "flash_ready hw idle cells"
  by unfold_locales (simp add: flash_cap_def)

interpretation ram_disk: disk_writer ram_eraseBlocks "ram_writeBytes key" "ram_readBytes key" key nth
  "\<lambda>_ _. True" "\<lambda>_ _. True" ram_cap "\<lambda>m. length m = ram_cap" "\<lambda>m. length m = ram_cap"
  by unfold_locales (simp add: ram_cap_def)

context disk_writer
begin

lemma disk_storage:
  "storage_provider (fat12_storage ops image_size) disk_inv 128 (fat_packet key img image_size)
     disk_reading disk_writing disk_writable"
proof
  fix s assume "disk_inv s"
  then show "unat (GetCapacity (fat12_storage ops image_size) s) = 128"
    by (simp add: fat12_storage_def fat_GetCapacity_def disk_inv_def fat_ready_def)
next
  fix s and m n :: u32
  assume "disk_inv s" "unat m + unat n \<le> 128"
  from disk_CmdRead [OF this]
  show "\<exists>s'. CmdRead (fat12_storage ops image_size) m n s = Some ([], s') \<and>
      disk_reading s' (512 * unat m) (512 * unat n) \<and>
      fat_packet key img image_size s' = fat_packet key img image_size s"
    by (auto simp: fat12_storage_def fat_CmdRead_def fat_packet_def fun_eq_iff)
next
  fix s off rem assume "disk_reading s off rem" "64 \<le> rem"
  from disk_read [OF this, of image_size]
  show "\<exists>s'. Read (fat12_storage ops image_size) 64 s = Some (if rem = 64 then mmcIOEND else mmcIOPEN,
        fat_packet key img image_size s off, [CallDecResidue 64], s') \<and> disk_reading s' (off + 64) (rem - 64) \<and>
      fat_packet key img image_size s' = fat_packet key img image_size s \<and>
      length (fat_packet key img image_size s off) = 64"
    by (fastforce simp: fat12_storage_def fat_packet_def [abs_def])
next
  fix s and m n :: u32
  assume "disk_inv s" "0 < unat n" "unat m + unat n \<le> 128" "disk_writable s (unat m) (unat n)"
  from disk_CmdWrite [OF this]
  show "\<exists>s'. CmdWrite (fat12_storage ops image_size) m n s = Some ([], s') \<and>
      disk_writing s' (512 * unat m) (512 * unat n)"
    by (auto simp: fat12_storage_def)
next
  fix s off rem and p :: mem assume "disk_writing s off rem" "64 \<le> rem" "length p = 64"
  from disk_write [OF this]
  show "\<exists>s'. Write (fat12_storage ops image_size) p 64 s =
        Some (if rem = 64 then mmcIOEND else mmcIOPEN, [CallDecResidue 64], s') \<and>
      disk_writing s' (off + 64) (rem - 64)"
    by (auto simp: fat12_storage_def)
qed (auto simp: disk_reading_def disk_writing_def disk_inv_def fat_at_def)

lemma disk_write_all:
  assumes "disk_writing s off (64 * length ps)" and "\<forall>p \<in> set ps. length p = 64" and "3072 \<le> off"
  shows "\<exists>s'. write_all (fat12_storage ops image_size) ps s =
      Some (replicate (length ps - 1) mmcIOPEN @ (if ps = [] then [] else [mmcIOEND]), s')
    \<and> disk_writing s' (off + 64 * length ps) 0 \<and> IO s' = IO s
    \<and> (\<forall>i < cap. img (memory s') i =
        overlay (img (memory s)) (off - 3072) (map_chunks8 (dec8 key) (concat ps)) i)"
  using assms
proof (induction ps arbitrary: s off)
  case Nil
  then show ?case by (auto simp: overlay_def)
next
  case (Cons p ps)
  let ?st = "fat12_storage ops image_size"
  have p: "length p = 64" using Cons.prems(2) by simp
  have rem: "64 * length (p # ps) - 64 = 64 * length ps" "64 \<le> 64 * length (p # ps)"
    "(64 * length (p # ps) = 64) = (ps = [])" by auto
  obtain s1 where s1: "fat_Write ops p 64 s = Some (if ps = [] then mmcIOEND else mmcIOPEN, [CallDecResidue 64], s1)"
      "disk_writing s1 (off + 64) (64 * length ps)" "IO s1 = IO s"
      "\<forall>i < cap. img (memory s1) i = overlay (img (memory s)) (off - 3072) (map_chunks8 (dec8 key) p) i"
    using disk_write [OF Cons.prems(1) rem(2) p] Cons.prems(3) unfolding rem by auto
  obtain s2 where s2: "write_all ?st ps s1 =
        Some (replicate (length ps - 1) mmcIOPEN @ (if ps = [] then [] else [mmcIOEND]), s2)"
      "disk_writing s2 (off + 64 + 64 * length ps) 0" "IO s2 = IO s1"
      "\<forall>i < cap. img (memory s2) i =
        overlay (img (memory s1)) (off + 64 - 3072) (map_chunks8 (dec8 key) (concat ps)) i"
    using Cons.IH [OF s1(2)] Cons.prems(2,3) by auto
  have "write_all ?st (p # ps) s =
      Some (replicate (length (p # ps) - 1) mmcIOPEN @ (if p # ps = [] then [] else [mmcIOEND]), s2)"
    using s1(1) s2(1) p by (cases ps) (simp_all add: fat12_storage_def)
  moreover have "img (memory s2) i =
      overlay (img (memory s)) (off - 3072) (map_chunks8 (dec8 key) (concat (p # ps))) i" if "i < cap" for i
  proof -
    have len: "length (map_chunks8 (dec8 key) p) = 64" using tea.length_ecb_dec [of p key] p by simp
    have "img (memory s2) i = overlay (overlay (img (memory s)) (off - 3072) (map_chunks8 (dec8 key) p))
        (off - 3072 + length (map_chunks8 (dec8 key) p)) (map_chunks8 (dec8 key) (concat ps)) i"
      using s2(4) s1(4) that Cons.prems(3) by (simp add: overlay_def len)
    then show ?thesis using p by (simp add: overlay_append map_chunks8_append)
  qed
  ultimately show ?case using s2(2,3) s1(3) by (auto simp: add.assoc)
qed

text \<open>Several commands for consecutive blocks of the file.\<close>

lemma disk_write_commands:
  assumes "disk_inv s" and "untouched (512 * unat lba - 3072) (memory s)" and "6 \<le> unat lba"
    and "\<forall>ps \<in> set pss. ps \<noteq> [] \<and> 8 dvd length ps \<and> (\<forall>p \<in> set ps. length p = 64)"
    and "512 * unat lba + length (concat (concat pss)) \<le> 65536"
  shows "\<exists>s'. write_commands (fat12_storage ops image_size) lba pss s = Some s' \<and> disk_inv s' \<and> IO s' = IO s
    \<and> (\<forall>i < length (concat (concat pss)). img (memory s') (512 * unat lba - 3072 + i) =
        map_chunks8 (dec8 key) (concat (concat pss)) ! i)
    \<and> (\<forall>i < 512 * unat lba - 3072. erased (memory s) i \<longrightarrow> img (memory s') i = img (memory s) i)"
  using assms
proof (induction pss arbitrary: s lba)
  case Nil
  then show ?case by simp
next
  case (Cons ps pss)
  let ?st = "fat12_storage ops image_size" and ?n = "of_nat (length ps div 8) :: u32"
  let ?b = "512 * unat lba - 3072" and ?bytes = "concat (concat pss)"
  define k where "k = length ps div 8"
  have ps: "ps \<noteq> []" "length ps = 8 * k" "\<forall>p \<in> set ps. length p = 64"
    using Cons.prems(4) by (auto simp: k_def)
  have "0 < k" using ps(1,2) by (cases k) auto
  note ps = ps this
  have cps: "length (concat ps) = 512 * k" using ps(2,3) by (simp add: length_concat sum_list_triv cong: map_cong)
  have bound: "512 * unat lba + 512 * k + length ?bytes \<le> 65536"
    using Cons.prems(5) cps by simp
  have n: "unat ?n = k" unfolding k_def [symmetric] by (rule unat_len) (use bound in linarith)
  have lba: "unat (lba + ?n) = unat lba + k" using bound by (simp add: unat_word_ariths n)
  have m: "0 < unat ?n" "unat lba + unat ?n \<le> 128" using n ps(4) bound by simp_all
  obtain s1 where s1: "fat_CmdWrite ops lba ?n s = Some s1" "disk_writing s1 (512 * unat lba) (512 * unat ?n)"
      "\<forall>i < cap. erased (memory s) i \<longrightarrow> erased (memory s1) i \<and> img (memory s1) i = img (memory s) i"
    using disk_CmdWrite [OF Cons.prems(1) m] Cons.prems(2) by (auto simp: disk_writable_def)
  have w: "disk_writing s1 (512 * unat lba) (64 * length ps)" using s1(2) n ps(2) by simp
  have io1: "IO s1 = IO s" using s1(1) by (auto simp: fat_CmdWrite_def Let_def split: if_splits)
  obtain s2 rs where s2: "write_all ?st ps s1 = Some (rs, s2)" "disk_writing s2 (512 * unat lba + 512 * k) 0"
      "IO s2 = IO s1" "\<forall>i < cap. img (memory s2) i = overlay (img (memory s1)) ?b (map_chunks8 (dec8 key) (concat ps)) i"
    using disk_write_all [OF w ps(3), of image_size] Cons.prems(3) ps(2) by (auto simp: mult.commute)
  have after: "disk_inv s2" "untouched (512 * unat (lba + ?n) - 3072) (memory s2)"
      "\<forall>i < ?b + 512 * k. erased (memory s2) i"
    using s2(2) Cons.prems(3) ps(4) by (auto simp: disk_writing_def disk_inv_def fat_at_def lba)
  have IHp: "6 \<le> unat (lba + ?n)" "512 * unat (lba + ?n) + length ?bytes \<le> 65536"
    "\<forall>ps \<in> set pss. ps \<noteq> [] \<and> 8 dvd length ps \<and> (\<forall>p \<in> set ps. length p = 64)"
    using Cons.prems(3,4) bound lba by auto
  obtain s3 where s3: "write_commands ?st (lba + ?n) pss s2 = Some s3" "disk_inv s3" "IO s3 = IO s2"
      "\<forall>i < length ?bytes. img (memory s3) (?b + 512 * k + i) = map_chunks8 (dec8 key) ?bytes ! i"
      "\<forall>i < ?b + 512 * k. erased (memory s2) i \<longrightarrow> img (memory s3) i = img (memory s2) i"
    using Cons.IH [OF after(1,2) IHp(1,3,2)] Cons.prems(3) by (auto simp: lba add_mult_distrib2 add.commute)
  have run: "write_commands ?st lba (ps # pss) s = Some s3"
    using s1(1) s2(1) s3(1) by (simp add: fat12_storage_def Let_def)
  have len: "length (map_chunks8 (dec8 key) (concat ps)) = 512 * k"
    using tea.length_ecb_dec [of "concat ps" key] cps by simp
  have img: "img (memory s3) (?b + i) = map_chunks8 (dec8 key) (concat (concat (ps # pss))) ! i"
    if i: "i < length (concat (concat (ps # pss)))" for i
  proof (cases "i < 512 * k")
    case True
    then have "?b + i < cap" using bound cap_disk Cons.prems(3) by linarith
    then have "img (memory s3) (?b + i) = map_chunks8 (dec8 key) (concat ps) ! i"
      using s3(5) after(3) s2(4) True len by (simp add: overlay_def)
    with True len cps show ?thesis by (simp add: map_chunks8_append nth_append)
  next
    case False
    then have "img (memory s3) (?b + i) = map_chunks8 (dec8 key) ?bytes ! (i - 512 * k)"
      using s3(4) [rule_format, of "i - 512 * k"] i cps by simp
    with False len cps show ?thesis by (simp add: map_chunks8_append nth_append)
  qed
  have keep: "img (memory s3) i = img (memory s) i" if "i < ?b" "erased (memory s) i" for i
    using that s3(5) after(3) s2(4) s1(3) bound cap_disk by (simp add: overlay_def)
  show ?case using run s3(2,3) s2(3) io1 img keep by auto
qed

end

interpretation flash_storage: storage_provider "fat12_storage (flash_ops hw cells key) image_size"
  "flash_disk.disk_inv hw idle cells" 128 "fat_packet key (flash_img cells) image_size"
  "flash_disk.disk_reading hw idle cells" "flash_disk.disk_writing cells hw idle"
  "\<lambda>s m n. flash_disk.disk_writable cells s m n"
  unfolding flash_ops_def by (rule flash_disk.disk_storage)

interpretation ram_storage: storage_provider "fat12_storage (ram_ops key) image_size"
  ram_disk.disk_inv 128 "fat_packet key nth image_size"
  ram_disk.disk_reading ram_disk.disk_writing "\<lambda>s m n. ram_disk.disk_writable s m n"
  unfolding ram_ops_def by (rule ram_disk.disk_storage)

interpretation flash_usb: sequential_storage "fat12_storage (flash_ops hw cells key) image_size"
  "flash_disk.disk_inv hw idle cells" 128 "fat_packet key (flash_img cells) image_size"
  "flash_disk.disk_reading hw idle cells" "flash_disk.disk_writing cells hw idle"
  "\<lambda>s m n. flash_disk.disk_writable cells s m n" 6
  by unfold_locales (simp add: flash_disk.disk_writing_def flash_disk.disk_writable_def)

interpretation ram_usb: sequential_storage "fat12_storage (ram_ops key) image_size"
  ram_disk.disk_inv 128 "fat_packet key nth image_size"
  ram_disk.disk_reading ram_disk.disk_writing "\<lambda>s m n. ram_disk.disk_writable s m n" 6
  by unfold_locales (simp add: ram_disk.disk_writing_def ram_disk.disk_writable_def)

section \<open>Properties\<close>

text \<open>
  C11: \<open>Prepare\<close> builds a well-formed volume from any content of the buffer, with the landmarks 4, 4 and 6:
  the boot sector with its signature, the allocation table with the chain of the file, the directory entries
  with their sizes, and the page with the server key in place of each percent sign.
\<close>

theorem prepared_volume:
  assumes "length (IO s) = 2560" and "length key = 4" and "length (page key index_ctxt) \<le> 512"
  shows "\<exists>io. Prepare index_ctxt key s =
      Some (s\<lparr>IO := io, pt0 := 4, pt1 := 4, pt2 := 6, full_size := 62464\<rparr>) \<and> volume index_ctxt key io"
  using assms by (rule Prepare_steps)

theorem prepared_volume_witness:
  "\<exists>io. Prepare [0x41, 0x25, 0x42] [1, 2, 3, 4] (Fat12Emul ()) =
      Some ((Fat12Emul ())\<lparr>IO := io, pt0 := 4, pt1 := 4, pt2 := 6, full_size := 62464\<rparr>)
    \<and> volume [0x41, 0x25, 0x42] [1, 2, 3, 4] io"
  by (rule prepared_volume) (simp_all add: Fat12Emul_def page_def)

text \<open>Following the chain of clusters from an entry, for at most \<open>fuel\<close> steps.\<close>

fun fat_chain :: "nat \<Rightarrow> mem \<Rightarrow> nat \<Rightarrow> nat list" where
  "fat_chain 0 io c = []"
| "fat_chain (Suc fuel) io c =
     (let next = read_fat_entry_n io fat_base c
      in if next \<ge> 0xFF8 then [c] else c # fat_chain fuel io (unat next))"

text \<open>The first sector of a cluster of the volume.\<close>

definition cluster_sector :: "nat \<Rightarrow> nat" where
  "cluster_sector c = 4 + 2 * (c - 2)"

lemma fat_chain_file:
  assumes "volume index_ctxt key io"
  shows "c + n = 64 \<Longrightarrow> 3 \<le> c \<Longrightarrow> c < 64 \<Longrightarrow> n \<le> fuel \<Longrightarrow> fat_chain fuel io c = [c..<64]"
proof (induction fuel arbitrary: c n)
  case 0
  then show ?case by simp
next
  case (Suc fuel)
  have entry: "read_fat_entry_n io fat_base c = fat_spec 61 c"
    using assms Suc.prems(3) by (simp add: volume_def)
  show ?case
  proof (cases "c = 63")
    case True
    then show ?thesis using entry by (simp add: fat_spec_def)
  next
    case False
    have next_entry: "unat (of_nat (c + 1) :: u16) = c + 1"
      using Suc.prems(3) by (simp only: unat_of_nat) simp
    then have small: "\<not> (0xFF8 :: u16) \<le> of_nat (c + 1)"
      using Suc.prems(3) by (simp only: word_le_nat_alt) simp
    have spec: "fat_spec 61 c = of_nat (c + 1)" using Suc.prems False by (simp add: fat_spec_def)
    have "fat_chain (Suc fuel) io c = c # fat_chain fuel io (c + 1)"
      unfolding fat_chain.simps(2) Let_def entry spec next_entry using small by (simp only: if_False)
    also have "fat_chain fuel io (c + 1) = [c + 1..<64]"
      using Suc.IH [of "c + 1" "n - 1"] Suc.prems False by simp
    finally show ?thesis using Suc.prems(3) by (simp add: upt_conv_Cons)
  qed
qed



text \<open>
  The two packed entries of a triple of bytes do not disturb each other: after a store, the entry reads
  as the stored value (12 bits of it), every other entry of the table is as it was, and no byte
  outside of the triple has changed.
\<close>

theorem fat_entry_update:
  assumes "write_fat_entry_n base n t io = Some io'"
  shows "read_fat_entry_n io' base k = (if k = n then t AND 0xFFF else read_fat_entry_n io base k)
    \<and> length io' = length io
    \<and> (\<forall>j. j < base + 3 * (n div 2) \<or> base + 3 * (n div 2) + 3 \<le> j \<longrightarrow> io' ! j = io ! j)"
  using read_write_fat_entry [OF assms] by blast

theorem fat_entry_update_witness:
  "read_fat_entry_n [1, 0x52, 0x34] 0 0 = 0x201 \<and> read_fat_entry_n [1, 0x52, 0x34] 0 1 = 0x345"
proof -
  have "write_fat_entry_n 0 1 0xF345 [1, 2, 3] = Some [1, 0x52, 0x34]"
    by (simp add: write_fat_entry_n_def push_bit_eq_mult drop_bit_eq_div)
  from fat_entry_update [OF this, of 0] fat_entry_update [OF this, of 1]
  show ?thesis by (simp add: read_fat_entry_n_def push_bit_eq_mult)
qed

text \<open>
  The block address of a command is not compared with the capacity of 128 blocks, and its byte offset
  wraps at 32 bits: block \<open>m + 2 ^ 23\<close> is block \<open>m\<close>, so a command for a block far behind the end
  of the disk reads or overwrites the boot sector.
\<close>

theorem block_address_wraps:
  "fat_CmdRead (m + 0x800000) n s = fat_CmdRead m n s
   \<and> map_option rwofs (fat_CmdWrite ops (m + 0x800000) n s) =
       map_option (\<lambda>_. m * block) (fat_CmdWrite ops (m + 0x800000) n s)"
proof -
  have zero: "(0x800000 :: u32) * block = 0" by (simp add: block_def)
  then have "(m + 0x800000) * block = m * block" by (simp only: distrib_right) simp
  then show ?thesis
    by (auto simp: fat_CmdRead_def fat_CmdWrite_def Let_def option.map_comp comp_def)
qed

end
