(* ===== verification/Msc.thy ===== *)
theory Msc
  imports Storage
begin

unbundle bit_operations_syntax

text \<open>
  The mass storage class \<open>src/usb/class/msclass.cpp\<close>: bulk-only transport and the SCSI commands.
  The endpoint and the device are outside of the class; what it sends to them (packets, stalls) is
  the list \<open>out\<close> of events of the state, in order.  The disk behind it is a parameter, a
  \<open>storage\<close> of the theory \<open>Storage\<close>.  An operation returns \<open>None\<close> when the code writes outside of an
  object.
\<close>

section \<open>Data\<close>

datatype MSC_BulkStages =
    MSC_BS_CBW | MSC_BS_DATA_OUT | MSC_BS_DATA_IN | MSC_BS_DATA_IN_LAST | MSC_BS_DATA_IN_LAST_STALL
  | MSC_BS_CSW | MSC_BS_ERROR

datatype UsbEndpointDir = EndpointOut | EndpointIn

datatype msc_event =
    EpWrite mem
  | EpSetStall UsbEndpointDir
  | DevSetStallMask u32
  | DevSetStallHaltMask u32
  | DevClrStallMask u32

text \<open>The command block wrapper is kept as its 31 bytes; these are its members.\<close>

definition sizeof_CBW :: nat where "sizeof_CBW = 31"

definition dSignature :: "mem \<Rightarrow> u32" where "dSignature c = le32 (c ! 0) (c ! 1) (c ! 2) (c ! 3)"
definition dTag :: "mem \<Rightarrow> u32" where "dTag c = le32 (c ! 4) (c ! 5) (c ! 6) (c ! 7)"
definition dDataLength :: "mem \<Rightarrow> u32" where "dDataLength c = le32 (c ! 8) (c ! 9) (c ! 10) (c ! 11)"
definition bmFlags :: "mem \<Rightarrow> u8" where "bmFlags c = c ! 12"
definition bLUN :: "mem \<Rightarrow> u8" where "bLUN c = c ! 13"
definition bCBLength :: "mem \<Rightarrow> u8" where "bCBLength c = c ! 14"
definition CB :: "mem \<Rightarrow> nat \<Rightarrow> u8" where "CB c i = c ! (15 + i)"

record MSC_CSW =
  csw_dSignature :: u32
  csw_dTag :: u32
  csw_dDataResidue :: u32
  csw_bStatus :: u8

definition CSW_bytes :: "MSC_CSW \<Rightarrow> mem" where
  "CSW_bytes c = bytes32 (csw_dSignature c) @ bytes32 (csw_dTag c) @ bytes32 (csw_dDataResidue c)
     @ [csw_bStatus c]"

definition MSC_CBW_Signature :: u32 where "MSC_CBW_Signature = 0x43425355"
definition MSC_CSW_Signature :: u32 where "MSC_CSW_Signature = 0x53425355"

definition CSW_CMD_PASSED :: u8 where "CSW_CMD_PASSED = 0x00"
definition CSW_CMD_FAILED :: u8 where "CSW_CMD_FAILED = 0x01"
definition CSW_PHASE_ERROR :: u8 where "CSW_PHASE_ERROR = 0x02"

definition MSC_MAX_PACKET :: u32 where "MSC_MAX_PACKET = 64"
definition MSC_BlockSize :: u32 where "MSC_BlockSize = 512"

definition SS_NO_SENSE :: u32 where "SS_NO_SENSE = 0x000000"
definition SS_INVALID_FIELD_IN_CDB :: u32 where "SS_INVALID_FIELD_IN_CDB = 0x052400"
definition SS_LOGICAL_BLOCK_ADDRESS_OUT_OF_RANGE :: u32 where
  "SS_LOGICAL_BLOCK_ADDRESS_OUT_OF_RANGE = 0x052100"
definition SS_LOGICAL_UNIT_NOT_SUPPORTED :: u32 where "SS_LOGICAL_UNIT_NOT_SUPPORTED = 0x052500"
definition SS_RESET_OCCURRED :: u32 where "SS_RESET_OCCURRED = 0x062900"

definition SK :: "u32 \<Rightarrow> u8" where "SK x = ucast (drop_bit 16 x)"
definition ASC :: "u32 \<Rightarrow> u8" where "ASC x = ucast (drop_bit 8 x)"
definition ASCQ :: "u32 \<Rightarrow> u8" where "ASCQ x = ucast x"

datatype SCSI_Commands =
    SCSI_TEST_UNIT_READY | SCSI_REQUEST_SENSE | SCSI_FORMAT_UNIT | SCSI_INQUIRY | SCSI_MODE_SELECT6
  | SCSI_MODE_SENSE6 | SCSI_START_STOP_UNIT | SCSI_MEDIA_REMOVAL | SCSI_READ_FORMAT_CAPACITIES
  | SCSI_READ_CAPACITY | SCSI_READ10 | SCSI_WRITE10 | SCSI_VERIFY10 | SCSI_READ12 | SCSI_WRITE12
  | SCSI_MODE_SELECT10 | SCSI_MODE_SENSE10 | SCSI_other u8

text \<open>The values of the enumeration; every other byte is a command the parser does not know.\<close>

definition SCSI_of :: "u8 \<Rightarrow> SCSI_Commands" where
  "SCSI_of b =
     (if b = 0x00 then SCSI_TEST_UNIT_READY else if b = 0x03 then SCSI_REQUEST_SENSE
      else if b = 0x04 then SCSI_FORMAT_UNIT else if b = 0x12 then SCSI_INQUIRY
      else if b = 0x15 then SCSI_MODE_SELECT6 else if b = 0x1A then SCSI_MODE_SENSE6
      else if b = 0x1B then SCSI_START_STOP_UNIT else if b = 0x1E then SCSI_MEDIA_REMOVAL
      else if b = 0x23 then SCSI_READ_FORMAT_CAPACITIES else if b = 0x25 then SCSI_READ_CAPACITY
      else if b = 0x28 then SCSI_READ10 else if b = 0x2A then SCSI_WRITE10
      else if b = 0x2F then SCSI_VERIFY10 else if b = 0xA8 then SCSI_READ12
      else if b = 0xAA then SCSI_WRITE12 else if b = 0x55 then SCSI_MODE_SELECT10
      else if b = 0x5A then SCSI_MODE_SENSE10 else SCSI_other b)"

record MSC_SenseData =
  sense_data :: u32
  sense_info :: u32
  sense_valid :: u8

record 's msc =
  BulkStage :: MSC_BulkStages
  BulkBuf :: mem
  BulkLen :: u8
  CBW :: mem
  CSW :: MSC_CSW
  SenseData :: MSC_SenseData
  MemOK :: bool
  ReadOnly :: bool
  mmc :: 's
  ep_addr :: u8
  out :: "msc_event list"

definition MsClass :: "u8 \<Rightarrow> 's \<Rightarrow> 's msc" where
  "MsClass addr st = \<lparr> BulkStage = MSC_BS_CBW, BulkBuf = replicate 64 0, BulkLen = 0,
     CBW = replicate 31 0, CSW = \<lparr> csw_dSignature = 0, csw_dTag = 0, csw_dDataResidue = 0, csw_bStatus = 0 \<rparr>,
     SenseData = \<lparr> sense_data = SS_RESET_OCCURRED, sense_info = 0, sense_valid = 0 \<rparr>,
     MemOK = False, ReadOnly = False, mmc = st, ep_addr = addr, out = [] \<rparr>"

section \<open>Helpers\<close>

definition emit :: "msc_event \<Rightarrow> 's msc \<Rightarrow> 's msc" where
  "emit e s = s\<lparr>out := out s @ [e]\<rparr>"

definition set_status :: "u8 \<Rightarrow> 's msc \<Rightarrow> 's msc" where
  "set_status v s = s\<lparr>CSW := (CSW s)\<lparr>csw_bStatus := v\<rparr>\<rparr>"

definition DecResidue :: "u32 \<Rightarrow> 's msc \<Rightarrow> 's msc" where
  "DecResidue n s =
     (if sense_data (SenseData s) = SS_NO_SENSE
      then s\<lparr>CSW := (CSW s)\<lparr>csw_dDataResidue := csw_dDataResidue (CSW s) - n\<rparr>\<rparr> else s)"

definition SetSenseData :: "u32 \<Rightarrow> u32 \<Rightarrow> u8 \<Rightarrow> 's msc \<Rightarrow> 's msc" where
  "SetSenseData t i v s = s\<lparr>SenseData := \<lparr> sense_data = t, sense_info = i,
     sense_valid = (if v \<noteq> 0 then 0x80 else 0x00) \<rparr>\<rparr>"

text \<open>The calls a disk operation has made to its parent, executed in their order.\<close>

definition run_call :: "parent_call \<Rightarrow> 's msc \<Rightarrow> 's msc" where
  "run_call c s = (case c of CallDecResidue n \<Rightarrow> DecResidue n s | CallSetSenseData t i v \<Rightarrow> SetSenseData t i v s)"

definition run_calls :: "parent_call list \<Rightarrow> 's msc \<Rightarrow> 's msc" where
  "run_calls cs s = fold run_call cs s"

definition EPNum :: "'s msc \<Rightarrow> nat" where
  "EPNum s = unat (ep_addr s OR 0x0F)"

definition stall_mask :: "UsbEndpointDir \<Rightarrow> 's msc \<Rightarrow> u32" where
  "stall_mask dir s =
     (if dir = EndpointIn then push_bit (EPNum s) (push_bit 16 1) else push_bit (EPNum s) 1)"

definition MSC_SetStallEP :: "UsbEndpointDir \<Rightarrow> 's msc \<Rightarrow> 's msc" where
  "MSC_SetStallEP dir s = emit (DevSetStallMask (stall_mask dir s)) (emit (EpSetStall dir) s)"

definition MSC_SetStallEPStall :: "UsbEndpointDir \<Rightarrow> 's msc \<Rightarrow> 's msc" where
  "MSC_SetStallEPStall dir s = emit (DevSetStallHaltMask (stall_mask dir s)) (emit (EpSetStall dir) s)"

definition MSC_SetCSW :: "'s msc \<Rightarrow> 's msc" where
  "MSC_SetCSW s =
     (let s = s\<lparr>CSW := (CSW s)\<lparr>csw_dSignature := MSC_CSW_Signature\<rparr>\<rparr>;
          s = emit (EpWrite (CSW_bytes (CSW s))) s
      in s\<lparr>BulkStage := MSC_BS_CSW\<rparr>)"

definition MSC_RewriteCSW :: "'s msc \<Rightarrow> 's msc" where
  "MSC_RewriteCSW s =
     (if csw_dSignature (CSW s) = MSC_CSW_Signature then emit (EpWrite (CSW_bytes (CSW s))) s else s)"

section \<open>Commands that return data of the class itself\<close>

definition buf_put :: "nat \<Rightarrow> mem \<Rightarrow> 's msc \<Rightarrow> 's msc" where
  "buf_put off bs s =
     s\<lparr>BulkBuf := take off (BulkBuf s) @ bs @ drop (off + length bs) (BulkBuf s)\<rparr>"

definition be32 :: "u32 \<Rightarrow> mem" where
  "be32 w = [byte_of 3 w, byte_of 2 w, byte_of 1 w, byte_of 0 w]"

definition DataInFormat :: "'s msc \<Rightarrow> bool \<times> 's msc" where
  "DataInFormat s =
     (if dDataLength (CBW s) = 0 then (False, MSC_SetCSW (set_status CSW_PHASE_ERROR s))
      else if bmFlags (CBW s) AND 0x80 = 0 then
        (False, MSC_SetCSW (set_status CSW_PHASE_ERROR (MSC_SetStallEP EndpointOut s)))
      else (True, s))"

definition DataInTransfer :: "'s msc \<Rightarrow> 's msc" where
  "DataInTransfer s =
     (let s = (if ucast (BulkLen s) \<ge> dDataLength (CBW s) then s\<lparr>BulkLen := ucast (dDataLength (CBW s))\<rparr> else s);
          s = s\<lparr>BulkStage := MSC_BS_DATA_IN_LAST\<rparr>;
          s = emit (EpWrite (take (unat (BulkLen s)) (BulkBuf s))) s;
          s = s\<lparr>CSW := (CSW s)\<lparr>csw_dDataResidue := csw_dDataResidue (CSW s) - ucast (BulkLen s)\<rparr>\<rparr>
      in set_status CSW_CMD_PASSED s)"

definition inquiry_hdr :: mem where
  "inquiry_hdr = [0, 0x80, 0, 0x01, 36 - 4, 0x80, 0, 0]"

text \<open>``Mrazik. SDHC Card on USB 1.0''\<close>

definition inquiry_name :: mem where
  "inquiry_name = [0x4D, 0x72, 0x61, 0x7A, 0x69, 0x6B, 0x2E, 0x20, 0x53, 0x44, 0x48, 0x43, 0x20, 0x43,
     0x61, 0x72, 0x64, 0x20, 0x6F, 0x6E, 0x20, 0x55, 0x53, 0x42, 0x20, 0x31, 0x2E, 0x30]"

definition MSC_Inquiry :: "'s msc \<Rightarrow> 's msc" where
  "MSC_Inquiry s =
     (let (ok, s) = DataInFormat s in
      if \<not> ok then s else
      let s = buf_put 0 inquiry_hdr s; i = 8;
          s = buf_put i inquiry_name s; i = i + 28;
          s = buf_put 4 [of_nat (i - 4)] s;
          s = s\<lparr>BulkLen := of_nat i\<rparr>
      in DataInTransfer s)"

definition MSC_ModeSense10 :: "'s msc \<Rightarrow> 's msc" where
  "MSC_ModeSense10 s =
     (let (ok, s) = DataInFormat s in
      if \<not> ok then s else
      DataInTransfer ((buf_put 0 [0, 0x6, 0, 0, 0, 0, 0, 0] s)\<lparr>BulkLen := 8\<rparr>))"

definition MSC_ModeSense6 :: "'s msc \<Rightarrow> 's msc" where
  "MSC_ModeSense6 s =
     (let (ok, s) = DataInFormat s in
      if \<not> ok then s else
      let (ok, s) = DataInFormat s in
      if \<not> ok then s else
      let s = buf_put 0 [0x03, 0, 0, 0] s;
          s = (if ReadOnly s then buf_put 2 [0x80] s else s)
      in DataInTransfer (s\<lparr>BulkLen := 4\<rparr>))"

definition MSC_ReadCapacity :: "'s storage \<Rightarrow> 's msc \<Rightarrow> 's msc" where
  "MSC_ReadCapacity st s =
     (let (ok, s) = DataInFormat s in
      if \<not> ok then s else
      let s = buf_put 0 (be32 (GetCapacity st (mmc s) - 1)) s;
          s = buf_put 4 (be32 MSC_BlockSize) s
      in DataInTransfer (s\<lparr>BulkLen := 8\<rparr>))"

definition MSC_ReadFormatCapacity :: "'s storage \<Rightarrow> 's msc \<Rightarrow> 's msc" where
  "MSC_ReadFormatCapacity st s =
     (let (ok, s) = DataInFormat s in
      if \<not> ok then s else
      let s = buf_put 0 [0x00, 0x00, 0x00, 0x08] s;
          s = buf_put 4 (be32 (GetCapacity st (mmc s))) s;
          s = buf_put 8 [0x02, ucast (drop_bit 16 MSC_BlockSize), ucast (drop_bit 8 MSC_BlockSize),
                         ucast MSC_BlockSize] s
      in DataInTransfer (s\<lparr>BulkLen := 12\<rparr>))"

definition MSC_RequestSense :: "'s msc \<Rightarrow> 's msc" where
  "MSC_RequestSense s =
     (let (ok, s) = DataInFormat s in
      if \<not> ok then s else
      let sd = SenseData s;
          s = buf_put 0 (replicate 18 0) s;
          s = buf_put 0 [sense_valid sd OR 0x70] s;
          s = buf_put 2 [SK (sense_data sd), byte_of 3 (sense_info sd), byte_of 2 (sense_info sd),
                         byte_of 1 (sense_info sd), byte_of 0 (sense_info sd), 18 - 8] s;
          s = buf_put 12 [ASC (sense_data sd), ASCQ (sense_data sd)] s;
          s = SetSenseData SS_NO_SENSE 0 0 s
      in DataInTransfer (s\<lparr>BulkLen := 18\<rparr>))"

definition stall_by_direction :: "'s msc \<Rightarrow> 's msc" where
  "stall_by_direction s =
     (if bmFlags (CBW s) AND 0x80 \<noteq> 0 then MSC_SetStallEP EndpointIn s else MSC_SetStallEP EndpointOut s)"

definition MSC_TestUnitReady :: "'s msc \<Rightarrow> 's msc" where
  "MSC_TestUnitReady s =
     (let s = (if dDataLength (CBW s) \<noteq> 0 then stall_by_direction s else s);
          s = (if sense_data (SenseData s) = SS_RESET_OCCURRED then set_status CSW_CMD_FAILED s
               else set_status CSW_CMD_PASSED s)
      in MSC_SetCSW s)"

section \<open>Reading, writing and verifying blocks\<close>

text \<open>The block address, and the number of blocks of the commands with ten and with twelve bytes.\<close>

definition cb_address :: "mem \<Rightarrow> u32" where
  "cb_address c = push_bit 24 (ucast (CB c 2)) OR push_bit 16 (ucast (CB c 3))
     OR push_bit 8 (ucast (CB c 4)) OR ucast (CB c 5)"

definition cb_count10 :: "mem \<Rightarrow> u32" where
  "cb_count10 c = push_bit 8 (ucast (CB c 7)) OR ucast (CB c 8)"

definition cb_count12 :: "mem \<Rightarrow> u32" where
  "cb_count12 c = push_bit 24 (ucast (CB c 6)) OR push_bit 16 (ucast (CB c 7))
     OR push_bit 8 (ucast (CB c 8)) OR ucast (CB c 9)"

definition read_count :: "mem \<Rightarrow> u32" where
  "read_count c = (case SCSI_of (CB c 0) of
       SCSI_READ10 \<Rightarrow> cb_count10 c | SCSI_VERIFY10 \<Rightarrow> cb_count10 c | SCSI_READ12 \<Rightarrow> cb_count12 c | _ \<Rightarrow> 0)"

definition write_count :: "mem \<Rightarrow> u32" where
  "write_count c = (case SCSI_of (CB c 0) of
       SCSI_WRITE10 \<Rightarrow> cb_count10 c | SCSI_WRITE12 \<Rightarrow> cb_count12 c | _ \<Rightarrow> 0)"

definition MSC_ReadSetup :: "'s storage \<Rightarrow> 's msc \<Rightarrow> (bool \<times> 's msc) option" where
  "MSC_ReadSetup st s =
     (let m = cb_address (CBW s); n = read_count (CBW s) in
      if dDataLength (CBW s) = 0 then Some (False, MSC_SetCSW (set_status CSW_CMD_FAILED s))
      else if dDataLength (CBW s) \<noteq> n * MSC_BlockSize then
        Some (False, MSC_SetCSW (set_status CSW_CMD_FAILED (stall_by_direction s)))
      else map_option (\<lambda>(calls, d). (True, run_calls calls (s\<lparr>mmc := d\<rparr>))) (CmdRead st m n (mmc s)))"

definition MSC_WriteSetup :: "'s storage \<Rightarrow> 's msc \<Rightarrow> (bool \<times> 's msc) option" where
  "MSC_WriteSetup st s =
     (let m = cb_address (CBW s); n = write_count (CBW s) in
      if dDataLength (CBW s) = 0 then Some (False, MSC_SetCSW (set_status CSW_CMD_FAILED s))
      else if dDataLength (CBW s) \<noteq> n * MSC_BlockSize then
        Some (False, MSC_SetCSW (set_status CSW_CMD_FAILED (stall_by_direction s)))
      else map_option (\<lambda>(calls, d). (True, run_calls calls (s\<lparr>mmc := d\<rparr>))) (CmdWrite st m n (mmc s)))"

definition MSC_MemoryRead :: "'s storage \<Rightarrow> 's msc \<Rightarrow> 's msc option" where
  "MSC_MemoryRead st s =
     map_option (\<lambda>(r, buf, calls, d).
       let s = run_calls calls (s\<lparr>mmc := d\<rparr>);
           s = emit (EpWrite buf) (s\<lparr>BulkBuf := buf\<rparr>)
       in if r = mmcIOPEN then s else
       let s = s\<lparr>BulkStage := (if sense_data (SenseData s) = SS_LOGICAL_BLOCK_ADDRESS_OUT_OF_RANGE
                                then MSC_BS_DATA_IN_LAST_STALL else MSC_BS_DATA_IN_LAST)\<rparr>
       in set_status (if sense_data (SenseData s) = SS_NO_SENSE then CSW_CMD_PASSED else CSW_CMD_FAILED) s)
     (Read st MSC_MAX_PACKET (mmc s))"

definition MSC_MemoryVerify :: "'s storage \<Rightarrow> 's msc \<Rightarrow> 's msc option" where
  "MSC_MemoryVerify st s =
     map_option (\<lambda>(r, tmp, calls, d).
       let s = run_calls calls (s\<lparr>mmc := d\<rparr>);
           n = unat (BulkLen s);
           s = (if take n tmp \<noteq> take n (BulkBuf s) then s\<lparr>MemOK := False\<rparr> else s)
       in if r = mmcIOPEN then s else
       let s = s\<lparr>BulkStage := MSC_BS_CSW\<rparr>;
           s = (if sense_data (SenseData s) = SS_LOGICAL_BLOCK_ADDRESS_OUT_OF_RANGE
                then MSC_SetStallEP EndpointOut s else s);
           s = (if sense_data (SenseData s) \<noteq> SS_NO_SENSE then s\<lparr>MemOK := False\<rparr> else s)
       in MSC_SetCSW (set_status (if MemOK s then CSW_CMD_PASSED else CSW_CMD_FAILED) s))
     (Read st (ucast (BulkLen s)) (mmc s))"

definition MSC_MemoryWrite :: "'s storage \<Rightarrow> 's msc \<Rightarrow> 's msc option" where
  "MSC_MemoryWrite st s =
     map_option (\<lambda>(r, calls, d).
       let s = run_calls calls (s\<lparr>mmc := d\<rparr>)
       in if r = mmcIOPEN then s else
       let s = s\<lparr>BulkStage := MSC_BS_CSW\<rparr>;
           s = (if sense_data (SenseData s) = SS_LOGICAL_BLOCK_ADDRESS_OUT_OF_RANGE
                then MSC_SetStallEP EndpointOut s else s)
       in MSC_SetCSW (set_status
            (if sense_data (SenseData s) = SS_NO_SENSE then CSW_CMD_PASSED else CSW_CMD_FAILED) s))
     (Write st (BulkBuf s) (ucast (BulkLen s)) (mmc s))"

section \<open>The state machine\<close>

text \<open>A command whose data phase has the wrong direction.\<close>

definition direction_error :: "UsbEndpointDir \<Rightarrow> 's msc \<Rightarrow> 's msc" where
  "direction_error dir s = MSC_SetCSW (set_status CSW_PHASE_ERROR (MSC_SetStallEP dir s))"

definition parse_read :: "'s storage \<Rightarrow> 's msc \<Rightarrow> 's msc option" where
  "parse_read st s = Option.bind (MSC_ReadSetup st s) (\<lambda>(ok, s).
     if \<not> ok then Some s
     else if bmFlags (CBW s) AND 0x80 \<noteq> 0 then MSC_MemoryRead st (s\<lparr>BulkStage := MSC_BS_DATA_IN\<rparr>)
     else Some (direction_error EndpointOut s))"

definition parse_write :: "'s storage \<Rightarrow> 's msc \<Rightarrow> 's msc option" where
  "parse_write st s = map_option (\<lambda>(ok, s).
     if \<not> ok then s
     else if bmFlags (CBW s) AND 0x80 = 0 then s\<lparr>BulkStage := MSC_BS_DATA_OUT\<rparr>
     else direction_error EndpointIn s) (MSC_WriteSetup st s)"

definition parse_verify :: "'s storage \<Rightarrow> 's msc \<Rightarrow> 's msc option" where
  "parse_verify st s =
     (if CB (CBW s) 1 AND 0x02 = 0 then Some (MSC_SetCSW (set_status CSW_CMD_PASSED s))
      else map_option (\<lambda>(ok, s).
        if \<not> ok then s
        else if bmFlags (CBW s) AND 0x80 = 0 then s\<lparr>BulkStage := MSC_BS_DATA_OUT, MemOK := True\<rparr>
        else direction_error EndpointIn s) (MSC_ReadSetup st s))"

definition unsupported :: "'s msc \<Rightarrow> 's msc" where
  "unsupported s = MSC_SetCSW (SetSenseData SS_INVALID_FIELD_IN_CDB 0 0 (set_status CSW_CMD_FAILED s))"

definition MSC_CommandParser :: "'s storage \<Rightarrow> SCSI_Commands \<Rightarrow> 's msc \<Rightarrow> 's msc option" where
  "MSC_CommandParser st p s = (case p of
       SCSI_TEST_UNIT_READY \<Rightarrow> Some (MSC_TestUnitReady s)
     | SCSI_REQUEST_SENSE \<Rightarrow> Some (MSC_RequestSense s)
     | SCSI_INQUIRY \<Rightarrow> Some (MSC_Inquiry s)
     | SCSI_MODE_SENSE6 \<Rightarrow> Some (MSC_ModeSense6 s)
     | SCSI_MODE_SENSE10 \<Rightarrow> Some (MSC_ModeSense10 s)
     | SCSI_READ_FORMAT_CAPACITIES \<Rightarrow> Some (MSC_ReadFormatCapacity st s)
     | SCSI_READ_CAPACITY \<Rightarrow> Some (MSC_ReadCapacity st s)
     | SCSI_READ10 \<Rightarrow> parse_read st s
     | SCSI_READ12 \<Rightarrow> parse_read st s
     | SCSI_WRITE10 \<Rightarrow> parse_write st s
     | SCSI_WRITE12 \<Rightarrow> parse_write st s
     | SCSI_VERIFY10 \<Rightarrow> parse_verify st s
     | _ \<Rightarrow> Some (unsupported s))"

text \<open>
  \<open>MSC_GetCBW\<close> copies the whole packet over the wrapper of 31 bytes before it looks at its length; a
  longer packet is written past the end of the wrapper.
\<close>

definition MSC_GetCBW :: "'s storage \<Rightarrow> 's msc \<Rightarrow> 's msc option" where
  "MSC_GetCBW st s =
     (let n = unat (BulkLen s) in
      if n > sizeof_CBW then None else
      let s = s\<lparr>CBW := take n (BulkBuf s) @ drop n (CBW s)\<rparr> in
      if n = sizeof_CBW \<and> dSignature (CBW s) = MSC_CBW_Signature then
        let s = s\<lparr>CSW := (CSW s)\<lparr>csw_dTag := dTag (CBW s), csw_dDataResidue := dDataLength (CBW s)\<rparr>\<rparr> in
        if bLUN (CBW s) \<noteq> 0 \<or> bCBLength (CBW s) < 1 \<or> bCBLength (CBW s) > 16 then
          Some (MSC_SetCSW (SetSenseData SS_LOGICAL_UNIT_NOT_SUPPORTED 0 0 (set_status CSW_CMD_FAILED s)))
        else MSC_CommandParser st (SCSI_of (CB (CBW s) 0)) s
      else
        Some ((MSC_SetStallEPStall EndpointOut (MSC_SetStallEPStall EndpointIn s))\<lparr>BulkStage := MSC_BS_ERROR\<rparr>))"

definition BulkIn :: "'s storage \<Rightarrow> 's msc \<Rightarrow> 's msc option" where
  "BulkIn st s = (case BulkStage s of
       MSC_BS_DATA_IN \<Rightarrow> (case SCSI_of (CB (CBW s) 0) of
           SCSI_READ10 \<Rightarrow> MSC_MemoryRead st s | SCSI_READ12 \<Rightarrow> MSC_MemoryRead st s | _ \<Rightarrow> Some s)
     | MSC_BS_DATA_IN_LAST \<Rightarrow> Some (MSC_SetCSW s)
     | MSC_BS_DATA_IN_LAST_STALL \<Rightarrow> Some (MSC_SetCSW (MSC_SetStallEP EndpointIn s))
     | MSC_BS_CSW \<Rightarrow> Some (s\<lparr>BulkStage := MSC_BS_CBW\<rparr>)
     | _ \<Rightarrow> Some s)"

text \<open>An OUT packet of at most 64 bytes has been received; it is read into the buffer first.\<close>

definition BulkOut :: "'s storage \<Rightarrow> mem \<Rightarrow> 's msc \<Rightarrow> 's msc option" where
  "BulkOut st pkt s =
     (let s = (buf_put 0 pkt s)\<lparr>BulkLen := of_nat (length pkt)\<rparr> in
      case BulkStage s of
        MSC_BS_CBW \<Rightarrow> MSC_GetCBW st s
      | MSC_BS_DATA_OUT \<Rightarrow> (case SCSI_of (CB (CBW s) 0) of
            SCSI_WRITE10 \<Rightarrow> MSC_MemoryWrite st s | SCSI_WRITE12 \<Rightarrow> MSC_MemoryWrite st s
          | SCSI_VERIFY10 \<Rightarrow> MSC_MemoryVerify st s | _ \<Rightarrow> Some s)
      | _ \<Rightarrow> Some (MSC_SetCSW (set_status CSW_PHASE_ERROR (MSC_SetStallEP EndpointOut s))))"

definition Reset :: "'s msc \<Rightarrow> 's msc" where
  "Reset s =
     (let s = emit (DevClrStallMask 0x00000000) s;
          s = s\<lparr>CSW := (CSW s)\<lparr>csw_dSignature := 0\<rparr>\<rparr>
      in s\<lparr>BulkStage := MSC_BS_CBW\<rparr>)"

definition GetMaxLUN :: bool where
  "GetMaxLUN = True"

datatype IfacePostRunAction =
    IfacePostRunActionStall | IfacePostRunActionDoNothing | IfacePostRunActionStatusIn
  | IfacePostRunActionSetData | IfacePostRunActionSetDataIn
  | IfacePostRunActionMscLun

text \<open>The class requests on the control endpoint.\<close>

definition SetupHandler :: "u8 \<Rightarrow> u16 \<Rightarrow> u16 \<Rightarrow> 's msc \<Rightarrow> IfacePostRunAction \<times> 's msc" where
  "SetupHandler bRequest wValue wLength s =
     (if bRequest = 0xFF then
        (if wValue = 0 \<and> wLength = 0 then (IfacePostRunActionStatusIn, Reset s)
         else (IfacePostRunActionStall, s))
      else if bRequest = 0xFE then
        (if wValue = 0 \<and> wLength = 1 \<and> GetMaxLUN then (IfacePostRunActionMscLun, s)
         else (IfacePostRunActionStall, s))
      else (IfacePostRunActionStall, s))"

text \<open>The events of the bulk endpoints.\<close>

datatype bulk_event = USB_EVT_IN | USB_EVT_OUT mem | USB_EVT_other

definition Handler :: "'s storage \<Rightarrow> bulk_event \<Rightarrow> 's msc \<Rightarrow> 's msc option" where
  "Handler st e s = (case e of
       USB_EVT_IN \<Rightarrow> BulkIn st s | USB_EVT_OUT pkt \<Rightarrow> BulkOut st pkt s | USB_EVT_other \<Rightarrow> Some s)"

text \<open>A sequence of events.\<close>

primrec run_events :: "'s storage \<Rightarrow> bulk_event list \<Rightarrow> 's msc \<Rightarrow> 's msc option" where
  "run_events st [] s = Some s"
| "run_events st (e # es) s = Option.bind (Handler st e s) (run_events st es)"

section \<open>What the operations leave alone\<close>

named_theorems msc_simps \<open>projections of the state after an operation\<close>

lemma emit_simps [msc_simps]:
  "BulkStage (emit e s) = BulkStage s" "CSW (emit e s) = CSW s" "CBW (emit e s) = CBW s"
  "SenseData (emit e s) = SenseData s" "mmc (emit e s) = mmc s" "out (emit e s) = out s @ [e]"
  "BulkBuf (emit e s) = BulkBuf s" "BulkLen (emit e s) = BulkLen s" "MemOK (emit e s) = MemOK s"
  "ReadOnly (emit e s) = ReadOnly s" "ep_addr (emit e s) = ep_addr s"
  by (simp_all add: emit_def)

lemma set_status_simps [msc_simps]:
  "BulkStage (set_status v s) = BulkStage s" "CSW (set_status v s) = (CSW s)\<lparr>csw_bStatus := v\<rparr>"
  "CBW (set_status v s) = CBW s" "SenseData (set_status v s) = SenseData s" "mmc (set_status v s) = mmc s"
  "out (set_status v s) = out s" "BulkBuf (set_status v s) = BulkBuf s"
  "BulkLen (set_status v s) = BulkLen s" "MemOK (set_status v s) = MemOK s"
  "ReadOnly (set_status v s) = ReadOnly s" "ep_addr (set_status v s) = ep_addr s"
  by (simp_all add: set_status_def)

lemma buf_put_simps [msc_simps]:
  "BulkStage (buf_put o' bs s) = BulkStage s" "CSW (buf_put o' bs s) = CSW s" "CBW (buf_put o' bs s) = CBW s"
  "SenseData (buf_put o' bs s) = SenseData s" "mmc (buf_put o' bs s) = mmc s" "out (buf_put o' bs s) = out s"
  "BulkLen (buf_put o' bs s) = BulkLen s" "MemOK (buf_put o' bs s) = MemOK s"
  "ReadOnly (buf_put o' bs s) = ReadOnly s" "ep_addr (buf_put o' bs s) = ep_addr s"
  by (simp_all add: buf_put_def)

lemma stall_simps [msc_simps]:
  "BulkStage (MSC_SetStallEP d s) = BulkStage s" "CSW (MSC_SetStallEP d s) = CSW s"
  "CBW (MSC_SetStallEP d s) = CBW s" "SenseData (MSC_SetStallEP d s) = SenseData s"
  "mmc (MSC_SetStallEP d s) = mmc s" "ep_addr (MSC_SetStallEP d s) = ep_addr s"
  "MemOK (MSC_SetStallEP d s) = MemOK s"
  "out (MSC_SetStallEP d s) = out s @ [EpSetStall d, DevSetStallMask (stall_mask d s)]"
  "BulkStage (MSC_SetStallEPStall d s) = BulkStage s" "CSW (MSC_SetStallEPStall d s) = CSW s"
  "CBW (MSC_SetStallEPStall d s) = CBW s" "SenseData (MSC_SetStallEPStall d s) = SenseData s"
  "mmc (MSC_SetStallEPStall d s) = mmc s" "ep_addr (MSC_SetStallEPStall d s) = ep_addr s"
  "out (MSC_SetStallEPStall d s) = out s @ [EpSetStall d, DevSetStallHaltMask (stall_mask d s)]"
  by (simp_all add: MSC_SetStallEP_def MSC_SetStallEPStall_def stall_mask_def EPNum_def msc_simps)

lemma SetCSW_simps [msc_simps]:
  "BulkStage (MSC_SetCSW s) = MSC_BS_CSW" "CBW (MSC_SetCSW s) = CBW s"
  "CSW (MSC_SetCSW s) = (CSW s)\<lparr>csw_dSignature := MSC_CSW_Signature\<rparr>"
  "SenseData (MSC_SetCSW s) = SenseData s" "mmc (MSC_SetCSW s) = mmc s" "ep_addr (MSC_SetCSW s) = ep_addr s"
  "out (MSC_SetCSW s) = out s @ [EpWrite (CSW_bytes ((CSW s)\<lparr>csw_dSignature := MSC_CSW_Signature\<rparr>))]"
  by (simp_all add: MSC_SetCSW_def Let_def msc_simps)

lemma SetSenseData_simps [msc_simps]:
  "BulkStage (SetSenseData t i v s) = BulkStage s" "CSW (SetSenseData t i v s) = CSW s"
  "CBW (SetSenseData t i v s) = CBW s" "mmc (SetSenseData t i v s) = mmc s"
  "out (SetSenseData t i v s) = out s" "ep_addr (SetSenseData t i v s) = ep_addr s"
  "BulkBuf (SetSenseData t i v s) = BulkBuf s" "sense_data (SenseData (SetSenseData t i v s)) = t"
  "BulkLen (SetSenseData t i v s) = BulkLen s"
  by (simp_all add: SetSenseData_def)

lemma DecResidue_simps [msc_simps]:
  "BulkStage (DecResidue n s) = BulkStage s" "CBW (DecResidue n s) = CBW s" "mmc (DecResidue n s) = mmc s"
  "out (DecResidue n s) = out s" "SenseData (DecResidue n s) = SenseData s"
  "BulkBuf (DecResidue n s) = BulkBuf s" "BulkLen (DecResidue n s) = BulkLen s"
  "csw_dTag (CSW (DecResidue n s)) = csw_dTag (CSW s)"
  "ep_addr (DecResidue n s) = ep_addr s" "MemOK (DecResidue n s) = MemOK s"
  by (simp_all add: DecResidue_def)

lemma run_calls_simps [msc_simps]:
  "BulkStage (run_calls cs s) = BulkStage s" "CBW (run_calls cs s) = CBW s" "mmc (run_calls cs s) = mmc s"
  "out (run_calls cs s) = out s" "BulkLen (run_calls cs s) = BulkLen s" "BulkBuf (run_calls cs s) = BulkBuf s"
  "csw_dTag (CSW (run_calls cs s)) = csw_dTag (CSW s)" "ep_addr (run_calls cs s) = ep_addr s"
  unfolding run_calls_def
  by (induction cs arbitrary: s; simp add: run_call_def msc_simps split: parent_call.split)+

lemma run_calls_one [msc_simps]:
  "run_calls [] s = s" "run_calls [CallDecResidue n] s = DecResidue n s"
  by (simp_all add: run_calls_def run_call_def)

lemma DataInFormat_cases:
  obtains "DataInFormat s = (True, s)"
  | s' where "DataInFormat s = (False, s')" "BulkStage s' = MSC_BS_CSW" "csw_dTag (CSW s') = csw_dTag (CSW s)"
  by (cases "dDataLength (CBW s) = 0"; cases "bmFlags (CBW s) AND 0x80 = 0")
    (auto simp: DataInFormat_def msc_simps)

lemma DataInTransfer_simps [msc_simps]:
  "BulkStage (DataInTransfer s) = MSC_BS_DATA_IN_LAST" "csw_dTag (CSW (DataInTransfer s)) = csw_dTag (CSW s)"
  by (simp_all add: DataInTransfer_def Let_def msc_simps)

end
