(* ===== verification/MscSpec.thy ===== *)
theory MscSpec
  imports Msc Fat12
begin

unbundle bit_operations_syntax

text \<open>
  What the mass storage class promises to the host: the automaton of its stages and the one reply per
  event, and, for a disk that keeps the laws of \<open>storage_provider\<close>, that a READ or WRITE command
  transfers its blocks and ends with a good status.  The lemmas about transfers are proved once for the laws,
  and hold for the two disks of \<open>Fat12\<close> through their interpretations.
\<close>

section \<open>One reply per event\<close>

text \<open>The packets an operation hands to the IN endpoint.\<close>

definition packets :: "msc_event list \<Rightarrow> mem list" where
  "packets es = concat (map (\<lambda>e. case e of EpWrite p \<Rightarrow> [p] | _ \<Rightarrow> []) es)"

lemma packets_simps [simp]:
  "packets [] = []" "packets (EpWrite p # es) = p # packets es" "packets (EpSetStall d # es) = packets es"
  "packets (DevSetStallMask w # es) = packets es" "packets (DevSetStallHaltMask w # es) = packets es"
  "packets (DevClrStallMask w # es) = packets es" "packets (es @ fs) = packets es @ packets fs"
  by (simp_all add: packets_def)

text \<open>
  \<open>replies s s'\<close>: the events of \<open>s'\<close> extend those of \<open>s\<close> by at most one packet, which is the
  status wrapper with its signature when the stage is that of the status.
\<close>

definition replies :: "'s msc \<Rightarrow> 's msc \<Rightarrow> bool" where
  "replies s s' \<longleftrightarrow> (\<exists>new. out s' = out s @ new \<and> length (packets new) \<le> 1 \<and>
     (BulkStage s' = MSC_BS_CSW \<longrightarrow> packets new = [CSW_bytes (CSW s')] \<and>
        csw_dSignature (CSW s') = MSC_CSW_Signature))"

lemma repliesI:
  assumes "out s' = out s @ new" and "length (packets new) \<le> 1"
    and "BulkStage s' = MSC_BS_CSW \<Longrightarrow> packets new = [CSW_bytes (CSW s')] \<and>
        csw_dSignature (CSW s') = MSC_CSW_Signature"
  shows "replies s s'"
  using assms unfolding replies_def by blast

text \<open>An operation that ends with the status and has written no packet before.\<close>

lemma replies_SetCSW:
  assumes "out t = out s @ new" and "packets new = []"
  shows "replies s (MSC_SetCSW t)"
  by (rule repliesI [of _ _ "new @ [EpWrite (CSW_bytes (CSW (MSC_SetCSW t)))]"])
    (simp_all add: assms msc_simps)

lemma replies_status:
  "out t = out s \<Longrightarrow> replies s (MSC_SetCSW t)"
  "out t = out s @ [EpSetStall d, DevSetStallMask w] \<Longrightarrow> replies s (MSC_SetCSW t)"
  using replies_SetCSW [of t s "[]"] replies_SetCSW [of t s "[EpSetStall d, DevSetStallMask w]"] by simp_all

lemma stall_by_direction_simps [msc_simps]:
  "BulkStage (stall_by_direction s) = BulkStage s" "CSW (stall_by_direction s) = CSW s"
  "CBW (stall_by_direction s) = CBW s" "SenseData (stall_by_direction s) = SenseData s"
  "mmc (stall_by_direction s) = mmc s"
  by (simp_all add: stall_by_direction_def msc_simps)

lemma stall_by_direction_out:
  "\<exists>d w. out (stall_by_direction s) = out s @ [EpSetStall d, DevSetStallMask w]"
  by (auto simp: stall_by_direction_def msc_simps)

lemma DataInTransfer_out [msc_simps]:
  "\<exists>p. out (DataInTransfer s) = out s @ [EpWrite p]"
  by (simp add: DataInTransfer_def Let_def msc_simps)

lemma replies_DataInTransfer:
  assumes "out t = out s" shows "replies s (DataInTransfer t)"
proof -
  obtain p where "out (DataInTransfer t) = out t @ [EpWrite p]" using DataInTransfer_out by blast
  then show ?thesis by (intro repliesI [of _ _ "[EpWrite p]"]) (simp_all add: assms msc_simps)
qed

text \<open>The commands that check the format of their data phase first.\<close>

lemma DataInFormat_reply:
  obtains "DataInFormat s = (True, s)" | s' where "DataInFormat s = (False, s')" "BulkStage s' = MSC_BS_CSW"
    "csw_dTag (CSW s') = csw_dTag (CSW s)" "replies s s'"
proof (cases "dDataLength (CBW s) = 0 \<or> bmFlags (CBW s) AND 0x80 = 0")
  case True
  then show ?thesis
    by (intro that(2) [of "snd (DataInFormat s)"]; elim disjE;
        simp add: DataInFormat_def msc_simps replies_status)
qed (auto simp: DataInFormat_def intro: that)

definition data_reply :: "'s msc \<Rightarrow> 's msc \<Rightarrow> bool" where
  "data_reply s s' \<longleftrightarrow> BulkStage s' \<in> {MSC_BS_CSW, MSC_BS_DATA_IN_LAST} \<and>
     csw_dTag (CSW s') = csw_dTag (CSW s) \<and> replies s s'"

lemma data_reply_format:
  assumes "DataInFormat s = (True, s) \<Longrightarrow> \<exists>t. f s = DataInTransfer t \<and> out t = out s \<and> csw_dTag (CSW t) = csw_dTag (CSW s)"
  shows "data_reply s (let (ok, s) = DataInFormat s in if \<not> ok then s else f s)"
proof (rule DataInFormat_reply [of s])
  assume ok: "DataInFormat s = (True, s)"
  from assms [OF this] obtain t where "f s = DataInTransfer t" "out t = out s" "csw_dTag (CSW t) = csw_dTag (CSW s)"
    by blast
  then show ?thesis using ok by (simp add: data_reply_def msc_simps replies_DataInTransfer)
qed (simp add: data_reply_def)

lemma data_reply_commands:
  "data_reply s (MSC_Inquiry s)" "data_reply s (MSC_ModeSense10 s)" "data_reply s (MSC_ModeSense6 s)"
  "data_reply s (MSC_ReadCapacity st s)" "data_reply s (MSC_ReadFormatCapacity st s)"
  "data_reply s (MSC_RequestSense s)"
  unfolding MSC_Inquiry_def MSC_ModeSense10_def MSC_ModeSense6_def MSC_ReadCapacity_def
    MSC_ReadFormatCapacity_def MSC_RequestSense_def
  by (rule data_reply_format; fastforce simp: msc_simps Let_def)+

text \<open>The commands that transfer blocks.\<close>

lemma MemoryRead_reply:
  assumes "MSC_MemoryRead st s = Some s'"
  shows "BulkStage s' \<in> {BulkStage s, MSC_BS_DATA_IN_LAST, MSC_BS_DATA_IN_LAST_STALL}"
    and "csw_dTag (CSW s') = csw_dTag (CSW s)"
    and "BulkStage s \<noteq> MSC_BS_CSW \<Longrightarrow> replies s s'"
proof -
  obtain r buf calls d where "Read st MSC_MAX_PACKET (mmc s) = Some (r, buf, calls, d)"
    using assms by (auto simp: MSC_MemoryRead_def)
  note s' = assms [unfolded MSC_MemoryRead_def this, simplified, symmetric]
  show "BulkStage s' \<in> {BulkStage s, MSC_BS_DATA_IN_LAST, MSC_BS_DATA_IN_LAST_STALL}"
    "csw_dTag (CSW s') = csw_dTag (CSW s)"
    by (simp_all add: s' Let_def msc_simps)
  show "replies s s'" if "BulkStage s \<noteq> MSC_BS_CSW"
    by (rule repliesI [of _ _ "[EpWrite buf]"]) (use that in \<open>auto simp: s' Let_def msc_simps split: if_splits\<close>)
qed

lemma MemoryVerify_reply:
  assumes "MSC_MemoryVerify st s = Some s'" and "BulkStage s \<noteq> MSC_BS_CSW"
  shows "BulkStage s' \<in> {BulkStage s, MSC_BS_CSW} \<and> csw_dTag (CSW s') = csw_dTag (CSW s) \<and> replies s s'"
proof -
  obtain r buf calls d where "Read st (ucast (BulkLen s)) (mmc s) = Some (r, buf, calls, d)"
    using assms by (auto simp: MSC_MemoryVerify_def)
  note s' = assms(1) [unfolded MSC_MemoryVerify_def this, simplified, symmetric]
  show ?thesis
  proof (cases r)
    case mmcIOPEN
    then show ?thesis using assms(2)
      by (auto simp: s' Let_def msc_simps intro!: repliesI [of _ _ "[]"])
  next
    case mmcIOEND
    then show ?thesis by (simp add: s' Let_def msc_simps replies_status)
  qed
qed

lemma MemoryWrite_reply:
  assumes "MSC_MemoryWrite st s = Some s'" and "BulkStage s \<noteq> MSC_BS_CSW"
  shows "BulkStage s' \<in> {BulkStage s, MSC_BS_CSW} \<and> csw_dTag (CSW s') = csw_dTag (CSW s) \<and> replies s s'"
proof -
  obtain r calls d where "Write st (BulkBuf s) (ucast (BulkLen s)) (mmc s) = Some (r, calls, d)"
    using assms by (auto simp: MSC_MemoryWrite_def)
  note s' = assms(1) [unfolded MSC_MemoryWrite_def this, simplified, symmetric]
  show ?thesis
  proof (cases r)
    case mmcIOPEN
    then show ?thesis using assms(2)
      by (auto simp: s' Let_def msc_simps intro!: repliesI [of _ _ "[]"])
  next
    case mmcIOEND
    then show ?thesis by (simp add: s' Let_def msc_simps replies_status)
  qed
qed

lemma replies_trans_quiet:
  "replies t s' \<Longrightarrow> out t = out s \<Longrightarrow> replies s s'"
  by (simp add: replies_def)

lemma Setup_reply:
  assumes "MSC_ReadSetup st s = Some (ok, t) \<or> MSC_WriteSetup st s = Some (ok, t)"
  shows "csw_dTag (CSW t) = csw_dTag (CSW s)"
    and "ok \<Longrightarrow> BulkStage t = BulkStage s \<and> out t = out s"
    and "\<not> ok \<Longrightarrow> BulkStage t = MSC_BS_CSW \<and> replies s t"
proof -
  let ?fail = "\<lambda>s. MSC_SetCSW (set_status CSW_CMD_FAILED s)"
  have "replies s (?fail s)" by (rule replies_status) (simp add: msc_simps)
  moreover have "replies s (?fail (stall_by_direction s))"
    using stall_by_direction_out [of s] by (auto intro: replies_status(2) simp: msc_simps)
  ultimately show "csw_dTag (CSW t) = csw_dTag (CSW s)"
    "ok \<Longrightarrow> BulkStage t = BulkStage s \<and> out t = out s"
    "\<not> ok \<Longrightarrow> BulkStage t = MSC_BS_CSW \<and> replies s t"
    using assms by (auto simp: MSC_ReadSetup_def MSC_WriteSetup_def Let_def msc_simps split: if_splits)
qed

text \<open>What a step promises: tag, reply, and a stage out of a set.\<close>

definition step_to :: "MSC_BulkStages set \<Rightarrow> 's msc \<Rightarrow> 's msc \<Rightarrow> bool" where
  "step_to S s s' \<longleftrightarrow> BulkStage s' \<in> S \<and> csw_dTag (CSW s') = csw_dTag (CSW s) \<and> replies s s'"

lemma step_to_mono: "step_to S s s' \<Longrightarrow> S \<subseteq> T \<Longrightarrow> step_to T s s'"
  by (auto simp: step_to_def)

lemma step_to_quiet: "step_to S t s' \<Longrightarrow> out t = out s \<Longrightarrow> csw_dTag (CSW t) = csw_dTag (CSW s) \<Longrightarrow> step_to S s s'"
  by (simp add: step_to_def replies_def)

lemma step_to_status:
  "out t = out s \<Longrightarrow> csw_dTag (CSW t) = csw_dTag (CSW s) \<Longrightarrow> step_to {MSC_BS_CSW} s (MSC_SetCSW t)"
  "out t = out s @ [EpSetStall d, DevSetStallMask w] \<Longrightarrow> csw_dTag (CSW t) = csw_dTag (CSW s) \<Longrightarrow>
    step_to {MSC_BS_CSW} s (MSC_SetCSW t)"
  by (simp_all add: step_to_def msc_simps replies_status)

lemma step_to_stay:
  "out s' = out s \<Longrightarrow> csw_dTag (CSW s') = csw_dTag (CSW s) \<Longrightarrow> BulkStage s' \<noteq> MSC_BS_CSW \<Longrightarrow>
   step_to {BulkStage s'} s s'"
  by (auto simp: step_to_def intro: repliesI [of _ _ "[]"])

lemma step_to_direction: "out t = out s \<Longrightarrow> csw_dTag (CSW t) = csw_dTag (CSW s) \<Longrightarrow>
    step_to {MSC_BS_CSW} s (direction_error dir t)"
  unfolding direction_error_def by (rule step_to_status(2)) (simp_all add: msc_simps)

abbreviation after_command :: "MSC_BulkStages set" where
  "after_command \<equiv> {MSC_BS_CSW, MSC_BS_DATA_IN, MSC_BS_DATA_IN_LAST, MSC_BS_DATA_IN_LAST_STALL, MSC_BS_DATA_OUT}"

lemma parse_read_reply:
  assumes "parse_read st s = Some s'"
  shows "step_to after_command s s'"
proof -
  obtain ok t where t: "MSC_ReadSetup st s = Some (ok, t)" using assms by (auto simp: parse_read_def bind_eq_Some_conv)
  note su = Setup_reply [OF disjI1, OF t]
  show ?thesis
  proof (cases "ok \<and> bmFlags (CBW t) AND 0x80 \<noteq> 0")
    case True
    then have "MSC_MemoryRead st (t\<lparr>BulkStage := MSC_BS_DATA_IN\<rparr>) = Some s'"
      using assms t by (simp add: parse_read_def)
    note rd = MemoryRead_reply [OF this]
    have "step_to after_command (t\<lparr>BulkStage := MSC_BS_DATA_IN\<rparr>) s'" using rd by (auto simp: step_to_def)
    then show ?thesis by (rule step_to_quiet) (use su True in simp_all)
  next
    case False
    show ?thesis
    proof (cases ok)
      case True
      with False assms t have "s' = direction_error EndpointOut t" by (simp add: parse_read_def)
      then show ?thesis using step_to_mono [OF step_to_direction] su True by fastforce
    next
      case False
      with assms t have "s' = t" by (simp add: parse_read_def)
      then show ?thesis using su False by (simp add: step_to_def)
    qed
  qed
qed

lemma setup_data_out_reply:
  assumes t: "MSC_ReadSetup st s = Some (ok, t) \<or> MSC_WriteSetup st s = Some (ok, t)"
    and s': "s' = (if \<not> ok then t else if bmFlags (CBW t) AND 0x80 = 0 then u else direction_error EndpointIn t)"
    and u: "out u = out t" "CSW u = CSW t" "BulkStage u = MSC_BS_DATA_OUT"
  shows "step_to after_command s s'"
proof (cases ok)
  case False
  then show ?thesis using Setup_reply [OF t] s' by (simp add: step_to_def)
next
  case True
  note su = Setup_reply [OF t] True
  show ?thesis
  proof (cases "bmFlags (CBW t) AND 0x80 = 0")
    case True
    then have "step_to {BulkStage s'} s s'" using su s' u by (intro step_to_stay) simp_all
    then show ?thesis by (rule step_to_mono) (use True s' u su in simp)
  next
    case False
    then show ?thesis using step_to_mono [OF step_to_direction] su s' by fastforce
  qed
qed

lemma CommandParser_reply:
  assumes "MSC_CommandParser st p s = Some s'"
  shows "step_to after_command s s'"
proof -
  have data: "step_to after_command s t" if "data_reply s t" for t
    using that by (auto simp: data_reply_def step_to_def)
  have un: "step_to after_command s (unsupported s)"
    unfolding unsupported_def by (rule step_to_mono, rule step_to_status(1)) (simp_all add: msc_simps)
  have ready: "step_to after_command s (MSC_TestUnitReady s)"
  proof -
    obtain d w where o: "out (stall_by_direction s) = out s @ [EpSetStall d, DevSetStallMask w]"
      using stall_by_direction_out by blast
    have "step_to {MSC_BS_CSW} s (MSC_TestUnitReady s)"
      by (cases "dDataLength (CBW s) = 0")
        (simp_all add: MSC_TestUnitReady_def Let_def msc_simps o step_to_status(1) step_to_status(2) [where d = d and w = w])
    then show ?thesis by (rule step_to_mono) simp
  qed
  have verify: "step_to after_command s s'" if "parse_verify st s = Some s'"
  proof (cases "CB (CBW s) 1 AND 0x02 = 0")
    case True
    then have "s' = MSC_SetCSW (set_status CSW_CMD_PASSED s)" using that by (simp add: parse_verify_def)
    then show ?thesis using step_to_mono [OF step_to_status(1), of "set_status CSW_CMD_PASSED s" s] by (simp add: msc_simps)
  next
    case False
    with that obtain ok t where t: "MSC_ReadSetup st s = Some (ok, t)"
      "s' = (if \<not> ok then t else if bmFlags (CBW t) AND 0x80 = 0 then t\<lparr>BulkStage := MSC_BS_DATA_OUT, MemOK := True\<rparr>
        else direction_error EndpointIn t)" by (auto simp: parse_verify_def)
    show ?thesis by (rule setup_data_out_reply [OF disjI1, OF t(1,2)]) simp_all
  qed
  have wr: "step_to after_command s s'" if "parse_write st s = Some s'"
  proof -
    from that obtain ok t where t: "MSC_WriteSetup st s = Some (ok, t)"
      "s' = (if \<not> ok then t else if bmFlags (CBW t) AND 0x80 = 0 then t\<lparr>BulkStage := MSC_BS_DATA_OUT\<rparr>
        else direction_error EndpointIn t)" by (auto simp: parse_write_def)
    show ?thesis by (rule setup_data_out_reply [OF disjI2, OF t(1,2)]) simp_all
  qed
  show ?thesis using assms
    by (cases p) (auto simp: MSC_CommandParser_def intro: data data_reply_commands un ready verify wr parse_read_reply)
qed

section \<open>The automaton of the stages\<close>

definition valid_cbw :: "mem \<Rightarrow> bool" where
  "valid_cbw p \<longleftrightarrow> length p = 31 \<and> dSignature p = MSC_CBW_Signature"

inductive stage_step :: "MSC_BulkStages \<Rightarrow> bulk_event \<Rightarrow> MSC_BulkStages \<Rightarrow> bool" where
  status_sent: "stage_step MSC_BS_CSW USB_EVT_IN MSC_BS_CBW"
| data_in: "S' \<in> {MSC_BS_DATA_IN, MSC_BS_DATA_IN_LAST, MSC_BS_DATA_IN_LAST_STALL} \<Longrightarrow>
    stage_step MSC_BS_DATA_IN USB_EVT_IN S'"
| data_in_end: "S \<in> {MSC_BS_DATA_IN_LAST, MSC_BS_DATA_IN_LAST_STALL} \<Longrightarrow> stage_step S USB_EVT_IN MSC_BS_CSW"
| ignored_in: "S \<in> {MSC_BS_CBW, MSC_BS_DATA_OUT, MSC_BS_ERROR} \<Longrightarrow> stage_step S USB_EVT_IN S"
| command: "valid_cbw p \<Longrightarrow> S' \<in> after_command \<Longrightarrow> stage_step MSC_BS_CBW (USB_EVT_OUT p) S'"
| invalid_cbw: "\<not> valid_cbw p \<Longrightarrow> stage_step MSC_BS_CBW (USB_EVT_OUT p) MSC_BS_ERROR"
| data_out: "S' \<in> {MSC_BS_DATA_OUT, MSC_BS_CSW} \<Longrightarrow> stage_step MSC_BS_DATA_OUT (USB_EVT_OUT p) S'"
| phase_error: "S \<notin> {MSC_BS_CBW, MSC_BS_DATA_OUT} \<Longrightarrow> stage_step S (USB_EVT_OUT p) MSC_BS_CSW"
| other_event: "stage_step S USB_EVT_other S"

definition tag_after :: "bulk_event \<Rightarrow> 's msc \<Rightarrow> u32" where
  "tag_after e s = (case e of
       USB_EVT_OUT p \<Rightarrow> if BulkStage s = MSC_BS_CBW \<and> valid_cbw p then dTag p else csw_dTag (CSW s)
     | _ \<Rightarrow> csw_dTag (CSW s))"

text \<open>The members of the wrapper are those of the packet copied over it.\<close>

lemma cbw_prefix [simp]:
  assumes "length p = 31"
  shows "dSignature (p @ xs) = dSignature p" "dTag (p @ xs) = dTag p" "dDataLength (p @ xs) = dDataLength p"
    "bmFlags (p @ xs) = bmFlags p" "bLUN (p @ xs) = bLUN p" "bCBLength (p @ xs) = bCBLength p"
    "i < 16 \<Longrightarrow> CB (p @ xs) i = CB p i"
  using assms
  by (simp_all add: dSignature_def dTag_def dDataLength_def bmFlags_def bLUN_def bCBLength_def CB_def nth_append)

text \<open>The state after the packet has been read.\<close>

definition received :: "mem \<Rightarrow> 's msc \<Rightarrow> 's msc" where
  "received p s = (buf_put 0 p s)\<lparr>BulkLen := of_nat (length p)\<rparr>"

lemma received_simps [msc_simps]:
  "BulkStage (received p s) = BulkStage s" "CSW (received p s) = CSW s" "CBW (received p s) = CBW s"
  "SenseData (received p s) = SenseData s" "mmc (received p s) = mmc s" "out (received p s) = out s"
  "MemOK (received p s) = MemOK s" "ep_addr (received p s) = ep_addr s"
  "BulkLen (received p s) = of_nat (length p)"
  "BulkBuf (received p s) = p @ drop (length p) (BulkBuf s)"
  by (simp_all add: received_def msc_simps) (simp add: buf_put_def)

lemma BulkOut_received:
  "BulkOut st p s = (case BulkStage s of
        MSC_BS_CBW \<Rightarrow> MSC_GetCBW st (received p s)
      | MSC_BS_DATA_OUT \<Rightarrow> (case SCSI_of (CB (CBW s) 0) of
            SCSI_WRITE10 \<Rightarrow> MSC_MemoryWrite st (received p s) | SCSI_WRITE12 \<Rightarrow> MSC_MemoryWrite st (received p s)
          | SCSI_VERIFY10 \<Rightarrow> MSC_MemoryVerify st (received p s) | _ \<Rightarrow> Some (received p s))
      | _ \<Rightarrow> Some (MSC_SetCSW (set_status CSW_PHASE_ERROR (MSC_SetStallEP EndpointOut (received p s)))))"
  by (simp add: BulkOut_def Let_def received_def [symmetric] msc_simps cong: MSC_BulkStages.case_cong SCSI_Commands.case_cong)

text \<open>The command wrapper after a valid packet.\<close>

definition accepted :: "mem \<Rightarrow> 's msc \<Rightarrow> 's msc" where
  "accepted p s = (received p s)\<lparr>CBW := p @ drop 31 (CBW s),
     CSW := (CSW s)\<lparr>csw_dTag := dTag p, csw_dDataResidue := dDataLength p\<rparr>\<rparr>"

lemma length_byte [simp]: "n \<le> 64 \<Longrightarrow> unat (of_nat n :: u8) = n"
  by (simp add: unat_of_nat)

lemma GetCBW_cases:
  assumes "length p \<le> 64"
  shows "MSC_GetCBW st (received p s) =
    (if length p > 31 then None
     else if valid_cbw p then
       if bLUN p \<noteq> 0 \<or> bCBLength p < 1 \<or> bCBLength p > 16 then
         Some (MSC_SetCSW (SetSenseData SS_LOGICAL_UNIT_NOT_SUPPORTED 0 0 (set_status CSW_CMD_FAILED (accepted p s))))
       else MSC_CommandParser st (SCSI_of (CB p 0)) (accepted p s)
     else Some ((MSC_SetStallEPStall EndpointOut (MSC_SetStallEPStall EndpointIn
       ((received p s)\<lparr>CBW := p @ drop (length p) (CBW s)\<rparr>)))\<lparr>BulkStage := MSC_BS_ERROR\<rparr>))"
  using assms
  by (auto simp: MSC_GetCBW_def Let_def msc_simps sizeof_CBW_def valid_cbw_def accepted_def)

lemma step_bulk:
  assumes "step_to S s s'" and "\<And>S'. S' \<in> S \<Longrightarrow> stage_step (BulkStage s) e S'" and "tag_after e s = csw_dTag (CSW s)"
  shows "stage_step (BulkStage s) e (BulkStage s') \<and> csw_dTag (CSW s') = tag_after e s \<and> replies s s'"
  using assms by (simp add: step_to_def)

lemma bulk_in_step:
  assumes "BulkIn st s = Some s'"
  shows "stage_step (BulkStage s) USB_EVT_IN (BulkStage s') \<and> csw_dTag (CSW s') = tag_after USB_EVT_IN s \<and> replies s s'"
proof (cases "BulkStage s")
  case MSC_BS_DATA_IN
  then have "MSC_MemoryRead st s = Some s' \<or> s' = s"
    using assms by (auto simp: BulkIn_def split: SCSI_Commands.splits)
  then show ?thesis
  proof
    assume "MSC_MemoryRead st s = Some s'"
    from MemoryRead_reply [OF this] show ?thesis
      by (intro step_bulk [of "{MSC_BS_DATA_IN, MSC_BS_DATA_IN_LAST, MSC_BS_DATA_IN_LAST_STALL}"])
        (auto simp: MSC_BS_DATA_IN step_to_def tag_after_def intro: stage_step.data_in)
  next
    assume "s' = s"
    then show ?thesis using step_to_stay [of s s] MSC_BS_DATA_IN
      by (intro step_bulk [of "{BulkStage s}"]) (auto simp: tag_after_def intro: stage_step.data_in)
  qed
next
  case MSC_BS_CSW
  then have "s' = s\<lparr>BulkStage := MSC_BS_CBW\<rparr>" using assms by (simp add: BulkIn_def)
  then show ?thesis using step_to_stay [of s' s] MSC_BS_CSW
    by (intro step_bulk [of "{BulkStage s'}"]) (auto simp: tag_after_def intro: stage_step.status_sent)
next
  case MSC_BS_DATA_IN_LAST
  then have "s' = MSC_SetCSW s" using assms by (simp add: BulkIn_def)
  then show ?thesis using step_to_status(1) [of s s] MSC_BS_DATA_IN_LAST
    by (intro step_bulk [of "{MSC_BS_CSW}"]) (auto simp: tag_after_def intro: stage_step.data_in_end)
next
  case MSC_BS_DATA_IN_LAST_STALL
  then have "s' = MSC_SetCSW (MSC_SetStallEP EndpointIn s)" using assms by (simp add: BulkIn_def)
  then show ?thesis using step_to_status(2) [of "MSC_SetStallEP EndpointIn s" s] MSC_BS_DATA_IN_LAST_STALL
    by (intro step_bulk [of "{MSC_BS_CSW}"]) (auto simp: tag_after_def msc_simps intro: stage_step.data_in_end)
qed (use assms step_to_stay [of s s] in
  \<open>auto simp: BulkIn_def tag_after_def step_to_def intro: stage_step.ignored_in\<close>)

lemma bulk_out_command:
  assumes "length p \<le> 64" and "BulkStage s = MSC_BS_CBW" and "MSC_GetCBW st (received p s) = Some s'"
  shows "stage_step MSC_BS_CBW (USB_EVT_OUT p) (BulkStage s') \<and> csw_dTag (CSW s') = tag_after (USB_EVT_OUT p) s \<and> replies s s'"
proof (cases "valid_cbw p")
  case True
  let ?bad = "bLUN p \<noteq> 0 \<or> bCBLength p < 1 \<or> bCBLength p > 16"
  have "step_to after_command (accepted p s) s'"
  proof (cases ?bad)
    case bad: True
    then have "s' = MSC_SetCSW (SetSenseData SS_LOGICAL_UNIT_NOT_SUPPORTED 0 0 (set_status CSW_CMD_FAILED (accepted p s)))"
      using assms True by (auto simp: GetCBW_cases split: if_splits)
    then show ?thesis
      using step_to_mono [OF step_to_status(1), of _ "accepted p s"] by (simp add: msc_simps)
  next
    case False
    then have "MSC_CommandParser st (SCSI_of (CB p 0)) (accepted p s) = Some s'"
      using assms True by (auto simp: GetCBW_cases split: if_splits)
    then show ?thesis by (rule CommandParser_reply)
  qed
  then show ?thesis using assms(2) True
    by (auto simp: step_to_def accepted_def msc_simps tag_after_def replies_def intro: stage_step.command)
next
  case False
  let ?r = "(received p s)\<lparr>CBW := p @ drop (length p) (CBW s)\<rparr>"
  from False have s': "s' = (MSC_SetStallEPStall EndpointOut (MSC_SetStallEPStall EndpointIn ?r))\<lparr>BulkStage := MSC_BS_ERROR\<rparr>"
    using assms by (auto simp: GetCBW_cases split: if_splits)
  have "replies s s'"
    by (rule repliesI [of _ _ "drop (length (out s)) (out s')"]) (simp_all add: s' msc_simps)
  then show ?thesis using False by (simp add: s' msc_simps tag_after_def stage_step.invalid_cbw)
qed

lemma bulk_out_step:
  assumes "length p \<le> 64" and "BulkOut st p s = Some s'"
  shows "stage_step (BulkStage s) (USB_EVT_OUT p) (BulkStage s') \<and> csw_dTag (CSW s') = tag_after (USB_EVT_OUT p) s \<and> replies s s'"
proof (cases "BulkStage s = MSC_BS_CBW")
  case True
  then show ?thesis using bulk_out_command [OF assms(1) True, of st s'] assms(2) by (simp add: BulkOut_received)
next
  case cbw: False
  then have tag: "tag_after (USB_EVT_OUT p) s = csw_dTag (CSW s)" by (simp add: tag_after_def)
  show ?thesis
  proof (cases "BulkStage s = MSC_BS_DATA_OUT")
    case True
    let ?r = "received p s"
    have "MSC_MemoryWrite st ?r = Some s' \<or> MSC_MemoryVerify st ?r = Some s' \<or> s' = ?r"
      using assms(2) True by (auto simp: BulkOut_received split: SCSI_Commands.splits)
    then have "step_to {MSC_BS_DATA_OUT, MSC_BS_CSW} ?r s'"
      using MemoryWrite_reply [of st ?r s'] MemoryVerify_reply [of st ?r s'] True
        step_to_mono [OF step_to_stay [of ?r ?r]] by (auto simp: msc_simps step_to_def)
    then have "step_to {MSC_BS_DATA_OUT, MSC_BS_CSW} s s'"
      by (rule step_to_quiet) (simp_all add: msc_simps)
    then show ?thesis by (rule step_bulk) (simp_all add: tag True stage_step.data_out)
  next
    case False
    with cbw assms(2) have "s' = MSC_SetCSW (set_status CSW_PHASE_ERROR (MSC_SetStallEP EndpointOut (received p s)))"
      by (cases "BulkStage s") (simp_all add: BulkOut_received)
    then have "step_to {MSC_BS_CSW} s s'"
      using step_to_status(2) [of "set_status CSW_PHASE_ERROR (MSC_SetStallEP EndpointOut (received p s))" s] by (simp add: msc_simps)
    then show ?thesis by (rule step_bulk) (use False cbw tag in \<open>auto intro: stage_step.phase_error\<close>)
  qed
qed


text \<open>A command wrapper made from its members, and a disk that refuses every access.\<close>

definition mk_cbw :: "u32 \<Rightarrow> u32 \<Rightarrow> u8 \<Rightarrow> u8 list \<Rightarrow> mem" where
  "mk_cbw tag len flags cb = bytes32 MSC_CBW_Signature @ bytes32 tag @ bytes32 len @ [flags, 0, of_nat (length cb)]
     @ cb @ replicate (16 - length cb) 0"

definition no_disk :: "unit storage" where
  "no_disk = \<lparr> GetCapacity = \<lambda>_. 0, CmdRead = \<lambda>_ _ _. None, CmdWrite = \<lambda>_ _ _. None, Read = \<lambda>_ _. None,
     Write = \<lambda>_ _ _. None \<rparr>"

lemma mk_cbw_simps [simp]:
  assumes "length cb \<le> 16"
  shows "length (mk_cbw tag len flags cb) = 31" "dSignature (mk_cbw tag len flags cb) = MSC_CBW_Signature"
    "dTag (mk_cbw tag len flags cb) = tag" "dDataLength (mk_cbw tag len flags cb) = len"
    "bmFlags (mk_cbw tag len flags cb) = flags" "bLUN (mk_cbw tag len flags cb) = 0"
    "bCBLength (mk_cbw tag len flags cb) = of_nat (length cb)" "valid_cbw (mk_cbw tag len flags cb)"
    "i < length cb \<Longrightarrow> CB (mk_cbw tag len flags cb) i = cb ! i"
  using assms
  by (simp_all add: mk_cbw_def bytes32_def dSignature_def dTag_def dDataLength_def bmFlags_def bLUN_def
      bCBLength_def CB_def valid_cbw_def nth_append)


section \<open>Errors\<close>

lemma stall_masks:
  assumes "ep_addr s < 16"
  shows "stall_mask EndpointIn s = 0x80000000" and "stall_mask EndpointOut s = 0x8000"
proof -
  have "ep_addr s OR mask 4 = mask 4"
  proof (rule bit_word_eqI)
    fix n
    have "take_bit 4 (ep_addr s) = ep_addr s" using assms
      by (simp add: word_unat_eq_iff unsigned_take_bit_eq take_bit_nat_eq_self_iff word_less_nat_alt)
    then have "bit (ep_addr s) n \<Longrightarrow> n < 4" by (metis bit_take_bit_iff)
    then show "bit (ep_addr s OR mask 4) n = bit (mask 4 :: u8) n" by (auto simp: bit_or_iff bit_mask_iff)
  qed
  then have "ep_addr s OR 0x0F = 0x0F" by (simp add: mask_eq_exp_minus_1)
  then show "stall_mask EndpointIn s = 0x80000000" and "stall_mask EndpointOut s = 0x8000"
    by (simp_all add: stall_mask_def EPNum_def push_bit_eq_mult)
qed

text \<open>
  While a command is expected, a packet that is not a command wrapper stops both bulk endpoints and leads to the
  error stage; but the mask for the device is always that of endpoint 15, whatever endpoint the
  class has, and a packet longer than the wrapper is written past its end before its length is looked at.
\<close>

theorem bad_command_packet:
  assumes "BulkStage s = MSC_BS_CBW" and "length p \<le> 64" and "\<not> valid_cbw p" and "ep_addr s < 16"
  shows "if length p > 31 then Handler st (USB_EVT_OUT p) s = None
    else \<exists>s'. Handler st (USB_EVT_OUT p) s = Some s' \<and> BulkStage s' = MSC_BS_ERROR \<and> mmc s' = mmc s \<and>
      out s' = out s @ [EpSetStall EndpointIn, DevSetStallHaltMask 0x80000000,
                        EpSetStall EndpointOut, DevSetStallHaltMask 0x8000]"
proof -
  have ep: "ep_addr (MSC_SetStallEPStall d t) = ep_addr t" for d and t :: "'a msc" by (simp add: msc_simps)
  show ?thesis using assms
    by (simp add: Handler_def BulkOut_received GetCBW_cases msc_simps stall_masks)
qed

theorem bad_command_packet_witness:
  "Handler no_disk (USB_EVT_OUT (replicate 64 0)) (MsClass 1 ()) = None
   \<and> (\<exists>s'. Handler no_disk (USB_EVT_OUT [0]) (MsClass 1 ()) = Some s' \<and> BulkStage s' = MSC_BS_ERROR)"
  using bad_command_packet [of "MsClass 1 ()" "replicate 64 0" no_disk] bad_command_packet [of "MsClass 1 ()" "[0]" no_disk]
  by (auto simp: MsClass_def valid_cbw_def)

lemma CBW_mk: "CBW (accepted (mk_cbw tag len flags cb) s) = mk_cbw tag len flags cb @ drop 31 (CBW s)"
  by (simp add: accepted_def)

lemma csw_updates [simp]:
  "c\<lparr>csw_dTag := t, csw_dDataResidue := r, csw_bStatus := v, csw_dSignature := g\<rparr> =
    \<lparr> csw_dSignature = g, csw_dTag = t, csw_dDataResidue = r, csw_bStatus = v \<rparr>"
  by (cases c) simp

lemma RequestSense_result:
  assumes "dDataLength (CBW t) = 18" and "bmFlags (CBW t) = 0x80" and "length (BulkBuf t) = 64"
  shows "BulkStage (MSC_RequestSense t) = MSC_BS_DATA_IN_LAST" "mmc (MSC_RequestSense t) = mmc t"
    "sense_data (SenseData (MSC_RequestSense t)) = SS_NO_SENSE"
    "CSW (MSC_RequestSense t) = (CSW t)\<lparr>csw_dDataResidue := csw_dDataResidue (CSW t) - 18, csw_bStatus := CSW_CMD_PASSED\<rparr>"
    "out (MSC_RequestSense t) = out t @ [EpWrite (let d = SenseData t in
      [sense_valid d OR 0x70, 0, SK (sense_data d), byte_of 3 (sense_info d), byte_of 2 (sense_info d),
       byte_of 1 (sense_info d), byte_of 0 (sense_info d), 10, 0, 0, 0, 0, ASC (sense_data d), ASCQ (sense_data d), 0, 0, 0, 0])]"
proof -
  have zeros: "replicate 18 0 = [0, 0, 0, 0, 0, 0, 0, 0, 0, 0, 0, 0, 0, 0, 0, 0, 0, 0 :: u8]"
    by (simp add: eval_nat_numeral)
  show "BulkStage (MSC_RequestSense t) = MSC_BS_DATA_IN_LAST" "mmc (MSC_RequestSense t) = mmc t"
    "sense_data (SenseData (MSC_RequestSense t)) = SS_NO_SENSE"
    "CSW (MSC_RequestSense t) = (CSW t)\<lparr>csw_dDataResidue := csw_dDataResidue (CSW t) - 18, csw_bStatus := CSW_CMD_PASSED\<rparr>"
    "out (MSC_RequestSense t) = out t @ [EpWrite (let d = SenseData t in
      [sense_valid d OR 0x70, 0, SK (sense_data d), byte_of 3 (sense_info d), byte_of 2 (sense_info d),
       byte_of 1 (sense_info d), byte_of 0 (sense_info d), 10, 0, 0, 0, 0, ASC (sense_data d), ASCQ (sense_data d), 0, 0, 0, 0])]"
    using assms
    by (simp_all add: MSC_RequestSense_def DataInFormat_def DataInTransfer_def Let_def msc_simps zeros buf_put_def
      SetSenseData_def)
qed

text \<open>
  A command the parser does not know fails with its tag and its residue untouched, and the REQUEST SENSE that follows
  returns ``illegal request, invalid field'' (05, 24), ends well and clears the sense data.
\<close>

theorem unsupported_then_sense:
  assumes "BulkStage s = MSC_BS_CBW" and "length (BulkBuf s) = 64" and "length cb < 16"
    and "SCSI_of b \<in> {SCSI_FORMAT_UNIT, SCSI_MODE_SELECT6, SCSI_START_STOP_UNIT, SCSI_MEDIA_REMOVAL,
      SCSI_MODE_SELECT10, SCSI_other b}"
  shows "\<exists>s'. run_events st [USB_EVT_OUT (mk_cbw t1 len flags (b # cb)), USB_EVT_IN,
      USB_EVT_OUT (mk_cbw t2 18 0x80 [3, 0, 0, 0, 18, 0]), USB_EVT_IN, USB_EVT_IN] s = Some s'
    \<and> BulkStage s' = MSC_BS_CBW \<and> sense_data (SenseData s') = SS_NO_SENSE \<and> mmc s' = mmc s
    \<and> out s' = out s @
      [EpWrite (CSW_bytes \<lparr> csw_dSignature = MSC_CSW_Signature, csw_dTag = t1, csw_dDataResidue = len, csw_bStatus = CSW_CMD_FAILED \<rparr>),
       EpWrite [0x70, 0, 5, 0, 0, 0, 0, 10, 0, 0, 0, 0, 0x24, 0, 0, 0, 0, 0],
       EpWrite (CSW_bytes \<lparr> csw_dSignature = MSC_CSW_Signature, csw_dTag = t2, csw_dDataResidue = 0, csw_bStatus = CSW_CMD_PASSED \<rparr>)]"
proof -
  let ?p = "mk_cbw t1 len flags (b # cb)"
  define s1 where "s1 = unsupported (accepted ?p s)"
  define s2 where "s2 = s1\<lparr>BulkStage := MSC_BS_CBW\<rparr>"
  have "unat (bCBLength ?p) = Suc (length cb)" using assms(3) by (simp del: of_nat_Suc)
  then have len: "\<not> (bLUN ?p \<noteq> 0 \<or> bCBLength ?p < 1 \<or> bCBLength ?p > 16)"
    using assms(3) by (simp add: word_less_nat_alt word_le_nat_alt)
  have "MSC_CommandParser st (SCSI_of b) (accepted ?p s) = Some s1"
    using assms(4) by (auto simp: MSC_CommandParser_def s1_def)
  then have step1: "Handler st (USB_EVT_OUT ?p) s = Some s1"
    using assms(1,3) len by (simp add: Handler_def BulkOut_received GetCBW_cases)
  have step2: "Handler st USB_EVT_IN s1 = Some s2"
    by (simp add: Handler_def BulkIn_def s1_def s2_def unsupported_def msc_simps)
  let ?q = "mk_cbw t2 18 0x80 [3, 0, 0, 0, 18, 0]" and ?t = "accepted (mk_cbw t2 18 0x80 [3, 0, 0, 0, 18, 0]) s2"
  define s3 where "s3 = MSC_RequestSense ?t"
  have buf: "length (BulkBuf s2) = 64"
    using assms(2,3) by (simp add: s2_def s1_def unsupported_def MSC_SetCSW_def Let_def msc_simps accepted_def)
  have t: "dDataLength (CBW ?t) = 18" "bmFlags (CBW ?t) = 0x80" "length (BulkBuf ?t) = 64"
    using buf by (simp_all add: accepted_def msc_simps)
  note sense = RequestSense_result [OF t, folded s3_def]
  have step3: "Handler st (USB_EVT_OUT ?q) s2 = Some s3"
    by (simp add: Handler_def BulkOut_received GetCBW_cases s2_def s3_def SCSI_of_def MSC_CommandParser_def)
  have step45: "Handler st USB_EVT_IN s3 = Some (MSC_SetCSW s3)"
    "Handler st USB_EVT_IN (MSC_SetCSW s3) = Some ((MSC_SetCSW s3)\<lparr>BulkStage := MSC_BS_CBW\<rparr>)"
    by (simp_all add: Handler_def BulkIn_def sense(1) msc_simps)
  have s1: "out s1 = out s @ [EpWrite (CSW_bytes \<lparr> csw_dSignature = MSC_CSW_Signature, csw_dTag = t1,
        csw_dDataResidue = len, csw_bStatus = CSW_CMD_FAILED \<rparr>)]"
      "SenseData s2 = \<lparr> sense_data = SS_INVALID_FIELD_IN_CDB, sense_info = 0, sense_valid = 0 \<rparr>" "mmc s2 = mmc s"
    using assms(3)
    by (simp_all add: s1_def s2_def unsupported_def msc_simps accepted_def) (simp_all add: SetSenseData_def msc_simps accepted_def)
  have s3: "SenseData ?t = SenseData s2" "out ?t = out s1" "mmc ?t = mmc s2"
      "CSW ?t = (CSW s2)\<lparr>csw_dTag := t2, csw_dDataResidue := 18\<rparr>"
    by (simp_all add: accepted_def msc_simps) (simp_all add: s2_def)
  have "run_events st [USB_EVT_OUT ?p, USB_EVT_IN, USB_EVT_OUT ?q, USB_EVT_IN, USB_EVT_IN] s
      = Some ((MSC_SetCSW s3)\<lparr>BulkStage := MSC_BS_CBW\<rparr>)"
    by (simp add: step1 step2 step3 step45)
  then show ?thesis
    by (simp add: msc_simps sense s3 s1 SK_def ASC_def ASCQ_def byte_of_def SS_INVALID_FIELD_IN_CDB_def drop_bit_eq_div)
qed

theorem unsupported_then_sense_witness:
  "\<exists>s'. run_events no_disk [USB_EVT_OUT (mk_cbw 1 0 0 [0x1B, 0, 0, 0, 2, 0]), USB_EVT_IN,
      USB_EVT_OUT (mk_cbw 2 18 0x80 [3, 0, 0, 0, 18, 0]), USB_EVT_IN, USB_EVT_IN] (MsClass 1 ()) = Some s'
    \<and> BulkStage s' = MSC_BS_CBW"
  using unsupported_then_sense [of "MsClass 1 ()" "[0, 0, 0, 2, 0]" "0x1B" no_disk 1 0 0 2]
  by (auto simp: MsClass_def SCSI_of_def)

section \<open>Transfers\<close>

text \<open>The parts of the state that a packet of a transfer leaves alone, with the residue it counts.\<close>

definition transferred :: "nat \<Rightarrow> 's msc \<Rightarrow> 's msc \<Rightarrow> bool" where
  "transferred n s s' \<longleftrightarrow> CBW s' = CBW s \<and> SenseData s' = SenseData s \<and> length (BulkBuf s') = 64 \<and>
     csw_dTag (CSW s') = csw_dTag (CSW s) \<and>
     csw_dDataResidue (CSW s') = csw_dDataResidue (CSW s) - of_nat n"

lemma transferred_trans: "transferred a s t \<Longrightarrow> transferred b t u \<Longrightarrow> transferred (a + b) s u"
  by (simp add: transferred_def algebra_simps)

lemma DecResidue_no_sense [msc_simps]:
  "sense_data (SenseData s) = SS_NO_SENSE \<Longrightarrow> CSW (DecResidue n s) = (CSW s)\<lparr>csw_dDataResidue := csw_dDataResidue (CSW s) - n\<rparr>"
  by (simp add: DecResidue_def)

lemma run_events_append: "run_events st (xs @ ys) s = Option.bind (run_events st xs s) (run_events st ys)"
  by (induction xs arbitrary: s) (simp_all split: bind_splits)

text \<open>A valid command wrapper for \<open>n\<close> blocks from block \<open>m\<close>.\<close>

definition block_command :: "mem \<Rightarrow> u32 \<Rightarrow> u32 \<Rightarrow> SCSI_Commands set \<Rightarrow> (mem \<Rightarrow> u32) \<Rightarrow> bool" where
  "block_command p m n ops count \<longleftrightarrow> valid_cbw p \<and> bLUN p = 0 \<and> \<not> bCBLength p < 1 \<and> \<not> 16 < bCBLength p \<and>
     SCSI_of (CB p 0) \<in> ops \<and> cb_address p = m \<and> count p = n \<and> 0 < unat n \<and> dDataLength p = n * 512 \<and>
     dDataLength p \<noteq> 0"

definition good_status :: "u32 \<Rightarrow> msc_event" where
  "good_status tag = EpWrite (CSW_bytes \<lparr> csw_dSignature = MSC_CSW_Signature, csw_dTag = tag, csw_dDataResidue = 0,
     csw_bStatus = CSW_CMD_PASSED \<rparr>)"

lemma status_event:
  assumes "csw_dTag (CSW s) = t" and "csw_dDataResidue (CSW s) = 0" and "csw_bStatus (CSW s) = CSW_CMD_PASSED"
  shows "out (MSC_SetCSW s) = out s @ [good_status t]"
  using assms by (cases "CSW s") (simp add: good_status_def msc_simps)

text \<open>Between two commands, with no sense data pending; before the device has been asked for its sense data every transfer is reported as failed.\<close>

definition msc_idle :: "('s \<Rightarrow> bool) \<Rightarrow> 's msc \<Rightarrow> bool" where
  "msc_idle I s \<longleftrightarrow> BulkStage s = MSC_BS_CBW \<and> sense_data (SenseData s) = SS_NO_SENSE \<and>
     length (BulkBuf s) = 64 \<and> I (mmc s)"

lemma command_accepted:
  assumes "BulkStage s = MSC_BS_CBW" and "block_command p m n ops count"
  shows "Handler st (USB_EVT_OUT p) s = MSC_CommandParser st (SCSI_of (CB p 0)) (accepted p s)"
    and "length (BulkBuf s) = 64 \<Longrightarrow> length (BulkBuf (accepted p s)) = 64"
    and "CBW (accepted p s) = p @ drop 31 (CBW s)" and "length p = 31"
  using assms by (auto simp: block_command_def valid_cbw_def Handler_def BulkOut_received GetCBW_cases accepted_def msc_simps)

lemma count_prefix [simp]:
  assumes "length p = 31"
  shows "cb_address (p @ xs) = cb_address p" "read_count (p @ xs) = read_count p" "write_count (p @ xs) = write_count p"
  using assms
  by (simp_all add: cb_address_def read_count_def write_count_def cb_count10_def cb_count12_def split: SCSI_Commands.split)

lemma accepted_simps [msc_simps]:
  "BulkStage (accepted p s) = BulkStage s" "SenseData (accepted p s) = SenseData s" "mmc (accepted p s) = mmc s"
  "out (accepted p s) = out s" "csw_dTag (CSW (accepted p s)) = dTag p"
  "csw_dDataResidue (CSW (accepted p s)) = dDataLength p"
  by (simp_all add: accepted_def msc_simps)

context storage_provider
begin

lemma memory_read_step:
  assumes "reading (mmc s) off rem" and "64 \<le> rem" and "sense_data (SenseData s) = SS_NO_SENSE"
  shows "\<exists>s'. MSC_MemoryRead st s = Some s' \<and> reading (mmc s') (off + 64) (rem - 64) \<and>
    packet (mmc s') = packet (mmc s) \<and> out s' = out s @ [EpWrite (packet (mmc s) off)] \<and> transferred 64 s s' \<and>
    BulkStage s' = (if rem = 64 then MSC_BS_DATA_IN_LAST else BulkStage s) \<and>
    (rem = 64 \<longrightarrow> csw_bStatus (CSW s') = CSW_CMD_PASSED)"
proof -
  obtain d where d: "Read st 64 (mmc s) = Some (if rem = 64 then mmcIOEND else mmcIOPEN, packet (mmc s) off,
      [CallDecResidue 64], d)" "reading d (off + 64) (rem - 64)" "packet d = packet (mmc s)"
      "length (packet (mmc s) off) = 64" using read_law [OF assms(1,2)] by blast
  show ?thesis
    using assms(3) d(2-4)
    by (simp add: MSC_MemoryRead_def MSC_MAX_PACKET_def d(1) Let_def msc_simps transferred_def
        SS_NO_SENSE_def SS_LOGICAL_BLOCK_ADDRESS_OUT_OF_RANGE_def)
qed

lemma read_data:
  assumes "reading (mmc s) off (64 * Suc k)" and "sense_data (SenseData s) = SS_NO_SENSE"
    and "BulkStage s = MSC_BS_DATA_IN" and "SCSI_of (CB (CBW s) 0) \<in> {SCSI_READ10, SCSI_READ12}"
  shows "\<exists>s'. Option.bind (MSC_MemoryRead st s) (run_events st (replicate k USB_EVT_IN)) = Some s' \<and>
    BulkStage s' = MSC_BS_DATA_IN_LAST \<and> reading (mmc s') (off + 64 * Suc k) 0 \<and> packet (mmc s') = packet (mmc s) \<and>
    out s' = out s @ map (\<lambda>i. EpWrite (packet (mmc s) (off + 64 * i))) [0..<Suc k] \<and>
    transferred (64 * Suc k) s s' \<and> csw_bStatus (CSW s') = CSW_CMD_PASSED"
  using assms
proof (induction k arbitrary: s off)
  case 0
  from memory_read_step [OF 0(1) _ 0(2)] show ?case by auto
next
  case (Suc k)
  obtain t where t: "MSC_MemoryRead st s = Some t" "reading (mmc t) (off + 64) (64 * Suc k)"
      "packet (mmc t) = packet (mmc s)" "out t = out s @ [EpWrite (packet (mmc s) off)]" "transferred 64 s t"
      "BulkStage t = MSC_BS_DATA_IN"
    using memory_read_step [OF Suc.prems(1) _ Suc.prems(2)] Suc.prems(3) by auto
  have same: "CBW t = CBW s" "SenseData t = SenseData s" using t(5) by (simp_all add: transferred_def)
  obtain u where u: "Option.bind (MSC_MemoryRead st t) (run_events st (replicate k USB_EVT_IN)) = Some u"
      "BulkStage u = MSC_BS_DATA_IN_LAST" "reading (mmc u) (off + 64 + 64 * Suc k) 0" "packet (mmc u) = packet (mmc t)"
      "out u = out t @ map (\<lambda>i. EpWrite (packet (mmc t) (off + 64 + 64 * i))) [0..<Suc k]"
      "transferred (64 * Suc k) t u" "csw_bStatus (CSW u) = CSW_CMD_PASSED"
    using Suc.IH [OF t(2) _ t(6)] Suc.prems(2,4) same by auto
  have "Handler st USB_EVT_IN t = MSC_MemoryRead st t"
    using t(6) Suc.prems(4) same by (auto simp: Handler_def BulkIn_def)
  then have run: "Option.bind (MSC_MemoryRead st s) (run_events st (replicate (Suc k) USB_EVT_IN)) = Some u"
    using t(1) u(1) by simp
  have shift: "map f [0..<Suc (Suc k)] = f 0 # map (\<lambda>i. f (Suc i)) [0..<Suc k]" for f :: "nat \<Rightarrow> msc_event"
    by (simp add: upt_conv_Cons map_Suc_upt [symmetric] del: upt_Suc)
  have "out u = out s @ map (\<lambda>i. EpWrite (packet (mmc s) (off + 64 * i))) [0..<Suc (Suc k)]"
    unfolding shift u(5) t(3,4) by (simp add: add.assoc del: upt_Suc)
  moreover have "transferred (64 * Suc (Suc k)) s u" using transferred_trans [OF t(5) u(6)] by simp
  ultimately show ?case using run u t(3)
    by (intro exI [of _ u]) (simp add: add.assoc del: upt_Suc replicate_Suc)
qed

text \<open>A complete READ command: the packets of the blocks in their order, then a good status with the tag.\<close>

lemma read_transaction:
  assumes idle: "msc_idle inv s" and cmd: "block_command p m n {SCSI_READ10, SCSI_READ12} read_count"
    and dir: "bmFlags p AND 0x80 \<noteq> 0" and fits: "unat m + unat n \<le> blocks"
  shows "\<exists>s'. run_events st (USB_EVT_OUT p # replicate (8 * unat n + 1) USB_EVT_IN) s = Some s' \<and> msc_idle inv s' \<and>
    packet (mmc s') = packet (mmc s) \<and>
    out s' = out s @ map (\<lambda>i. EpWrite (packet (mmc s) (512 * unat m + 64 * i))) [0..<8 * unat n] @ [good_status (dTag p)]"
proof -
  have s: "BulkStage s = MSC_BS_CBW" "sense_data (SenseData s) = SS_NO_SENSE" "length (BulkBuf s) = 64" "inv (mmc s)"
    using idle by (auto simp: msc_idle_def)
  note acc = command_accepted [OF s(1) cmd]
  have c: "SCSI_of (CB p 0) \<in> {SCSI_READ10, SCSI_READ12}" "cb_address p = m" "read_count p = n" "0 < unat n"
      "dDataLength p = n * 512" "dDataLength p \<noteq> 0"
    using cmd by (auto simp: block_command_def)
  obtain d where d: "CmdRead st m n (mmc s) = Some ([], d)" "reading d (512 * unat m) (512 * unat n)" "packet d = packet (mmc s)"
    using cmd_read_law [OF s(4) c(4) fits] by blast
  let ?t = "(accepted p s)\<lparr>mmc := d, BulkStage := MSC_BS_DATA_IN\<rparr>"
  have "MSC_ReadSetup st (accepted p s) = Some (True, (accepted p s)\<lparr>mmc := d\<rparr>)"
    using c acc(3,4) d(1) by (simp add: MSC_ReadSetup_def MSC_BlockSize_def Let_def msc_simps)
  then have "parse_read st (accepted p s) = MSC_MemoryRead st ?t"
    using dir acc(3,4) by (simp add: parse_read_def)
  then have start: "Handler st (USB_EVT_OUT p) s = MSC_MemoryRead st ?t"
    using acc(1) c(1) by (auto simp: MSC_CommandParser_def)
  obtain k where k: "8 * unat n = Suc k" using c(4) by (cases "8 * unat n") auto
  then have rd: "reading (mmc ?t) (512 * unat m) (64 * Suc k)" using d(2) by (simp flip: k)
  have "SCSI_of (CB (CBW ?t) 0) \<in> {SCSI_READ10, SCSI_READ12}" using c(1) acc(3,4) by simp
  from read_data [OF rd _ _ this]
  obtain u where u: "Option.bind (MSC_MemoryRead st ?t) (run_events st (replicate k USB_EVT_IN)) = Some u"
      "BulkStage u = MSC_BS_DATA_IN_LAST" "reading (mmc u) (512 * unat m + 64 * Suc k) 0" "packet (mmc u) = packet d"
      "out u = out ?t @ map (\<lambda>i. EpWrite (packet d (512 * unat m + 64 * i))) [0..<Suc k]"
      "transferred (64 * Suc k) ?t u" "csw_bStatus (CSW u) = CSW_CMD_PASSED"
    using s(2) by (auto simp: msc_simps)
  let ?v = "(MSC_SetCSW u)\<lparr>BulkStage := MSC_BS_CBW\<rparr>"
  have "run_events st (replicate 2 USB_EVT_IN) u = Some ?v"
    using u(2) by (simp add: numeral_2_eq_2 Handler_def BulkIn_def msc_simps)
  moreover have "USB_EVT_OUT p # replicate (8 * unat n + 1) USB_EVT_IN =
      (USB_EVT_OUT p # replicate k USB_EVT_IN) @ replicate 2 USB_EVT_IN"
    by (simp only: append_Cons flip: replicate_add) (simp add: k)
  ultimately have run: "run_events st (USB_EVT_OUT p # replicate (8 * unat n + 1) USB_EVT_IN) s = Some ?v"
    using start u(1) by (simp only: run_events_append run_events.simps(2)) simp
  have "64 * Suc k = 512 * unat n" by (simp flip: k)
  then have "(of_nat (64 * Suc k) :: u32) = 512 * n" by (simp only: of_nat_mult) simp
  then have "csw_dDataResidue (CSW u) = 0" "csw_dTag (CSW u) = dTag p"
    using u(6) c(5) by (simp_all add: transferred_def msc_simps)
  then have "out ?v = out u @ [good_status (dTag p)]" using u(7) status_event [of u "dTag p"] by simp
  moreover have "out ?t = out s" by (simp add: msc_simps)
  moreover have "msc_idle inv ?v"
    using u(6) s(2) read_inv [OF u(3)] by (simp add: msc_idle_def transferred_def msc_simps) (simp add: MSC_SetCSW_def emit_def Let_def)
  ultimately show ?thesis using run u(4,5) d(3) unfolding k by (intro exI [of _ ?v]) (simp add: msc_simps)
qed

lemma memory_write_step:
  assumes "writing (mmc s) off rem" and "64 \<le> rem" and "length p = 64" and "sense_data (SenseData s) = SS_NO_SENSE"
    and "BulkStage s = MSC_BS_DATA_OUT" and "SCSI_of (CB (CBW s) 0) \<in> {SCSI_WRITE10, SCSI_WRITE12}"
    and "length (BulkBuf s) = 64"
  shows "\<exists>s' r calls. Handler st (USB_EVT_OUT p) s = Some s' \<and> Write st p 64 (mmc s) = Some (r, calls, mmc s') \<and>
    writing (mmc s') (off + 64) (rem - 64) \<and> transferred 64 s s' \<and>
    (if rem = 64 then \<exists>t. s' = MSC_SetCSW t \<and> out t = out s \<and> transferred 64 s t \<and> csw_bStatus (CSW t) = CSW_CMD_PASSED
     else BulkStage s' = MSC_BS_DATA_OUT \<and> out s' = out s)"
proof -
  obtain d where d: "Write st p 64 (mmc s) = Some (if rem = 64 then mmcIOEND else mmcIOPEN, [CallDecResidue 64], d)"
      "writing d (off + 64) (rem - 64)" using write_law [OF assms(1-3)] by blast
  let ?r = "received p s" let ?t = "DecResidue 64 (?r\<lparr>mmc := d\<rparr>)"
  let ?u = "set_status CSW_CMD_PASSED (?t\<lparr>BulkStage := MSC_BS_CSW\<rparr>)"
  have len: "BulkLen ?r = 64" "BulkBuf ?r = p" using assms(3,7) by (simp_all add: msc_simps)
  have start: "Handler st (USB_EVT_OUT p) s = MSC_MemoryWrite st ?r"
    using assms(5,6) by (auto simp: Handler_def BulkOut_received)
  have sense: "sense_data (SenseData ?t) = SS_NO_SENSE" using assms(4) by (simp add: msc_simps)
  have mw: "MSC_MemoryWrite st ?r = Some (if rem = 64 then MSC_SetCSW ?u else ?t)"
    using d(1) sense len by (simp add: MSC_MemoryWrite_def msc_simps Let_def SS_NO_SENSE_def
        SS_LOGICAL_BLOCK_ADDRESS_OUT_OF_RANGE_def)
  have t: "transferred 64 s ?t" using assms(3,4) len by (simp add: transferred_def msc_simps)
  then have "transferred 64 s ?u" "transferred 64 s (MSC_SetCSW ?u)"
    by (simp_all add: transferred_def msc_simps MSC_SetCSW_def Let_def)
  with t d mw start assms(5) show ?thesis
    by (intro exI [of _ "if rem = 64 then MSC_SetCSW ?u else ?t"]) (auto simp: msc_simps intro!: exI [of _ ?u])
qed

lemma write_data:
  assumes "writing (mmc s) off (64 * length ps)" and "ps \<noteq> []" and "\<forall>p \<in> set ps. length p = 64"
    and "sense_data (SenseData s) = SS_NO_SENSE" and "BulkStage s = MSC_BS_DATA_OUT"
    and "SCSI_of (CB (CBW s) 0) \<in> {SCSI_WRITE10, SCSI_WRITE12}" and "length (BulkBuf s) = 64"
  shows "\<exists>t rs. run_events st (map USB_EVT_OUT ps) s = Some (MSC_SetCSW t) \<and> write_all st ps (mmc s) = Some (rs, mmc t) \<and>
    writing (mmc t) (off + 64 * length ps) 0 \<and> transferred (64 * length ps) s t \<and> out t = out s \<and>
    csw_bStatus (CSW t) = CSW_CMD_PASSED"
  using assms
proof (induction ps arbitrary: s off)
  case Nil
  then show ?case by simp
next
  case (Cons p ps)
  have p: "length p = 64" "64 \<le> 64 * length (p # ps)" "64 * length (p # ps) - 64 = 64 * length ps"
      "(64 * length (p # ps) = 64) = (ps = [])" using Cons.prems(3) by auto
  obtain s1 r calls where s1: "Handler st (USB_EVT_OUT p) s = Some s1" "Write st p 64 (mmc s) = Some (r, calls, mmc s1)"
      "writing (mmc s1) (off + 64) (64 * length ps)" "transferred 64 s s1"
      "if ps = [] then \<exists>t. s1 = MSC_SetCSW t \<and> out t = out s \<and> transferred 64 s t \<and> csw_bStatus (CSW t) = CSW_CMD_PASSED
       else BulkStage s1 = MSC_BS_DATA_OUT \<and> out s1 = out s"
    using memory_write_step [OF Cons.prems(1) p(2,1) Cons.prems(4-7)] unfolding p by blast
  show ?case
  proof (cases "ps = []")
    case True
    with s1 obtain t where t: "s1 = MSC_SetCSW t" "out t = out s" "transferred 64 s t" "csw_bStatus (CSW t) = CSW_CMD_PASSED"
      by auto
    moreover have "mmc s1 = mmc t" by (simp add: t(1) msc_simps)
    ultimately show ?thesis using s1(1-3) p(1) True by (intro exI [of _ t]) simp
  next
    case False
    have same: "CBW s1 = CBW s" "SenseData s1 = SenseData s" "length (BulkBuf s1) = 64"
      using s1(4) by (simp_all add: transferred_def)
    obtain t rs where t: "run_events st (map USB_EVT_OUT ps) s1 = Some (MSC_SetCSW t)" "write_all st ps (mmc s1) = Some (rs, mmc t)"
        "writing (mmc t) (off + 64 + 64 * length ps) 0" "transferred (64 * length ps) s1 t" "out t = out s1"
        "csw_bStatus (CSW t) = CSW_CMD_PASSED"
      using Cons.IH [OF s1(3) False] Cons.prems(3,4,6) same s1(5) False by auto
    have "transferred (64 * length (p # ps)) s t" using transferred_trans [OF s1(4) t(4)] by simp
    then show ?thesis using s1(1,2,5) t p(1) False by (intro exI [of _ t]) (simp add: add.assoc)
  qed
qed

text \<open>A complete WRITE command: the disk is written as by \<open>CmdWrite\<close> and \<open>write_all\<close>, and the only reply is a good status.\<close>

lemma write_transaction:
  assumes idle: "msc_idle inv s" and cmd: "block_command p m n {SCSI_WRITE10, SCSI_WRITE12} write_count"
    and dir: "bmFlags p AND 0x80 = 0" and fits: "unat m + unat n \<le> blocks" and wr: "writable (mmc s) (unat m) (unat n)"
    and ps: "length ps = 8 * unat n" "\<forall>p \<in> set ps. length p = 64"
  shows "\<exists>s' d rs. run_events st (USB_EVT_OUT p # map USB_EVT_OUT ps @ [USB_EVT_IN]) s = Some s' \<and> msc_idle inv s' \<and>
    CmdWrite st m n (mmc s) = Some ([], d) \<and> write_all st ps d = Some (rs, mmc s') \<and>
    writing (mmc s') (512 * (unat m + unat n)) 0 \<and> out s' = out s @ [good_status (dTag p)]"
proof -
  have s: "BulkStage s = MSC_BS_CBW" "sense_data (SenseData s) = SS_NO_SENSE" "length (BulkBuf s) = 64" "inv (mmc s)"
    using idle by (auto simp: msc_idle_def)
  note acc = command_accepted [OF s(1) cmd]
  have c: "SCSI_of (CB p 0) \<in> {SCSI_WRITE10, SCSI_WRITE12}" "cb_address p = m" "write_count p = n" "0 < unat n"
      "dDataLength p = n * 512" "dDataLength p \<noteq> 0"
    using cmd by (auto simp: block_command_def)
  obtain d where d: "CmdWrite st m n (mmc s) = Some ([], d)" "writing d (512 * unat m) (512 * unat n)"
    using cmd_write_law [OF s(4) c(4) fits wr] by blast
  let ?t = "(accepted p s)\<lparr>mmc := d, BulkStage := MSC_BS_DATA_OUT\<rparr>"
  have "MSC_WriteSetup st (accepted p s) = Some (True, (accepted p s)\<lparr>mmc := d\<rparr>)"
    using c acc(3,4) d(1) by (simp add: MSC_WriteSetup_def MSC_BlockSize_def Let_def msc_simps)
  then have "parse_write st (accepted p s) = Some ?t" using dir acc(3,4) by (simp add: parse_write_def)
  then have start: "Handler st (USB_EVT_OUT p) s = Some ?t" using acc(1) c(1) by (auto simp: MSC_CommandParser_def)
  have w: "writing (mmc ?t) (512 * unat m) (64 * length ps)" using d(2) ps(1) by simp
  have "ps \<noteq> []" using ps(1) c(4) by auto
  moreover have "SCSI_of (CB (CBW ?t) 0) \<in> {SCSI_WRITE10, SCSI_WRITE12}" using c(1) acc(3,4) by simp
  ultimately obtain u rs where u: "run_events st (map USB_EVT_OUT ps) ?t = Some (MSC_SetCSW u)"
      "write_all st ps d = Some (rs, mmc u)" "writing (mmc u) (512 * unat m + 64 * length ps) 0"
      "transferred (64 * length ps) ?t u" "out u = out s" "csw_bStatus (CSW u) = CSW_CMD_PASSED"
    using write_data [OF w _ ps(2)] s(2) acc(2) [OF s(3)] by (auto simp: msc_simps)
  let ?v = "(MSC_SetCSW u)\<lparr>BulkStage := MSC_BS_CBW\<rparr>"
  have run: "run_events st (USB_EVT_OUT p # map USB_EVT_OUT ps @ [USB_EVT_IN]) s = Some ?v"
    using start u(1) by (simp add: run_events_append Handler_def BulkIn_def msc_simps)
  have "64 * length ps = 512 * unat n" using ps(1) by simp
  then have "(of_nat (64 * length ps) :: u32) = 512 * n" by (simp only: of_nat_mult) simp
  then have "csw_dDataResidue (CSW u) = 0" "csw_dTag (CSW u) = dTag p"
    using u(4) c(5) by (simp_all add: transferred_def msc_simps)
  then have "out ?v = out s @ [good_status (dTag p)]" using u(5,6) status_event [of u "dTag p"] by simp
  moreover have "msc_idle inv ?v"
    using u(4) s(2) write_inv [OF u(3)] by (simp add: msc_idle_def transferred_def msc_simps) (simp add: MSC_SetCSW_def emit_def Let_def)
  moreover have "writing (mmc ?v) (512 * (unat m + unat n)) 0"
    using u(3) ps(1) by (simp add: msc_simps distrib_left)
  ultimately show ?thesis using run d(1) u(2) by (intro exI [of _ ?v]) (auto simp: msc_simps)
qed

end

text \<open>What a host sends to write consecutive blocks with several commands, and when it is well formed.\<close>

fun host_writes :: "(mem \<times> mem list) list \<Rightarrow> bulk_event list" where
  "host_writes [] = []"
| "host_writes ((p, ps) # cs) = (USB_EVT_OUT p # map USB_EVT_OUT ps @ [USB_EVT_IN]) @ host_writes cs"

fun write_cmds :: "u32 \<Rightarrow> (mem \<times> mem list) list \<Rightarrow> bool" where
  "write_cmds lba [] = True"
| "write_cmds lba ((p, ps) # cs) =
     (let n = of_nat (length ps div 8) in
      block_command p lba n {SCSI_WRITE10, SCSI_WRITE12} write_count \<and> bmFlags p AND 0x80 = 0 \<and>
      length ps = 8 * unat n \<and> (\<forall>q \<in> set ps. length q = 64) \<and> write_cmds (lba + n) cs)"

fun total_blocks :: "(mem \<times> mem list) list \<Rightarrow> nat" where
  "total_blocks [] = 0"
| "total_blocks ((p, ps) # cs) = length ps div 8 + total_blocks cs"

context sequential_storage
begin

lemma write_transactions:
  assumes "msc_idle inv s" and "write_cmds lba cs" and "start \<le> unat lba" and "unat lba + total_blocks cs \<le> blocks"
    and "\<And>n. writable (mmc s) (unat lba) n"
  shows "\<exists>s'. run_events st (host_writes cs) s = Some s' \<and> msc_idle inv s' \<and>
    write_commands st lba (map snd cs) (mmc s) = Some (mmc s') \<and>
    out s' = out s @ map (\<lambda>(p, _). good_status (dTag p)) cs"
  using assms
proof (induction cs arbitrary: s lba)
  case Nil
  then show ?case by simp
next
  case (Cons c cs)
  obtain p ps where c: "c = (p, ps)" by (cases c)
  let ?n = "of_nat (length ps div 8) :: u32"
  have cmd: "block_command p lba ?n {SCSI_WRITE10, SCSI_WRITE12} write_count" "bmFlags p AND 0x80 = 0"
      "length ps = 8 * unat ?n" "\<forall>q \<in> set ps. length q = 64" "write_cmds (lba + ?n) cs"
    using Cons.prems(2) by (simp_all add: c Let_def)
  then have n: "unat ?n = length ps div 8" "0 < unat ?n" by (simp_all add: block_command_def)
  have "inv (mmc s)" using Cons.prems(1) by (simp add: msc_idle_def)
  then have "blocks < 2 ^ 32" using capacity_law unsigned_less [of "GetCapacity st (mmc s)"] by fastforce
  then have lba: "unat (lba + ?n) = unat lba + unat ?n"
    using Cons.prems(4) n(1) by (simp add: c unat_word_ariths)
  have fits: "unat lba + unat ?n \<le> blocks" using Cons.prems(4) n(1) by (simp add: c)
  obtain s1 d rs where s1: "run_events st (USB_EVT_OUT p # map USB_EVT_OUT ps @ [USB_EVT_IN]) s = Some s1"
      "msc_idle inv s1" "CmdWrite st lba ?n (mmc s) = Some ([], d)" "write_all st ps d = Some (rs, mmc s1)"
      "writing (mmc s1) (512 * (unat lba + unat ?n)) 0" "out s1 = out s @ [good_status (dTag p)]"
    using write_transaction [OF Cons.prems(1) cmd(1,2) fits Cons.prems(5) cmd(3,4)] by blast
  have start: "start \<le> unat (lba + ?n)" "unat (lba + ?n) + total_blocks cs \<le> blocks"
    using Cons.prems(3,4) n(1) by (simp_all add: lba c)
  have "writable (mmc s1) (unat (lba + ?n)) n" for n
    unfolding lba by (rule sequel_law [OF s1(5)]) (use Cons.prems(3) n(2) in linarith)
  from Cons.IH [OF s1(2) cmd(5) start this]
  obtain s2 where s2: "run_events st (host_writes cs) s1 = Some s2" "msc_idle inv s2"
      "write_commands st (lba + ?n) (map snd cs) (mmc s1) = Some (mmc s2)"
      "out s2 = out s1 @ map (\<lambda>(p, _). good_status (dTag p)) cs" by blast
  have "run_events st (host_writes (c # cs)) s = Some s2"
    using s1(1) s2(1) by (simp only: c host_writes.simps run_events_append) simp
  with s1 s2 show ?case by (intro exI [of _ s2]) (simp add: c Let_def)
qed

end

end
