(* ===== verification/Update.thy ===== *)
theory Update
  imports MscSpec Image Keys
begin

unbundle bit_operations_syntax

text \<open>
  The components together: the host talks to the mass storage class, the class to the emulated disk, the disk to
  the image writer, the writer to the flash, and the boot loader finally checks what lies there.
\<close>

section \<open>Reading the disk\<close>

text \<open>A device between two commands, with its prepared disk and its flash.\<close>

abbreviation device_idle ::
  "'h flash_hw \<Rightarrow> ('h \<Rightarrow> bool) \<Rightarrow> ('h \<Rightarrow> u32 \<Rightarrow> u8) \<Rightarrow> 'h flash_store fat12 msc \<Rightarrow> bool" where
  "device_idle hw idle cells s \<equiv> msc_idle (flash_disk.disk_inv hw idle cells) s"

definition example_disk :: "chip flash_store fat12" where
  "example_disk = (Fat12Emul (flash_ImageWriter (FLASH_CR_LOCK, 0, False, \<lambda>_. 7)))\<lparr>pt0 := 4, pt1 := 4, pt2 := 6\<rparr>"

definition example_device :: "chip flash_store fat12 msc" where
  "example_device = SetSenseData SS_NO_SENSE 0 0 (MsClass 1 example_disk)"

lemma example_device_idle: "device_idle example_chip chip_idle chip_cells example_device"
  using example_chip_rest
  by (simp add: msc_idle_def example_device_def example_disk_def SetSenseData_def MsClass_def
      flash_disk.disk_inv_def fat_ready_def Fat12Emul_def BootSector_def)

text \<open>
  C5: A READ command for blocks of the disk, on an idle device: the host gets the blocks' packets in their order
  and then a good status with its own tag, and the device is idle again.  A packet is a piece of the volume, or of
  the image in flash, encrypted.
\<close>

theorem usb_read:
  assumes "device_idle hw idle cells s" and "block_command p m n {SCSI_READ10, SCSI_READ12} read_count"
    and "bmFlags p AND 0x80 \<noteq> 0" and "unat m + unat n \<le> 128"
  shows "\<exists>s'. run_events (fat12_storage (flash_ops hw cells key) image_size)
      (USB_EVT_OUT p # replicate (8 * unat n + 1) USB_EVT_IN) s = Some s' \<and> device_idle hw idle cells s'
    \<and> out s' = out s @ map (\<lambda>i. EpWrite (fat_packet key (flash_img cells) image_size (mmc s) (512 * unat m + 64 * i)))
        [0..<8 * unat n] @ [good_status (dTag p)]"
  using flash_storage.read_transaction [OF assms] by blast

lemma example_block_command:
  assumes "SCSI_of b \<in> ops" and "count (mk_cbw tag 512 flags [b, 0, 0, 0, 0, 6, 0, 0, 1, 0]) = 1"
  shows "block_command (mk_cbw tag 512 flags [b, 0, 0, 0, 0, 6, 0, 0, 1, 0]) 6 1 ops count"
  using assms by (simp add: block_command_def cb_address_def)

theorem usb_read_witness:
  "\<exists>s' ps. run_events (fat12_storage (flash_ops example_chip chip_cells [1, 2, 3, 4]) 0)
      (USB_EVT_OUT (mk_cbw 5 512 0x80 [0x28, 0, 0, 0, 0, 6, 0, 0, 1, 0]) # replicate 9 USB_EVT_IN) example_device = Some s'
    \<and> out s' = ps @ [good_status 5] \<and> length ps = 8"
proof -
  let ?p = "mk_cbw 5 512 0x80 [0x28, 0, 0, 0, 0, 6, 0, 0, 1, 0]"
  have "block_command ?p 6 1 {SCSI_READ10, SCSI_READ12} read_count"
    by (rule example_block_command) (simp_all add: SCSI_of_def read_count_def cb_count10_def)
  from usb_read [OF example_device_idle this, of "[1, 2, 3, 4]" 0]
  show ?thesis by (fastforce simp: example_device_def SetSenseData_def MsClass_def)
qed

section \<open>The update of the firmware\<close>

text \<open>The memory the boot loader's check sees.\<close>

definition flash_memory :: "('h \<Rightarrow> u32 \<Rightarrow> u8) \<Rightarrow> 'h flash_store \<Rightarrow> mem" where
  "flash_memory cells f = map (flash_img cells f) [0..<flash_cap]"

lemma flash_memory_prefix:
  assumes "\<And>i. i < length xs \<Longrightarrow> flash_img cells f i = xs ! i" and "length xs \<le> flash_cap"
  shows "\<exists>rest. flash_memory cells f = xs @ rest"
proof -
  have "take (length xs) (flash_memory cells f) = xs"
    using assms by (intro nth_equalityI) (simp_all add: flash_memory_def)
  then show ?thesis by (metis append_take_drop_id)
qed

lemma total_blocks_length:
  "write_cmds lba cs \<Longrightarrow> length (concat (concat (map snd cs))) = 512 * total_blocks cs"
proof (induction lba cs rule: write_cmds.induct)
  case (2 lba p ps cs)
  let ?n = "of_nat (length ps div 8) :: u32"
  have ps: "length ps = 8 * unat ?n" "\<forall>q \<in> set ps. length q = 64" "write_cmds (lba + ?n) cs"
    using "2.prems" by (simp_all add: Let_def)
  then have "length (concat ps) = 64 * length ps" by (simp add: length_concat sum_list_triv cong: map_cong)
  moreover have "8 * (length ps div 8) = length ps" using ps(1) by (metis dvd_mult_div_cancel dvd_triv_left)
  ultimately show ?case using "2.IH" [OF refl ps(3)] by simp
qed simp

lemma write_cmds_packets:
  "write_cmds lba cs \<Longrightarrow> ps \<in> set (map snd cs) \<Longrightarrow> ps \<noteq> [] \<and> 8 dvd length ps \<and> (\<forall>p \<in> set ps. length p = 64)"
proof (induction lba cs rule: write_cmds.induct)
  case (2 lba p qs cs)
  then have "length qs = 8 * unat (of_nat (length qs div 8) :: u32)" by (simp add: Let_def)
  then have "8 dvd length qs" by (metis dvd_triv_left)
  with 2 show ?case by (cases "ps = qs") (auto simp: Let_def block_command_def)
qed simp

text \<open>
  C4: The update, from the host's file to the boot loader's decision.  A file the server accepts is sealed and
  encrypted; the host writes it, padded to whole blocks, with any number of WRITE commands into the sectors of
  FIRMWARE.BIN (from sector 6 on).  On a chip that keeps its contract every command ends with a good status, and
  the check at the next start accepts the image and starts it.
\<close>

theorem firmware_update:
  assumes "FwCheck (Some content) = Inr img" and "encrypt_block img (of_nat (length img)) key = Some cipher"
    and "device_idle hw idle cells s" and "\<forall>i. \<not> flash_erased (memory (mmc s)) i"
    and "write_cmds 6 cs" and "concat (concat (map snd cs)) = cipher @ padding" and "total_blocks cs \<le> 122"
  shows "\<exists>s'. run_events (fat12_storage (flash_ops hw cells key) image_size) (host_writes cs) s = Some s'
    \<and> out s' = out s @ map (\<lambda>(p, _). good_status (dTag p)) cs
    \<and> UserCheck (flash_memory cells (memory (mmc s'))) = Some (True, of_nat (length img))
    \<and> check_user False (flash_memory cells (memory (mmc s'))) = Some 0"
proof -
  let ?st = "fat12_storage (flash_ops hw cells key) image_size" and ?pss = "map snd cs"
  have boot: "\<And>rest. UserCheck (img @ rest) = Some (True, of_nat (length img)) \<and> check_user False (img @ rest) = Some 0"
    and size: "8 dvd length img" "length img < 2 ^ 32"
    using sealed_image [OF assms(1)] by blast+
  have unt: "flash.untouched cells 0 (memory (mmc s))"
    using assms(4) by (simp add: flash.untouched_def)
  have "6 \<le> unat (6 :: u32)" "unat (6 :: u32) + total_blocks cs \<le> 128" using assms(7) by simp_all
  moreover have "flash_disk.disk_writable cells (mmc s) (unat (6 :: u32)) n" for n
    using unt by (simp add: flash_disk.disk_writable_def)
  ultimately obtain s' where run: "run_events ?st (host_writes cs) s = Some s'"
      "write_commands ?st 6 ?pss (mmc s) = Some (mmc s')" "out s' = out s @ map (\<lambda>(p, _). good_status (dTag p)) cs"
    using flash_usb.write_transactions [OF assms(3,5), of key image_size] by blast
  have len: "length (concat (concat ?pss)) = 512 * total_blocks cs" by (rule total_blocks_length) (rule assms(5))
  have inv: "flash_disk.disk_inv hw idle cells (mmc s)" using assms(3) by (simp add: msc_idle_def)
  have "\<exists>s'. write_commands ?st 6 ?pss (mmc s) = Some s' \<and>
      (\<forall>i < length (concat (concat ?pss)). flash_img cells (memory s') i = map_chunks8 (dec8 key) (concat (concat ?pss)) ! i)"
    unfolding flash_ops_def
    using flash_disk.disk_write_commands [OF inv, of 6 ?pss key image_size] unt assms(7) len
      write_cmds_packets [OF assms(5)] by auto
  then have plain: "\<And>i. i < length (concat (concat ?pss)) \<Longrightarrow>
      flash_img cells (memory (mmc s')) i = map_chunks8 (dec8 key) (cipher @ padding) ! i"
    using run(2) assms(6) by simp
  have "unat (of_nat (length img) :: u32) = length img" using size(2) by (simp add: unat_of_nat)
  then have cipher: "cipher = map_chunks8 (enc8 key) img"
    using encrypt_block_eq [of "of_nat (length img)" img key] size(1) assms(2) by simp
  then have dec: "map_chunks8 (dec8 key) (cipher @ padding) = img @ map_chunks8 (dec8 key) padding"
    using size(1) by (simp add: map_chunks8_append tea.length_ecb_enc tea.ecb_dec_enc)
  have "length img \<le> length (concat (concat ?pss))" using assms(6) cipher size(1) by (simp add: tea.length_ecb_enc)
  then have "\<exists>rest. flash_memory cells (memory (mmc s')) = img @ rest"
    using len assms(7) plain by (intro flash_memory_prefix) (auto simp: dec nth_append flash_cap_def)
  then show ?thesis using run(1,3) boot by auto
qed

text \<open>A file of one block: 401 bytes with the magic number, sent with a single command.\<close>

definition example_file :: mem where
  "example_file = replicate 392 0 @ [0x78, 0x56, 0x34, 0x12] @ replicate 8 0xAB @ [7]"

lemma example_file_sealed: "\<exists>img. FwCheck (Some example_file) = Inr img \<and> length img = 408"
proof -
  have "UserMagicNumber = le32 0x78 0x56 0x34 0x12"
    by (simp add: UserMagicNumber_def le32_def push_bit_eq_mult)
  then have "\<exists>img. FwCheck (Some example_file) = Inr img"
    by (intro FwCheck_large(2)) (simp_all add: fw_buffer_def word_at_def nth_append example_file_def)
  then obtain img where img: "FwCheck (Some example_file) = Inr img" ..
  from img obtain im1 im2 where b: "length (fw_buffer example_file) = unat (padded (of_nat (length example_file)))"
    and st: "store32 (fw_buffer example_file) ud_size (padded (of_nat (length example_file))) = Some im1"
      "store32 im1 ud_check 0 = Some im2"
      "store32 im2 ud_check (0 - word_sum im2 (length (fw_buffer example_file) div 4)) = Some img"
    by (rule FwCheck_Inr_cases)
  have "unat (padded (of_nat (length example_file))) = 408"
    by (simp add: padded_def example_file_def push_bit_eq_mult drop_bit_eq_div)
  then have "length img = 408" using b seal_sum(4) [OF st] by simp
  with img show ?thesis by blast
qed

lemma concat_pieces: "length xs = 64 * k \<Longrightarrow> concat (map (\<lambda>i. take 64 (drop (64 * i) xs)) [0..<k]) = xs"
proof (induction k arbitrary: xs)
  case (Suc k)
  have "concat (map (\<lambda>i. take 64 (drop (64 * i) (drop 64 xs))) [0..<k]) = drop 64 xs"
    by (rule Suc.IH) (use Suc.prems in simp)
  then have "take 64 xs @ concat (map (\<lambda>i. take 64 (drop (64 * Suc i) xs)) [0..<k]) = xs"
    by (simp add: add.commute)
  then show ?case by (simp add: upt_conv_Cons map_Suc_upt [symmetric] comp_def del: upt_Suc)
qed simp

theorem firmware_update_witness:
  "\<exists>img cs s'. FwCheck (Some example_file) = Inr img
    \<and> run_events (fat12_storage (flash_ops example_chip chip_cells [1, 2, 3, 4]) 0) (host_writes cs) example_device = Some s'
    \<and> check_user False (flash_memory chip_cells (memory (mmc s'))) = Some 0"
proof -
  obtain img where img: "FwCheck (Some example_file) = Inr img" "length img = 408" using example_file_sealed by blast
  let ?cipher = "map_chunks8 (enc8 [1, 2, 3, 4]) img" and ?pad = "replicate 104 (0 :: u8)"
  let ?p = "mk_cbw 5 512 0 [0x2A, 0, 0, 0, 0, 6, 0, 0, 1, 0]"
  let ?ps = "map (\<lambda>i. take 64 (drop (64 * i) (?cipher @ ?pad))) [0..<8]"
  have len: "length ?cipher = 408" using img(2) tea.length_ecb_enc [of img "[1, 2, 3, 4]"] by simp
  have cipher: "encrypt_block img (of_nat (length img)) [1, 2, 3, 4] = Some ?cipher"
    using encrypt_block_eq [of "of_nat (length img)" img "[1, 2, 3, 4]"] img(2) by simp
  have fresh: "\<forall>i. \<not> flash_erased (memory (mmc example_device)) i"
    by (simp add: example_device_def SetSenseData_def MsClass_def example_disk_def Fat12Emul_def flash_ImageWriter_fresh)
  have "block_command ?p 6 1 {SCSI_WRITE10, SCSI_WRITE12} write_count"
    by (rule example_block_command) (simp_all add: SCSI_of_def write_count_def cb_count10_def)
  then have "write_cmds 6 [(?p, ?ps)]" using len by (auto simp: Let_def)
  moreover have "concat (concat (map snd [(?p, ?ps)])) = ?cipher @ ?pad"
    using concat_pieces [of "?cipher @ ?pad" 8] len by simp
  moreover have "total_blocks [(?p, ?ps)] \<le> 122" by simp
  ultimately show ?thesis
    using firmware_update [OF img(1) cipher example_device_idle fresh, of "[(?p, ?ps)]" ?pad 0] img(1) by blast
qed

end
