(* ===== verification/UsbDevice.thy ===== *)
theory UsbDevice
  imports Msc
begin

unbundle bit_operations_syntax

text \<open>
  The control endpoint of the device: \<open>src/usb/usbdevice.cpp\<close>, with the ring of received packets of
  \<open>src/lib/stm32f4/src/usbhw.cpp\<close> that its data come through.  The calls to the endpoints and to the USB core are the list
  \<open>calls\<close> of the state, in order.  The descriptors are constants in flash that a generator writes (theory \<open>UsbDescr\<close>);
  they are a parameter here.  The interfaces are reached through virtual methods, a record of two functions on
  the state of the classes.  An operation returns \<open>None\<close> when the code reads or writes outside of an object or
  follows a descriptor that never ends.
\<close>

section \<open>The setup packet\<close>

record USB_SETUP_PACKET =
  bmRequestType :: u8
  bRequest :: u8
  wValue :: u16
  wIndex :: u16
  wLength :: u16

definition WB_L :: "u16 \<Rightarrow> u8" where "WB_L w = ucast w"
definition WB_H :: "u16 \<Rightarrow> u8" where "WB_H w = ucast (drop_bit 8 w)"
definition le16 :: "u8 \<Rightarrow> u8 \<Rightarrow> u16" where "le16 l h = ucast l OR push_bit 8 (ucast h)"

definition setup_packet :: "mem \<Rightarrow> USB_SETUP_PACKET" where
  "setup_packet b = \<lparr>bmRequestType = b ! 0, bRequest = b ! 1, wValue = le16 (b ! 2) (b ! 3),
     wIndex = le16 (b ! 4) (b ! 5), wLength = le16 (b ! 6) (b ! 7)\<rparr>"

datatype bmRequestTypeDir = REQUEST_HOST_TO_DEVICE | REQUEST_DEVICE_TO_HOST

datatype bmRequestTypeType = REQUEST_STANDARD | REQUEST_CLASS | REQUEST_VENDOR | REQUEST_RESERVED

datatype bmRequestTypeRecipient =
    REQUEST_TO_DEVICE | REQUEST_TO_INTERFACE | REQUEST_TO_ENDPOINT | REQUEST_TO_OTHER

text \<open>The bit fields of \<open>REQUEST_TYPE\<close>; the recipients from 3 on have no case in the code.\<close>

definition BM_Recipient :: "USB_SETUP_PACKET \<Rightarrow> bmRequestTypeRecipient" where
  "BM_Recipient p =
     (let r = bmRequestType p AND 0x1F in
      if r = 0 then REQUEST_TO_DEVICE else if r = 1 then REQUEST_TO_INTERFACE
      else if r = 2 then REQUEST_TO_ENDPOINT else REQUEST_TO_OTHER)"

definition BM_Type :: "USB_SETUP_PACKET \<Rightarrow> bmRequestTypeType" where
  "BM_Type p =
     (let t = drop_bit 5 (bmRequestType p) AND 3 in
      if t = 0 then REQUEST_STANDARD else if t = 1 then REQUEST_CLASS
      else if t = 2 then REQUEST_VENDOR else REQUEST_RESERVED)"

definition BM_Dir :: "USB_SETUP_PACKET \<Rightarrow> bmRequestTypeDir" where
  "BM_Dir p = (if bit (bmRequestType p) 7 then REQUEST_DEVICE_TO_HOST else REQUEST_HOST_TO_DEVICE)"

datatype USBStandardRequestCodes =
    USB_REQUEST_GET_STATUS | USB_REQUEST_CLEAR_FEATURE | USB_REQUEST_SET_FEATURE
  | USB_REQUEST_SET_ADDRESS | USB_REQUEST_GET_DESCRIPTOR | USB_REQUEST_SET_DESCRIPTOR
  | USB_REQUEST_GET_CONFIGURATION | USB_REQUEST_SET_CONFIGURATION | USB_REQUEST_GET_INTERFACE
  | USB_REQUEST_SET_INTERFACE | USB_REQUEST_other

definition standard_request :: "u8 \<Rightarrow> USBStandardRequestCodes" where
  "standard_request r =
     (if r = 0 then USB_REQUEST_GET_STATUS else if r = 1 then USB_REQUEST_CLEAR_FEATURE
      else if r = 3 then USB_REQUEST_SET_FEATURE else if r = 5 then USB_REQUEST_SET_ADDRESS
      else if r = 6 then USB_REQUEST_GET_DESCRIPTOR else if r = 7 then USB_REQUEST_SET_DESCRIPTOR
      else if r = 8 then USB_REQUEST_GET_CONFIGURATION else if r = 9 then USB_REQUEST_SET_CONFIGURATION
      else if r = 10 then USB_REQUEST_GET_INTERFACE else if r = 11 then USB_REQUEST_SET_INTERFACE
      else USB_REQUEST_other)"

definition USB_FEATURE_ENDPOINT_STALL :: u16 where "USB_FEATURE_ENDPOINT_STALL = 0"
definition USB_FEATURE_REMOTE_WAKEUP :: u16 where "USB_FEATURE_REMOTE_WAKEUP = 1"
definition USB_GETSTATUS_SELF_POWERED :: u16 where "USB_GETSTATUS_SELF_POWERED = 1"
definition USB_GETSTATUS_REMOTE_WAKEUP :: u16 where "USB_GETSTATUS_REMOTE_WAKEUP = 2"
definition USB_CONFIG_POWERED_MASK :: u8 where "USB_CONFIG_POWERED_MASK = 0x40"

datatype USBDescriptorTypes =
    USB_DEVICE_DESCRIPTOR_TYPE | USB_CONFIGURATION_DESCRIPTOR_TYPE | USB_STRING_DESCRIPTOR_TYPE
  | USB_INTERFACE_DESCRIPTOR_TYPE | USB_ENDPOINT_DESCRIPTOR_TYPE | USB_DEVICE_QUALIFIER_DESCRIPTOR_TYPE
  | USB_other_DESCRIPTOR_TYPE

definition descriptor_type :: "u8 \<Rightarrow> USBDescriptorTypes" where
  "descriptor_type t =
     (if t = 1 then USB_DEVICE_DESCRIPTOR_TYPE else if t = 2 then USB_CONFIGURATION_DESCRIPTOR_TYPE
      else if t = 3 then USB_STRING_DESCRIPTOR_TYPE else if t = 4 then USB_INTERFACE_DESCRIPTOR_TYPE
      else if t = 5 then USB_ENDPOINT_DESCRIPTOR_TYPE else if t = 6 then USB_DEVICE_QUALIFIER_DESCRIPTOR_TYPE
      else USB_other_DESCRIPTOR_TYPE)"

section \<open>The state\<close>

definition MaxPhyEps :: nat where "MaxPhyEps = 4"
definition MaxIfaces :: nat where "MaxIfaces = 5"
definition USB_MAX_PACKET0 :: nat where "USB_MAX_PACKET0 = 64"
definition USB_POWER :: u16 where "USB_POWER = 0"
definition Ep0MaxBuffers :: nat where "Ep0MaxBuffers = 4"

text \<open>What the generator leaves in flash.\<close>

record UsbDescriptors =
  UsbDeviceDescriptor :: mem
  UsbDeviceDescriptorLen :: u32
  UsbConfigDescriptor :: mem
  UsbStringDescriptor :: mem

text \<open>The objects \<open>EP0Data.pData\<close> points into; a pointer is an object and an offset.\<close>

datatype object =
    Null | Obj_DeviceStatus | Obj_Configuration | Obj_AltSetting | Obj_EP0Buf
  | Obj_DeviceDescriptor | Obj_ConfigDescriptor | Obj_StringDescriptor

text \<open>The received packets of endpoint 0: read index, write index, number of packets, and the packets.\<close>

record Ep0Buffer =
  ri :: nat
  wi :: nat
  le :: nat
  pb :: "(nat \<times> mem) list"

datatype usb_call =
    Ep0Write mem
  | SetStallEP nat UsbEndpointDir
  | ClrStallEP nat UsbEndpointDir
  | EnableEP nat UsbEndpointDir
  | DisableEP nat UsbEndpointDir
  | ResetEP nat UsbEndpointDir
  | SetAddress u8
  | Configure bool
  | ConfigEP u8

record 'c usbdev =
  USB_DeviceStatus :: u16
  USB_DeviceAddress :: u8
  USB_Configuration :: u8
  USB_EndPointMask :: u32
  USB_AltSetting :: mem
  USB_EndPointHalt :: u32
  USB_EndPointStall :: u32
  useeps :: nat
  useifs :: u32
  SetupPacket :: USB_SETUP_PACKET
  EP0Buf :: mem
  pData :: "object \<times> nat"
  Count :: u16
  Ep0Buf :: Ep0Buffer
  UsbIsConfigured :: bool
  classes :: 'c
  calls :: "usb_call list"

text \<open>The virtual methods of an interface: the action with the calls it makes on the device, and the reaction to a command.\<close>

record 'c UsbInterface =
  if_SetupHandler :: "USB_SETUP_PACKET \<Rightarrow> 'c \<Rightarrow> IfacePostRunAction \<times> msc_event list \<times> 'c"
  if_CommandHandler :: "USB_SETUP_PACKET \<Rightarrow> mem \<Rightarrow> 'c \<Rightarrow> 'c"

text \<open>The static object at the start, with the endpoints that \<open>buildDev\<close> counted.\<close>

definition initial_device :: "nat \<Rightarrow> 'c \<Rightarrow> 'c usbdev" where
  "initial_device n c = \<lparr>USB_DeviceStatus = 0, USB_DeviceAddress = 0, USB_Configuration = 0, USB_EndPointMask = 0,
     USB_AltSetting = replicate MaxIfaces 0, USB_EndPointHalt = 0, USB_EndPointStall = 0, useeps = n, useifs = 0,
     SetupPacket = \<lparr>bmRequestType = 0, bRequest = 0, wValue = 0, wIndex = 0, wLength = 0\<rparr>,
     EP0Buf = replicate USB_MAX_PACKET0 0, pData = (Null, 0), Count = 0,
     Ep0Buf = \<lparr>ri = 0, wi = 0, le = 0, pb = replicate Ep0MaxBuffers (0, replicate 64 0)\<rparr>,
     UsbIsConfigured = False, classes = c, calls = []\<rparr>"

definition call :: "usb_call \<Rightarrow> 'c usbdev \<Rightarrow> 'c usbdev" where
  "call e d = d\<lparr>calls := calls d @ [e]\<rparr>"

text \<open>A call on \<open>eps [n]\<close>; the pointers from \<open>useeps\<close> on are not set.\<close>

definition ep_call :: "nat \<Rightarrow> usb_call \<Rightarrow> 'c usbdev \<Rightarrow> 'c usbdev option" where
  "ep_call n e d = (if n < useeps d then Some (call e d) else None)"

section \<open>Memory behind the data pointer\<close>

definition bytes16 :: "u16 \<Rightarrow> mem" where "bytes16 w = [WB_L w, WB_H w]"

definition object_bytes :: "UsbDescriptors \<Rightarrow> 'c usbdev \<Rightarrow> object \<Rightarrow> mem" where
  "object_bytes D d ob = (case ob of
       Null \<Rightarrow> []
     | Obj_DeviceStatus \<Rightarrow> bytes16 (USB_DeviceStatus d)
     | Obj_Configuration \<Rightarrow> [USB_Configuration d]
     | Obj_AltSetting \<Rightarrow> USB_AltSetting d
     | Obj_EP0Buf \<Rightarrow> EP0Buf d
     | Obj_DeviceDescriptor \<Rightarrow> UsbDeviceDescriptor D
     | Obj_ConfigDescriptor \<Rightarrow> UsbConfigDescriptor D
     | Obj_StringDescriptor \<Rightarrow> UsbStringDescriptor D)"

definition object_read :: "UsbDescriptors \<Rightarrow> 'c usbdev \<Rightarrow> object \<times> nat \<Rightarrow> nat \<Rightarrow> mem option" where
  "object_read D d p n =
     (let m = object_bytes D d (fst p) in
      if snd p + n \<le> length m then Some (take n (drop (snd p) m)) else None)"

definition put_at :: "nat \<Rightarrow> mem \<Rightarrow> mem \<Rightarrow> mem option" where
  "put_at a bs m =
     (if a + length bs \<le> length m then Some (take a m @ bs @ drop (a + length bs) m) else None)"

text \<open>The descriptors are constants.\<close>

definition object_write :: "object \<times> nat \<Rightarrow> mem \<Rightarrow> 'c usbdev \<Rightarrow> 'c usbdev option" where
  "object_write p bs d = (if bs = [] then Some d else case fst p of
       Obj_DeviceStatus \<Rightarrow>
         map_option (\<lambda>m. d\<lparr>USB_DeviceStatus := le16 (m ! 0) (m ! 1)\<rparr>)
           (put_at (snd p) bs (bytes16 (USB_DeviceStatus d)))
     | Obj_Configuration \<Rightarrow>
         map_option (\<lambda>m. d\<lparr>USB_Configuration := m ! 0\<rparr>) (put_at (snd p) bs [USB_Configuration d])
     | Obj_AltSetting \<Rightarrow>
         map_option (\<lambda>m. d\<lparr>USB_AltSetting := m\<rparr>) (put_at (snd p) bs (USB_AltSetting d))
     | Obj_EP0Buf \<Rightarrow> map_option (\<lambda>m. d\<lparr>EP0Buf := m\<rparr>) (put_at (snd p) bs (EP0Buf d))
     | _ \<Rightarrow> None)"

section \<open>Reading endpoint 0\<close>

text \<open>\<open>UsbEndpoint::Read\<close> for the address 0: the oldest packet, or nothing.\<close>

definition Ep0Read :: "'c usbdev \<Rightarrow> (mem \<times> 'c usbdev) option" where
  "Ep0Read d =
     (let r = Ep0Buf d in
      if le r = 0 then Some ([], d)
      else let (len, tbuf) = pb r ! ri r in
        if len \<le> length tbuf
        then Some (take len tbuf, d\<lparr>Ep0Buf := r\<lparr>ri := (ri r + 1) mod Ep0MaxBuffers, le := le r - 1\<rparr>\<rparr>)
        else None)"

section \<open>Reset and stages\<close>

definition ResetCore :: "'c usbdev \<Rightarrow> 'c usbdev" where
  "ResetCore d = d\<lparr>USB_DeviceStatus := USB_POWER, USB_DeviceAddress := 0, USB_Configuration := 0,
     USB_EndPointMask := 0x00010001, USB_EndPointHalt := 0, USB_EndPointStall := 0\<rparr>"

definition SetupStage :: "mem \<Rightarrow> 'c usbdev \<Rightarrow> 'c usbdev" where
  "SetupStage pkt d = d\<lparr>SetupPacket := setup_packet pkt\<rparr>"

definition DataInStage :: "UsbDescriptors \<Rightarrow> 'c usbdev \<Rightarrow> 'c usbdev option" where
  "DataInStage D d =
     (let cnt = (if unat (Count d) > USB_MAX_PACKET0 then USB_MAX_PACKET0 else unat (Count d)) in
      if cnt = 0 then Some d
      else Option.bind (object_read D d (pData d) cnt) (\<lambda>bs.
        let d = call (Ep0Write bs) d
        in Some (d\<lparr>pData := (fst (pData d), snd (pData d) + cnt), Count := Count d - of_nat cnt\<rparr>)))"

definition DataOutStage :: "'c usbdev \<Rightarrow> 'c usbdev option" where
  "DataOutStage d =
     Option.bind (Ep0Read d) (\<lambda>(bs, d).
     Option.bind (object_write (pData d) bs d) (\<lambda>d.
     Some (d\<lparr>pData := (fst (pData d), snd (pData d) + length bs), Count := Count d - of_nat (length bs)\<rparr>)))"

definition StatusInStage :: "'c usbdev \<Rightarrow> 'c usbdev" where
  "StatusInStage d = call (Ep0Write []) d"

definition StatusOutStage :: "'c usbdev \<Rightarrow> 'c usbdev option" where
  "StatusOutStage d = Option.bind (Ep0Read d) (\<lambda>(bs, d). object_write (Obj_EP0Buf, 0) bs d)"

definition SetStallMask :: "u32 \<Rightarrow> 'c usbdev \<Rightarrow> 'c usbdev" where
  "SetStallMask msk d = d\<lparr>USB_EndPointStall := USB_EndPointStall d OR msk\<rparr>"

definition ClrStallMask :: "u32 \<Rightarrow> 'c usbdev \<Rightarrow> 'c usbdev" where
  "ClrStallMask msk d = d\<lparr>USB_EndPointStall := msk\<rparr>"

definition SetStallHaltMask :: "u32 \<Rightarrow> 'c usbdev \<Rightarrow> 'c usbdev" where
  "SetStallHaltMask msk d = d\<lparr>USB_EndPointStall := USB_EndPointStall d OR msk,
     USB_EndPointHalt := USB_EndPointHalt d OR msk\<rparr>"

text \<open>The calls of a class on the device; those on its own endpoint do not concern the device.\<close>

definition class_call :: "msc_event \<Rightarrow> 'c usbdev \<Rightarrow> 'c usbdev" where
  "class_call e d = (case e of
       DevSetStallMask m \<Rightarrow> SetStallMask m d
     | DevClrStallMask m \<Rightarrow> ClrStallMask m d
     | DevSetStallHaltMask m \<Rightarrow> SetStallHaltMask m d
     | _ \<Rightarrow> d)"

section \<open>Standard requests\<close>

definition bool_word :: "bool \<Rightarrow> u8" where "bool_word b = (if b then 1 else 0)"

text \<open>The bit of an endpoint address in the masks: IN endpoints in the upper half.\<close>

definition ep_number :: "u8 \<Rightarrow> nat" where "ep_number n = unat (n AND 0x0F)"
definition ep_dir :: "u8 \<Rightarrow> UsbEndpointDir" where
  "ep_dir n = (if n AND 0x80 \<noteq> 0 then EndpointIn else EndpointOut)"
definition ep_bit :: "nat \<Rightarrow> UsbEndpointDir \<Rightarrow> u32" where
  "ep_bit k dir = (if dir = EndpointIn then push_bit k (push_bit 16 1) else push_bit k 1)"
definition ep_mask :: "u8 \<Rightarrow> u32" where "ep_mask n = ep_bit (ep_number n) (ep_dir n)"

definition status_word :: "bool \<Rightarrow> 'c usbdev \<Rightarrow> 'c usbdev" where
  "status_word b d = d\<lparr>EP0Buf := bool_word b # 0 # drop 2 (EP0Buf d), pData := (Obj_EP0Buf, 0)\<rparr>"

definition ReqGetStatus :: "'c usbdev \<Rightarrow> bool \<times> 'c usbdev" where
  "ReqGetStatus d =
     (let idx = WB_L (wIndex (SetupPacket d)) in
      case BM_Recipient (SetupPacket d) of
        REQUEST_TO_DEVICE \<Rightarrow> (True, d\<lparr>pData := (Obj_DeviceStatus, 0)\<rparr>)
      | REQUEST_TO_INTERFACE \<Rightarrow>
          if USB_Configuration d \<noteq> 0 \<and> ucast idx < useifs d then (True, status_word False d)
          else (False, d)
      | REQUEST_TO_ENDPOINT \<Rightarrow>
          let n = idx AND 0x8F; m = ep_mask n in
          if (USB_Configuration d \<noteq> 0 \<or> ep_number n = 0) \<and> USB_EndPointMask d AND m \<noteq> 0
          then (True, status_word (USB_EndPointHalt d AND m \<noteq> 0) d)
          else (False, d)
      | REQUEST_TO_OTHER \<Rightarrow> (False, d))"

definition ReqSetClrFeature :: "bool \<Rightarrow> 'c usbdev \<Rightarrow> (bool \<times> 'c usbdev) option" where
  "ReqSetClrFeature sc d =
     (case BM_Recipient (SetupPacket d) of
        REQUEST_TO_DEVICE \<Rightarrow>
          if wValue (SetupPacket d) = USB_FEATURE_REMOTE_WAKEUP then
            Some (True, d\<lparr>USB_DeviceStatus :=
              (if sc then USB_DeviceStatus d OR USB_GETSTATUS_REMOTE_WAKEUP
               else USB_DeviceStatus d AND NOT USB_GETSTATUS_REMOTE_WAKEUP)\<rparr>)
          else Some (False, d)
      | REQUEST_TO_INTERFACE \<Rightarrow> Some (False, d)
      | REQUEST_TO_ENDPOINT \<Rightarrow>
          let n = WB_L (wIndex (SetupPacket d)) AND 0x8F; m = ep_mask n in
          if USB_Configuration d \<noteq> 0 \<and> ep_number n \<noteq> 0 \<and> USB_EndPointMask d AND m \<noteq> 0 then
            if wValue (SetupPacket d) = USB_FEATURE_ENDPOINT_STALL then
              if sc then
                Option.bind (ep_call (ep_number n) (SetStallEP (ep_number n) (ep_dir n)) d) (\<lambda>d.
                Some (True, d\<lparr>USB_EndPointHalt := USB_EndPointHalt d OR m\<rparr>))
              else if USB_EndPointStall d AND m \<noteq> 0 then Some (True, d)
              else
                Option.bind (ep_call (ep_number n) (ClrStallEP (ep_number n) (ep_dir n)) d) (\<lambda>d.
                Some (True, d\<lparr>USB_EndPointHalt := USB_EndPointHalt d AND NOT m\<rparr>))
            else Some (False, d)
          else Some (False, d)
      | REQUEST_TO_OTHER \<Rightarrow> Some (False, d))"

definition ReqSetAddress :: "'c usbdev \<Rightarrow> bool \<times> 'c usbdev" where
  "ReqSetAddress d =
     (if BM_Recipient (SetupPacket d) = REQUEST_TO_DEVICE then
        let v = WB_L (wValue (SetupPacket d)) in
        (True, call (SetAddress v) (d\<lparr>USB_DeviceAddress := 0x80 OR v\<rparr>))
      else (False, d))"

section \<open>Descriptors\<close>

definition read8 :: "mem \<Rightarrow> nat \<Rightarrow> u8 option" where
  "read8 m a = (if a < length m then Some (m ! a) else None)"

definition read16 :: "mem \<Rightarrow> nat \<Rightarrow> u16 option" where
  "read16 m a = (if a + 2 \<le> length m then Some (le16 (m ! a) (m ! (a + 1))) else None)"

text \<open>The loops that skip the first descriptors of a kind.\<close>

primrec skip_configs :: "mem \<Rightarrow> nat \<Rightarrow> nat \<Rightarrow> nat option" where
  "skip_configs m 0 pD = Some pD"
| "skip_configs m (Suc n) pD =
     Option.bind (read8 m pD) (\<lambda>bLength.
     if bLength \<noteq> 0
     then Option.bind (read16 m (pD + 2)) (\<lambda>wTotalLength. skip_configs m n (pD + unat wTotalLength))
     else skip_configs m n pD)"

primrec skip_strings :: "mem \<Rightarrow> nat \<Rightarrow> nat \<Rightarrow> nat option" where
  "skip_strings m 0 pD = Some pD"
| "skip_strings m (Suc n) pD =
     Option.bind (read8 m pD) (\<lambda>bLength.
     if bLength \<noteq> 0 then skip_strings m n (pD + unat bLength) else skip_strings m n pD)"

definition limit_count :: "u32 \<Rightarrow> 'c usbdev \<Rightarrow> 'c usbdev" where
  "limit_count len d = (if ucast (Count d) > len then d\<lparr>Count := ucast len\<rparr> else d)"

definition sizeof_DEVICE_QUALIFIER :: u32 where "sizeof_DEVICE_QUALIFIER = 10"

definition ReqGetDescriptor :: "UsbDescriptors \<Rightarrow> 'c usbdev \<Rightarrow> (bool \<times> 'c usbdev) option" where
  "ReqGetDescriptor D d =
     (let index = unat (WB_L (wValue (SetupPacket d))) in
      if BM_Recipient (SetupPacket d) = REQUEST_TO_DEVICE then
        (case descriptor_type (WB_H (wValue (SetupPacket d))) of
           USB_DEVICE_DESCRIPTOR_TYPE \<Rightarrow>
             Some (True, limit_count (UsbDeviceDescriptorLen D) (d\<lparr>pData := (Obj_DeviceDescriptor, 0)\<rparr>))
         | USB_CONFIGURATION_DESCRIPTOR_TYPE \<Rightarrow>
             let m = UsbConfigDescriptor D in
             Option.bind (skip_configs m index 0) (\<lambda>pD.
             Option.bind (read8 m pD) (\<lambda>bLength.
             if bLength = 0 then Some (False, d)
             else Option.bind (read16 m (pD + 2)) (\<lambda>wTotalLength.
               Some (True, limit_count (ucast wTotalLength) (d\<lparr>pData := (Obj_ConfigDescriptor, pD)\<rparr>)))))
         | USB_STRING_DESCRIPTOR_TYPE \<Rightarrow>
             let m = UsbStringDescriptor D in
             Option.bind (skip_strings m index 0) (\<lambda>pD.
             Option.bind (read8 m pD) (\<lambda>bLength.
             if bLength = 0 then Some (False, d)
             else Some (True, limit_count (ucast bLength) (d\<lparr>pData := (Obj_StringDescriptor, pD)\<rparr>))))
         | USB_DEVICE_QUALIFIER_DESCRIPTOR_TYPE \<Rightarrow> Some (True, limit_count sizeof_DEVICE_QUALIFIER d)
         | _ \<Rightarrow> Some (False, d))
      else Some (False, d))"

definition ReqGetConfiguration :: "'c usbdev \<Rightarrow> bool \<times> 'c usbdev" where
  "ReqGetConfiguration d =
     (if BM_Recipient (SetupPacket d) = REQUEST_TO_DEVICE
      then (True, d\<lparr>pData := (Obj_Configuration, 0)\<rparr>) else (False, d))"

section \<open>Selecting a configuration\<close>

text \<open>The loop that switches the endpoints of the masks off.\<close>

definition disable_at :: "nat \<Rightarrow> 'c usbdev \<Rightarrow> 'c usbdev option" where
  "disable_at n d =
     Option.bind (if USB_EndPointMask d AND ep_bit n EndpointOut \<noteq> 0
                  then ep_call n (DisableEP n EndpointOut) d else Some d) (\<lambda>d.
     if USB_EndPointMask d AND ep_bit n EndpointIn \<noteq> 0
     then ep_call n (DisableEP n EndpointIn) d else Some d)"

primrec disable_loop :: "nat list \<Rightarrow> 'c usbdev \<Rightarrow> 'c usbdev option" where
  "disable_loop [] d = Some d"
| "disable_loop (n # ns) d = Option.bind (disable_at n d) (disable_loop ns)"

definition disable_endpoints :: "'c usbdev \<Rightarrow> 'c usbdev option" where
  "disable_endpoints d =
     Option.bind (disable_loop [1..<MaxPhyEps] d) (\<lambda>d.
     Some (d\<lparr>USB_EndPointMask := 0x00010001, USB_EndPointHalt := 0, USB_EndPointStall := 0\<rparr>))"

text \<open>What a configuration descriptor with the wanted value does.\<close>

definition enter_configuration :: "u8 \<Rightarrow> u8 \<Rightarrow> u8 \<Rightarrow> 'c usbdev \<Rightarrow> 'c usbdev option" where
  "enter_configuration val bNumInterfaces bmAttributes d =
     Option.bind (disable_endpoints (d\<lparr>USB_Configuration := val, useifs := ucast bNumInterfaces,
         USB_AltSetting := replicate MaxIfaces 0\<rparr>)) (\<lambda>d.
     let d = (call (Configure True) d)\<lparr>UsbIsConfigured := True\<rparr> in
     Some (d\<lparr>USB_DeviceStatus :=
       (if bmAttributes AND USB_CONFIG_POWERED_MASK \<noteq> 0
        then USB_DeviceStatus d OR USB_GETSTATUS_SELF_POWERED
        else USB_DeviceStatus d AND NOT USB_GETSTATUS_SELF_POWERED)\<rparr>))"

text \<open>Switching the endpoint of a descriptor on.\<close>

definition enable_endpoint :: "u8 \<Rightarrow> 'c usbdev \<Rightarrow> 'c usbdev option" where
  "enable_endpoint n d =
     (let d = call (ConfigEP n) d in
      Option.bind (ep_call (ep_number n) (EnableEP (ep_number n) (ep_dir n)) d)
        (ep_call (ep_number n) (ResetEP (ep_number n) (ep_dir n))))"

text \<open>The walk over the descriptors; \<open>alt\<close> is the alternate setting of the last interface.\<close>

partial_function (option) set_config_loop ::
  "mem \<Rightarrow> u8 \<Rightarrow> nat \<Rightarrow> u8 \<Rightarrow> 'c usbdev \<Rightarrow> 'c usbdev option" where
  "set_config_loop m val pD alt d =
     Option.bind (read8 m pD) (\<lambda>bLength.
     if bLength = 0 then Some d else
     Option.bind (read8 m (pD + 1)) (\<lambda>bDescriptorType.
     case descriptor_type bDescriptorType of
       USB_CONFIGURATION_DESCRIPTOR_TYPE \<Rightarrow>
         Option.bind (read8 m (pD + 5)) (\<lambda>bConfigurationValue.
         if bConfigurationValue = val then
           Option.bind (read8 m (pD + 4)) (\<lambda>bNumInterfaces.
           Option.bind (read8 m (pD + 7)) (\<lambda>bmAttributes.
           Option.bind (enter_configuration val bNumInterfaces bmAttributes d)
             (set_config_loop m val (pD + unat bLength) alt)))
         else
           Option.bind (read16 m (pD + 2)) (\<lambda>wTotalLength.
           set_config_loop m val (pD + unat wTotalLength) alt d))
     | USB_INTERFACE_DESCRIPTOR_TYPE \<Rightarrow>
         Option.bind (read8 m (pD + 3)) (\<lambda>bAlternateSetting.
         set_config_loop m val (pD + unat bLength) bAlternateSetting d)
     | USB_ENDPOINT_DESCRIPTOR_TYPE \<Rightarrow>
         if alt = 0 then
           Option.bind (read8 m (pD + 2)) (\<lambda>bEndpointAddress.
           let n = bEndpointAddress AND 0x8F;
               d = d\<lparr>USB_EndPointMask := USB_EndPointMask d OR ep_mask n\<rparr>
           in Option.bind (enable_endpoint n d) (set_config_loop m val (pD + unat bLength) alt))
         else set_config_loop m val (pD + unat bLength) alt d
     | _ \<Rightarrow> set_config_loop m val (pD + unat bLength) alt d))"

definition ReqSetConfiguration :: "UsbDescriptors \<Rightarrow> 'c usbdev \<Rightarrow> (bool \<times> 'c usbdev) option" where
  "ReqSetConfiguration D d =
     (let val = WB_L (wValue (SetupPacket d)) in
      if BM_Recipient (SetupPacket d) = REQUEST_TO_DEVICE then
        Option.bind
          (if val \<noteq> 0 then set_config_loop (UsbConfigDescriptor D) val 0 0 d
           else map_option (call (Configure False)) (disable_endpoints (d\<lparr>USB_Configuration := 0\<rparr>))) (\<lambda>d.
        Some (USB_Configuration d = val, d))
      else Some (False, d))"

definition ReqGetInterface :: "'c usbdev \<Rightarrow> bool \<times> 'c usbdev" where
  "ReqGetInterface d =
     (let idx = WB_L (wIndex (SetupPacket d)) in
      if BM_Recipient (SetupPacket d) = REQUEST_TO_INTERFACE
          \<and> USB_Configuration d \<noteq> 0 \<and> ucast idx < useifs d
      then (True, d\<lparr>pData := (Obj_AltSetting, unat idx)\<rparr>) else (False, d))"

text \<open>The local variables of the walk of \<open>ReqSetInterface\<close>.\<close>

record set_interface_vars =
  si_ifn :: u8
  si_alt :: u8
  si_old :: u8
  si_msk :: u32
  si_set :: bool

definition si_interface :: "u8 \<Rightarrow> u8 \<Rightarrow> u8 \<Rightarrow> u8 \<Rightarrow> set_interface_vars \<Rightarrow> 'c usbdev \<Rightarrow>
    (set_interface_vars \<times> 'c usbdev) option" where
  "si_interface idx val ifn alt v d =
     (let v = v\<lparr>si_ifn := ifn, si_alt := alt, si_msk := 0\<rparr> in
      if ifn = idx \<and> alt = val then
        if unat ifn < length (USB_AltSetting d)
        then Some (v\<lparr>si_set := True, si_old := USB_AltSetting d ! unat ifn\<rparr>,
                   d\<lparr>USB_AltSetting := (USB_AltSetting d)[unat ifn := alt]\<rparr>)
        else None
      else Some (v, d))"

definition si_endpoint :: "u8 \<Rightarrow> u8 \<Rightarrow> u8 \<Rightarrow> set_interface_vars \<Rightarrow> 'c usbdev \<Rightarrow>
    (set_interface_vars \<times> 'c usbdev) option" where
  "si_endpoint idx val n v d =
     (if si_ifn v = idx then
        let m = ep_mask n in
        if si_alt v = val then
          let d = d\<lparr>USB_EndPointMask := USB_EndPointMask d OR m,
                    USB_EndPointHalt := USB_EndPointHalt d AND NOT m\<rparr>
          in Option.bind (enable_endpoint n d) (\<lambda>d. Some (v\<lparr>si_msk := si_msk v OR m\<rparr>, d))
        else if si_alt v = si_old v \<and> si_msk v AND m = 0 then
          let d = d\<lparr>USB_EndPointMask := USB_EndPointMask d AND NOT m,
                    USB_EndPointHalt := USB_EndPointHalt d AND NOT m\<rparr>
          in Option.bind (ep_call (ep_number n) (DisableEP (ep_number n) (ep_dir n)) d) (\<lambda>d. Some (v, d))
        else Some (v, d)
      else Some (v, d))"

partial_function (option) set_interface_loop ::
  "mem \<Rightarrow> u8 \<Rightarrow> u8 \<Rightarrow> nat \<Rightarrow> set_interface_vars \<Rightarrow> 'c usbdev \<Rightarrow> (set_interface_vars \<times> 'c usbdev) option" where
  "set_interface_loop m idx val pD v d =
     Option.bind (read8 m pD) (\<lambda>bLength.
     if bLength = 0 then Some (v, d) else
     Option.bind (read8 m (pD + 1)) (\<lambda>bDescriptorType.
     case descriptor_type bDescriptorType of
       USB_CONFIGURATION_DESCRIPTOR_TYPE \<Rightarrow>
         Option.bind (read8 m (pD + 5)) (\<lambda>bConfigurationValue.
         if bConfigurationValue \<noteq> USB_Configuration d then
           Option.bind (read16 m (pD + 2)) (\<lambda>wTotalLength.
           set_interface_loop m idx val (pD + unat wTotalLength) v d)
         else set_interface_loop m idx val (pD + unat bLength) v d)
     | USB_INTERFACE_DESCRIPTOR_TYPE \<Rightarrow>
         Option.bind (read8 m (pD + 2)) (\<lambda>ifn.
         Option.bind (read8 m (pD + 3)) (\<lambda>alt.
         Option.bind (si_interface idx val ifn alt v d) (\<lambda>vd.
         set_interface_loop m idx val (pD + unat bLength) (fst vd) (snd vd))))
     | USB_ENDPOINT_DESCRIPTOR_TYPE \<Rightarrow>
         Option.bind (read8 m (pD + 2)) (\<lambda>bEndpointAddress.
         Option.bind (si_endpoint idx val (bEndpointAddress AND 0x8F) v d) (\<lambda>vd.
         set_interface_loop m idx val (pD + unat bLength) (fst vd) (snd vd)))
     | _ \<Rightarrow> set_interface_loop m idx val (pD + unat bLength) v d))"

definition ReqSetInterface :: "UsbDescriptors \<Rightarrow> 'c usbdev \<Rightarrow> (bool \<times> 'c usbdev) option" where
  "ReqSetInterface D d =
     (if BM_Recipient (SetupPacket d) = REQUEST_TO_INTERFACE \<and> USB_Configuration d \<noteq> 0 then
        Option.bind (set_interface_loop (UsbConfigDescriptor D) (WB_L (wIndex (SetupPacket d)))
            (WB_L (wValue (SetupPacket d))) 0
            \<lparr>si_ifn = 0, si_alt = 0, si_old = 0, si_msk = 0, si_set = False\<rparr> d) (\<lambda>(v, d).
        Some (si_set v, d))
      else Some (False, d))"

section \<open>Class requests\<close>

definition stall_control :: "'c usbdev \<Rightarrow> 'c usbdev" where
  "stall_control d = (call (SetStallEP 0 EndpointIn) d)\<lparr>Count := 0\<rparr>"

definition Ep0SetupClass ::
  "UsbDescriptors \<Rightarrow> 'c UsbInterface list \<Rightarrow> 'c usbdev \<Rightarrow> 'c usbdev option" where
  "Ep0SetupClass D ifs d =
     (if BM_Recipient (SetupPacket d) = REQUEST_TO_INTERFACE then
        let tmp = unat (WB_L (wIndex (SetupPacket d))) in
        if tmp < length ifs then
          let (act, evs, c) = if_SetupHandler (ifs ! tmp) (SetupPacket d) (classes d);
              d = fold class_call evs (d\<lparr>classes := c\<rparr>)
          in case act of
               IfacePostRunActionDoNothing \<Rightarrow> Some d
             | IfacePostRunActionStatusIn \<Rightarrow> Some (StatusInStage d)
             | IfacePostRunActionSetData \<Rightarrow> Some (d\<lparr>pData := (Obj_EP0Buf, 0)\<rparr>)
             | IfacePostRunActionMscLun \<Rightarrow> DataInStage D (status_word False d)
             | IfacePostRunActionSetDataIn \<Rightarrow> DataInStage D (d\<lparr>pData := (Obj_EP0Buf, 0)\<rparr>)
             | IfacePostRunActionStall \<Rightarrow> Some (stall_control d)
        else None
      else Some (stall_control d))"

definition Ep0OutClass :: "'c UsbInterface list \<Rightarrow> 'c usbdev \<Rightarrow> 'c usbdev option" where
  "Ep0OutClass ifs d =
     (if BM_Recipient (SetupPacket d) = REQUEST_TO_INTERFACE then
        let tmp = unat (WB_L (wIndex (SetupPacket d))) in
        if tmp < length ifs
        then Some (StatusInStage
          (d\<lparr>classes := if_CommandHandler (ifs ! tmp) (SetupPacket d) (EP0Buf d) (classes d)\<rparr>))
        else None
      else Some (stall_control d))"

section \<open>The events of endpoint 0\<close>

text \<open>The end of a standard request: the stage that follows it, or a stall.\<close>

definition answer ::
  "('c usbdev \<Rightarrow> 'c usbdev option) \<Rightarrow> bool \<times> 'c usbdev \<Rightarrow> 'c usbdev option" where
  "answer stage r = (if fst r then stage (snd r) else Some (stall_control (snd r)))"

definition Ep0EventSetup ::
  "UsbDescriptors \<Rightarrow> 'c UsbInterface list \<Rightarrow> mem \<Rightarrow> 'c usbdev \<Rightarrow> 'c usbdev option" where
  "Ep0EventSetup D ifs pkt d =
     (let d = SetupStage pkt d;
          d = d\<lparr>Count := wLength (SetupPacket d)\<rparr>;
          status = (\<lambda>d. Some (StatusInStage d))
      in case BM_Type (SetupPacket d) of
        REQUEST_STANDARD \<Rightarrow>
          (case standard_request (bRequest (SetupPacket d)) of
             USB_REQUEST_GET_STATUS \<Rightarrow> answer (DataInStage D) (ReqGetStatus d)
           | USB_REQUEST_CLEAR_FEATURE \<Rightarrow> Option.bind (ReqSetClrFeature False d) (answer status)
           | USB_REQUEST_SET_FEATURE \<Rightarrow> Option.bind (ReqSetClrFeature True d) (answer status)
           | USB_REQUEST_SET_ADDRESS \<Rightarrow> answer status (ReqSetAddress d)
           | USB_REQUEST_GET_DESCRIPTOR \<Rightarrow> Option.bind (ReqGetDescriptor D d) (answer (DataInStage D))
           | USB_REQUEST_SET_DESCRIPTOR \<Rightarrow> Some (stall_control d)
           | USB_REQUEST_GET_CONFIGURATION \<Rightarrow> answer (DataInStage D) (ReqGetConfiguration d)
           | USB_REQUEST_SET_CONFIGURATION \<Rightarrow> Option.bind (ReqSetConfiguration D d) (answer status)
           | USB_REQUEST_GET_INTERFACE \<Rightarrow> answer (DataInStage D) (ReqGetInterface d)
           | USB_REQUEST_SET_INTERFACE \<Rightarrow> Option.bind (ReqSetInterface D d) (answer status)
           | USB_REQUEST_other \<Rightarrow> Some (stall_control d))
      | REQUEST_CLASS \<Rightarrow> Ep0SetupClass D ifs d
      | _ \<Rightarrow> Some (stall_control d))"

definition Ep0EventOut :: "'c UsbInterface list \<Rightarrow> 'c usbdev \<Rightarrow> 'c usbdev option" where
  "Ep0EventOut ifs d =
     (if BM_Dir (SetupPacket d) = REQUEST_HOST_TO_DEVICE then
        if Count d \<noteq> 0 then
          Option.bind (DataOutStage d) (\<lambda>d.
          if Count d = 0 then
            if BM_Type (SetupPacket d) = REQUEST_CLASS then Ep0OutClass ifs d
            else Some (stall_control d)
          else Some d)
        else Some d
      else StatusOutStage d)"

definition Ep0EventIn :: "UsbDescriptors \<Rightarrow> 'c usbdev \<Rightarrow> 'c usbdev option" where
  "Ep0EventIn D d =
     (if BM_Dir (SetupPacket d) = REQUEST_DEVICE_TO_HOST then DataInStage D d
      else if USB_DeviceAddress d AND 0x80 \<noteq> 0 then
        let d = d\<lparr>USB_DeviceAddress := USB_DeviceAddress d AND 0x7F\<rparr>
        in Some (call (SetAddress (USB_DeviceAddress d)) d)
      else Some d)"

datatype EndpointCallbackEvents =
    EVT_SETUP mem | EVT_OUT mem | EVT_IN | EVT_OUT_NAK | EVT_IN_NAK | EVT_OUT_STALL | EVT_IN_STALL

definition Ep0Handler ::
  "UsbDescriptors \<Rightarrow> 'c UsbInterface list \<Rightarrow> EndpointCallbackEvents \<Rightarrow> 'c usbdev \<Rightarrow> 'c usbdev option" where
  "Ep0Handler D ifs event d = (case event of
       EVT_SETUP pkt \<Rightarrow> Ep0EventSetup D ifs pkt d
     | EVT_OUT _ \<Rightarrow> Ep0EventOut ifs d
     | EVT_IN \<Rightarrow> Ep0EventIn D d
     | EVT_OUT_STALL \<Rightarrow> Some (call (ClrStallEP 0 EndpointOut) d)
     | EVT_IN_STALL \<Rightarrow> Some (call (ClrStallEP 0 EndpointIn) d)
     | _ \<Rightarrow> Some d)"

text \<open>
  A packet for endpoint 0 is stored in the ring before the handler runs, and a packet that the handler
  left there is dropped afterwards (\<open>UsbHw::Ep0OutHandler\<close>).
\<close>

definition store_packet :: "mem \<Rightarrow> Ep0Buffer \<Rightarrow> Ep0Buffer" where
  "store_packet pkt r =
     (let buf = take 64 pkt @ drop (length pkt) (snd (pb r ! wi r)) in
      if pkt \<noteq> []
      then r\<lparr>pb := (pb r)[wi r := (length pkt, buf)], wi := (wi r + 1) mod Ep0MaxBuffers, le := le r + 1\<rparr>
      else r)"

definition drop_packet :: "nat \<Rightarrow> 'c usbdev \<Rightarrow> 'c usbdev option" where
  "drop_packet k d =
     (if le (Ep0Buf d) = 0 then Some d
      else Option.bind (Ep0Read d) (\<lambda>(bs, d).
        let r = Ep0Buf d; (len, buf) = pb r ! k
        in Some (d\<lparr>Ep0Buf := r\<lparr>pb := (pb r)[k := (len, bs @ drop (length bs) buf)]\<rparr>\<rparr>)))"

definition Ep0OutHandler :: "UsbDescriptors \<Rightarrow> 'c UsbInterface list \<Rightarrow> mem \<Rightarrow> 'c usbdev \<Rightarrow> 'c usbdev option" where
  "Ep0OutHandler D ifs pkt d =
     (let k = wi (Ep0Buf d) in
      Option.bind (Ep0Handler D ifs (EVT_OUT pkt) (d\<lparr>Ep0Buf := store_packet pkt (Ep0Buf d)\<rparr>)) (drop_packet k))"

text \<open>An event of the USB core, and a sequence of them.\<close>

definition control_event ::
  "UsbDescriptors \<Rightarrow> 'c UsbInterface list \<Rightarrow> EndpointCallbackEvents \<Rightarrow> 'c usbdev \<Rightarrow> 'c usbdev option" where
  "control_event D ifs event d =
     (case event of EVT_OUT pkt \<Rightarrow> Ep0OutHandler D ifs pkt d | _ \<Rightarrow> Ep0Handler D ifs event d)"

primrec control_events ::
  "UsbDescriptors \<Rightarrow> 'c UsbInterface list \<Rightarrow> EndpointCallbackEvents list \<Rightarrow> 'c usbdev \<Rightarrow> 'c usbdev option" where
  "control_events D ifs [] d = Some d"
| "control_events D ifs (e # es) d = Option.bind (control_event D ifs e d) (control_events D ifs es)"

text \<open>The interface of the mass storage class.\<close>

definition MscIface :: "'s msc UsbInterface" where
  "MscIface = \<lparr>
     if_SetupHandler = (\<lambda>p s.
       let (act, s') = SetupHandler (bRequest p) (wValue p) (wLength p) s
       in (act, drop (length (out s)) (out s'), s')),
     if_CommandHandler = (\<lambda>p buf s. s)\<rparr>"

end
