(* ===== verification/UsbDescr.thy ===== *)
theory UsbDescr
  imports UsbDevice
begin

unbundle bit_operations_syntax

text \<open>
  The generator of the descriptors: the parts under \<open>DSCBLD\<close> of \<open>usbdevice.cpp\<close>, \<open>usbclass.cpp\<close>,
  \<open>usbinterface.cpp\<close>, \<open>usbendpoint.cpp\<close> and \<open>msclass.cpp\<close> in \<open>src/usb\<close>, and the numbering of the endpoints by
  \<open>buildDev\<close>.  It is run on a PC and prints the three constants that the device serves.  A class is the list of
  its interfaces; a text is a list of bytes without the terminating zero.
\<close>

section \<open>Interfaces and their numbering\<close>

datatype UsbEndpointType = EndpointTypeCtrl | EndpointTypeIso | EndpointTypeBulk | EndpointTypeIntr

definition ep_type_code :: "UsbEndpointType \<Rightarrow> u8" where
  "ep_type_code t = (case t of
       EndpointTypeCtrl \<Rightarrow> 0 | EndpointTypeIso \<Rightarrow> 1 | EndpointTypeBulk \<Rightarrow> 2 | EndpointTypeIntr \<Rightarrow> 3)"

record iface_config =
  ic_NumEndpoints :: u8
  ic_Class :: u8
  ic_SubClass :: u8
  ic_Protocol :: u8
  ic_String :: "mem option"
  ic_type :: UsbEndpointType

text \<open>The interface of the mass storage class.\<close>

definition MscIface_config :: "mem option \<Rightarrow> iface_config" where
  "MscIface_config StrDesc = \<lparr>ic_NumEndpoints = 2, ic_Class = 0x08, ic_SubClass = 0x06, ic_Protocol = 0x50,
     ic_String = StrDesc, ic_type = EndpointTypeBulk\<rparr>"

text \<open>
  \<open>buildDev\<close> gives every interface the next endpoint and the next place in \<open>ifs\<close>; the result is
  the number of endpoints, the interfaces with their endpoint addresses, and \<open>None\<close> when an array is too short.
\<close>

primrec build_ifaces :: "iface_config list \<Rightarrow> nat \<times> (iface_config \<times> u8) list \<Rightarrow>
    (nat \<times> (iface_config \<times> u8) list) option" where
  "build_ifaces [] s = Some s"
| "build_ifaces (i # is) s =
     (if fst s < MaxPhyEps \<and> length (snd s) < MaxIfaces
      then build_ifaces is (fst s + 1, snd s @ [(i, of_nat (fst s))]) else None)"

primrec build_classes :: "iface_config list list \<Rightarrow> nat \<times> (iface_config \<times> u8) list \<Rightarrow>
    (nat \<times> (iface_config \<times> u8) list) option" where
  "build_classes [] s = Some s"
| "build_classes (c # cs) s = Option.bind (build_ifaces c s) (build_classes cs)"

definition buildDev :: "iface_config list list \<Rightarrow> (nat \<times> (iface_config \<times> u8) list) option" where
  "buildDev cs = build_classes cs (1, [])"

section \<open>Strings\<close>

definition MaxUsbStrings :: nat where "MaxUsbStrings = 32"

record string_table =
  StrCount :: nat
  StringField :: "(nat \<times> mem) list"

definition no_strings :: string_table where
  "no_strings = \<lparr>StrCount = 0, StringField = replicate MaxUsbStrings (0, [])\<rparr>"

definition AddString :: "mem option \<Rightarrow> string_table \<Rightarrow> (u8 \<times> string_table) option" where
  "AddString str t = (case str of
       None \<Rightarrow> Some (0, t)
     | Some s \<Rightarrow>
         if StrCount t < length (StringField t)
         then Some (of_nat (StrCount t + 1),
                t\<lparr>StringField := (StringField t)[StrCount t := (StrCount t + 1, s)], StrCount := StrCount t + 1\<rparr>)
         else None)"

section \<open>The descriptors\<close>

text \<open>\<open>UsbEndpoint::enumerate\<close>: the length of the endpoint descriptors.\<close>

definition ep_enumerate :: "UsbEndpointType \<Rightarrow> nat \<Rightarrow> nat" where
  "ep_enumerate type res =
     (let res = res + 7 in
      if type = EndpointTypeBulk \<or> type = EndpointTypeIso then res + 7 else res)"

text \<open>\<open>UsbEndpoint::blddsc\<close> with \<open>setBulk\<close> and \<open>setIntr\<close>; the other types print nothing.\<close>

definition ep_descriptor :: "u8 \<Rightarrow> UsbEndpointType \<Rightarrow> u16 \<Rightarrow> u8 \<Rightarrow> mem" where
  "ep_descriptor addr type wMaxPacketSize bInterval =
     [7, 5, addr, ep_type_code type] @ bytes16 wMaxPacketSize @ [bInterval]"

definition ep_blddsc :: "u8 \<Rightarrow> UsbEndpointType \<Rightarrow> mem" where
  "ep_blddsc addr type =
     (let out_addr = addr AND 0x0F; in_addr = out_addr OR 0x80 in
      case type of
        EndpointTypeBulk \<Rightarrow> ep_descriptor out_addr type 64 0 @ ep_descriptor in_addr type 64 0
      | EndpointTypeIntr \<Rightarrow> ep_descriptor in_addr type 16 2
      | _ \<Rightarrow> [])"

text \<open>
  \<open>UsbInterface::enumerate\<close> and what the class adds: the number of the interface, its string, and the
  length so far; then \<open>UsbInterface::blddsc\<close>.
\<close>

definition iface_enumerate :: "iface_config \<Rightarrow> nat \<times> string_table \<Rightarrow> (u8 \<times> nat \<times> string_table) option" where
  "iface_enumerate i s =
     map_option (\<lambda>(iInterface, t). (iInterface, ep_enumerate (ic_type i) (fst s + 9), t))
       (AddString (ic_String i) (snd s))"

definition iface_blddsc :: "u8 \<Rightarrow> u8 \<Rightarrow> iface_config \<times> u8 \<Rightarrow> mem" where
  "iface_blddsc bInterfaceNumber iInterface i =
     [9, 4, bInterfaceNumber, 0, ic_NumEndpoints (fst i), ic_Class (fst i), ic_SubClass (fst i),
      ic_Protocol (fst i), iInterface] @ ep_blddsc (snd i) (ic_type (fst i))"

text \<open>All interfaces in the order of the lists: the strings they get, and then their descriptors.\<close>

primrec enumerate_ifaces :: "iface_config list \<Rightarrow> nat \<times> string_table \<Rightarrow> (u8 list \<times> nat \<times> string_table) option" where
  "enumerate_ifaces [] s = Some ([], s)"
| "enumerate_ifaces (i # is) s =
     Option.bind (iface_enumerate i s) (\<lambda>(str, s).
     map_option (\<lambda>(strs, s). (str # strs, s)) (enumerate_ifaces is s))"

definition ifaces_blddsc :: "(iface_config \<times> u8) list \<Rightarrow> u8 list \<Rightarrow> mem" where
  "ifaces_blddsc is strs =
     concat (map (\<lambda>(k, i, s). iface_blddsc (of_nat k) s i) (zip [0..<length is] (zip is strs)))"

definition blddev :: "u8 \<Rightarrow> u8 \<Rightarrow> u8 \<Rightarrow> mem" where
  "blddev iManufacturer iProduct iSerialNumber =
     [18, 1] @ bytes16 0x200 @ [0, 0, 0, 64] @ bytes16 0x0483 @ bytes16 0x5740 @ bytes16 0x0100
     @ [iManufacturer, iProduct, iSerialNumber, 1]"

definition config_header :: "nat \<Rightarrow> nat \<Rightarrow> mem" where
  "config_header len nifs = [9, 2] @ bytes16 (of_nat len) @ [of_nat nifs, 1, 0, 0x80, 50]"

definition bldcfg :: "(iface_config \<times> u8) list \<Rightarrow> string_table \<Rightarrow> (mem \<times> string_table) option" where
  "bldcfg is t =
     map_option (\<lambda>(strs, len, t). (config_header len (length is) @ ifaces_blddsc is strs, t))
       (enumerate_ifaces (map fst is) (0 + 9, t))"

definition string_descriptor :: "mem \<Rightarrow> mem" where
  "string_descriptor str = [of_nat (2 * (length str + 1)), 3] @ concat (map (\<lambda>c. [c, 0]) str)"

definition bldstr :: "string_table \<Rightarrow> mem" where
  "bldstr t = [0x04, 0x03, 0x09, 0x04]
     @ concat (map (\<lambda>(index, str). if index = 0 then [] else string_descriptor str) (StringField t))"

text \<open>\<open>UsbDevice::blddsc\<close>: the three constants of the generated file.\<close>

definition blddsc :: "mem option \<Rightarrow> mem option \<Rightarrow> mem option \<Rightarrow> iface_config list list \<Rightarrow> UsbDescriptors option" where
  "blddsc sManufacturer sProduct sSerialNumber cs =
     Option.bind (buildDev cs) (\<lambda>(useeps, is).
     Option.bind (AddString sManufacturer no_strings) (\<lambda>(m, t).
     Option.bind (AddString sProduct t) (\<lambda>(p, t).
     Option.bind (AddString sSerialNumber t) (\<lambda>(s, t).
     Option.bind (bldcfg is t) (\<lambda>(cfg, t).
     Some \<lparr>UsbDeviceDescriptor = blddev m p s, UsbDeviceDescriptorLen = of_nat (length (blddev m p s)),
       UsbConfigDescriptor = cfg, UsbStringDescriptor = bldstr t\<rparr>)))))"

end
