(* ===== verification/UsbDeviceSpec.thy ===== *)
theory UsbDeviceSpec
  imports UsbDescr
begin

unbundle bit_operations_syntax

text \<open>
  What the control endpoint promises: the data a request transfers, the endpoints a configuration switches on, the
  address after its status stage, and the invariant of the state under every sequence of events.
\<close>

named_theorems dev_simps \<open>the state of the device under the operations that do not concern a part of it\<close>

section \<open>Words and reads\<close>

lemma le16_parts [simp]: "le16 (WB_L w) (WB_H w) = w"
  by (rule bit_word_eqI) (auto simp: le16_def WB_L_def WB_H_def bit_simps)

lemma WB_le16 [simp]: "WB_L (le16 l h) = l" "WB_H (le16 l h) = h"
  by (rule bit_word_eqI, auto simp: le16_def WB_L_def WB_H_def bit_simps dest: bit_imp_le_length)+

lemma WB_L_ucast [simp]: "WB_L (ucast (n :: u8)) = n"
  by (rule bit_word_eqI) (auto simp: WB_L_def bit_simps dest: bit_imp_le_length)

lemma bytes16_nth [simp]: "bytes16 w = [WB_L w, WB_H w]"
  by (simp add: bytes16_def)

lemma unat_widen [simp]:
  "unat (ucast (w :: u16) :: u32) = unat w" "unat (ucast (b :: u8) :: u32) = unat b"
proof -
  have "unat w < 65536" "unat b < 256" using unsigned_less [of w, where 'a = nat]
    unsigned_less [of b, where 'a = nat] by simp_all
  then show "unat (ucast w :: u32) = unat w" "unat (ucast b :: u32) = unat b"
    by (simp_all add: unsigned_ucast_eq take_bit_nat_eq_self)
qed

lemma unat_narrow: "unat (x :: u32) < 65536 \<Longrightarrow> unat (ucast x :: u16) = unat x"
  by (simp add: unsigned_ucast_eq take_bit_nat_eq_self)

lemma read8_mid: "k < length b \<Longrightarrow> read8 (a @ b @ c) (length a + k) = Some (b ! k)"
  by (simp add: read8_def nth_append)

lemma read16_mid: "k + 1 < length b \<Longrightarrow> read16 (a @ b @ c) (length a + k) = Some (le16 (b ! k) (b ! (k + 1)))"
  by (simp add: read16_def nth_append)

section \<open>Descriptors as data\<close>

text \<open>
  The descriptors inside of a configuration: an interface, an endpoint, or one that the device
  does not interpret.  A configuration is its value, the number of its interfaces, the index of its string, its attributes,
  its current, and its descriptors.
\<close>

datatype descr = D_interface u8 u8 mem | D_endpoint u8 mem | D_other u8 mem

fun descr_bytes :: "descr \<Rightarrow> mem" where
  "descr_bytes (D_interface num alt rest) = [9, 4, num, alt] @ rest"
| "descr_bytes (D_endpoint addr rest) = [7, 5, addr] @ rest"
| "descr_bytes (D_other ty rest) = [of_nat (length rest + 2), ty] @ rest"

fun descr_ok :: "descr \<Rightarrow> bool" where
  "descr_ok (D_interface num alt rest) = (length rest = 5)"
| "descr_ok (D_endpoint addr rest) = (length rest = 4)"
| "descr_ok (D_other ty rest) = (length rest \<le> 253 \<and> ty \<notin> {2, 4, 5})"

record config =
  cf_value :: u8
  cf_interfaces :: u8
  cf_string :: u8
  cf_attributes :: u8
  cf_power :: u8
  cf_descrs :: "descr list"

definition descrs_bytes :: "descr list \<Rightarrow> mem" where
  "descrs_bytes ds = concat (map descr_bytes ds)"

definition config_bytes :: "config \<Rightarrow> mem" where
  "config_bytes c =
     [9, 2] @ bytes16 (of_nat (9 + length (descrs_bytes (cf_descrs c))))
     @ [cf_interfaces c, cf_value c, cf_string c, cf_attributes c, cf_power c] @ descrs_bytes (cf_descrs c)"

definition config_ok :: "config \<Rightarrow> bool" where
  "config_ok c \<longleftrightarrow> (\<forall>x \<in> set (cf_descrs c). descr_ok x) \<and> length (config_bytes c) < 65536"

definition string_bytes :: "mem \<Rightarrow> mem" where
  "string_bytes s = [of_nat (length s + 2), 3] @ s"

text \<open>A device, its configurations and its strings; the two lists of descriptors end with a zero byte.\<close>

record layout =
  lay_device :: mem
  lay_configs :: "config list"
  lay_strings :: "mem list"

definition layout_ok :: "layout \<Rightarrow> bool" where
  "layout_ok L \<longleftrightarrow> length (lay_device L) < 65536 \<and> (\<forall>c \<in> set (lay_configs L). config_ok c)
     \<and> (\<forall>s \<in> set (lay_strings L). length s \<le> 253)"

definition stored :: "layout \<Rightarrow> UsbDescriptors" where
  "stored L = \<lparr>UsbDeviceDescriptor = lay_device L, UsbDeviceDescriptorLen = of_nat (length (lay_device L)),
     UsbConfigDescriptor = concat (map config_bytes (lay_configs L)) @ [0],
     UsbStringDescriptor = concat (map string_bytes (lay_strings L)) @ [0]\<rparr>"

text \<open>The descriptor of a type and an index.\<close>

definition wanted :: "layout \<Rightarrow> USBDescriptorTypes \<Rightarrow> nat \<Rightarrow> mem option" where
  "wanted L ty k = (case ty of
       USB_DEVICE_DESCRIPTOR_TYPE \<Rightarrow> Some (lay_device L)
     | USB_CONFIGURATION_DESCRIPTOR_TYPE \<Rightarrow>
         if k < length (lay_configs L) then Some (config_bytes (lay_configs L ! k)) else None
     | USB_STRING_DESCRIPTOR_TYPE \<Rightarrow>
         if k < length (lay_strings L) then Some (string_bytes (lay_strings L ! k)) else None
     | _ \<Rightarrow> None)"

section \<open>Data to the host\<close>

text \<open>The packets of a transfer.\<close>

fun packets_of :: "mem \<Rightarrow> mem list" where
  "packets_of bs = (if bs = [] then [] else take 64 bs # packets_of (drop 64 bs))"

declare packets_of.simps [simp del]

lemma packets_of_Nil [simp]: "packets_of [] = []"
  by (subst packets_of.simps) simp

lemma packets_of_Cons: "bs \<noteq> [] \<Longrightarrow> packets_of bs = take 64 bs # packets_of (drop 64 bs)"
  by (subst packets_of.simps) simp

lemma concat_packets: "concat (packets_of bs) = bs"
  by (induction bs rule: packets_of.induct) (subst packets_of.simps, simp)

lemma length_packets: "length bs \<le> 64 * n \<Longrightarrow> length (packets_of bs) \<le> n"
proof (induction n arbitrary: bs)
  case (Suc n)
  then show ?case
    using Suc.IH [of "drop 64 bs"] packets_of_Cons [of bs] by (cases "bs = []") auto
qed simp

text \<open>What is still to be sent.\<close>

definition pending :: "UsbDescriptors \<Rightarrow> 'c usbdev \<Rightarrow> mem option" where
  "pending D d = object_read D d (pData d) (unat (Count d))"

lemma object_bytes_frame [dev_simps]:
  "object_bytes D (call e d) ob = object_bytes D d ob"
  "object_bytes D (d\<lparr>pData := p\<rparr>) ob = object_bytes D d ob"
  "object_bytes D (d\<lparr>Count := n\<rparr>) ob = object_bytes D d ob"
  "object_bytes D (d\<lparr>SetupPacket := sp\<rparr>) ob = object_bytes D d ob"
  by (simp_all add: object_bytes_def call_def split: object.splits)

lemma object_read_Some:
  "object_read D d p n = Some bs \<longleftrightarrow>
   snd p + n \<le> length (object_bytes D d (fst p)) \<and> bs = take n (drop (snd p) (object_bytes D d (fst p)))"
  by (auto simp: object_read_def Let_def)

lemma DataInStage_pending:
  assumes "pending D d = Some bs"
  obtains d' where "DataInStage D d = Some d'" and "pending D d' = Some (drop 64 bs)"
    and "calls d' = calls d @ (if bs = [] then [] else [Ep0Write (take 64 bs)])"
    and "SetupPacket d' = SetupPacket d"
proof -
  define cnt where "cnt = (if unat (Count d) > USB_MAX_PACKET0 then USB_MAX_PACKET0 else unat (Count d))"
  have len: "length bs = unat (Count d)"
    using assms by (auto simp: pending_def object_read_Some)
  have cnt: "cnt \<le> unat (Count d)" "cnt \<le> 64" "cnt = min 64 (length bs)"
    using len by (auto simp: cnt_def USB_MAX_PACKET0_def)
  show ?thesis
  proof (cases "cnt = 0")
    case True
    then have "bs = []" using cnt(3) by (auto simp: min_def split: if_splits)
    moreover have "DataInStage D d = Some d" using True by (simp add: DataInStage_def cnt_def Let_def)
    ultimately show ?thesis using assms that by simp
  next
    case False
    define d' where "d' = (call (Ep0Write (take 64 bs)) d)
      \<lparr>pData := (fst (pData d), snd (pData d) + cnt), Count := Count d - of_nat cnt\<rparr>"
    have read: "object_read D d (pData d) cnt = Some (take 64 bs)"
      using assms cnt by (auto simp: pending_def object_read_Some min_def)
    have "DataInStage D d = Some d'"
      using False read by (simp add: DataInStage_def cnt_def [symmetric] Let_def d'_def call_def)
    moreover have "unat (Count d - of_nat cnt) = unat (Count d) - cnt"
      using cnt(1,2) by (simp add: unat_sub_if_size unat_of_nat take_bit_nat_eq_self unsigned_less
          word_le_nat_alt)
    then have "pending D d' = Some (drop 64 bs)"
      using assms cnt by (auto simp: pending_def object_read_Some d'_def dev_simps drop_take min_def add.commute)
    moreover have "bs \<noteq> []" using False cnt(3) by auto
    ultimately show ?thesis using that by (simp add: d'_def call_def)
  qed
qed


lemma EVT_IN_data:
  "BM_Dir (SetupPacket d) = REQUEST_DEVICE_TO_HOST \<Longrightarrow> control_event D ifs EVT_IN d = DataInStage D d"
  by (simp add: control_event_def Ep0Handler_def Ep0EventIn_def)

lemma data_packets:
  assumes "pending D d = Some bs" and "BM_Dir (SetupPacket d) = REQUEST_DEVICE_TO_HOST"
  shows "\<exists>d'. control_events D ifs (replicate k EVT_IN) d = Some d' \<and>
    calls d' = calls d @ map Ep0Write (take k (packets_of bs))"
  using assms
proof (induction k arbitrary: d bs)
  case (Suc k)
  obtain d1 where d1: "DataInStage D d = Some d1" "pending D d1 = Some (drop 64 bs)"
    "calls d1 = calls d @ (if bs = [] then [] else [Ep0Write (take 64 bs)])" "SetupPacket d1 = SetupPacket d"
    using DataInStage_pending [OF Suc.prems(1)] by blast
  obtain d2 where "control_events D ifs (replicate k EVT_IN) d1 = Some d2"
    "calls d2 = calls d1 @ map Ep0Write (take k (packets_of (drop 64 bs)))"
    using Suc.IH [OF d1(2)] Suc.prems(2) d1(4) by auto
  then show ?case
    using d1 Suc.prems(2) packets_of_Cons [of bs] by (cases "bs = []") (auto simp: EVT_IN_data)
qed simp

lemma data_stage_packets:
  assumes "pending D d = Some bs" and "BM_Dir (SetupPacket d) = REQUEST_DEVICE_TO_HOST"
  shows "\<exists>d'. Option.bind (DataInStage D d) (control_events D ifs (replicate k EVT_IN)) = Some d' \<and>
    calls d' = calls d @ map Ep0Write (take (Suc k) (packets_of bs))"
  using data_packets [of D d bs ifs "Suc k"] assms by (simp add: EVT_IN_data)

lemma stalled_quiet:
  assumes "Count d = 0" and "BM_Dir (SetupPacket d) = REQUEST_DEVICE_TO_HOST"
  shows "control_events D ifs (replicate k EVT_IN) d = Some d"
  using assms by (induction k) (simp_all add: EVT_IN_data DataInStage_def)

section \<open>Finding a descriptor\<close>

lemma skip_none: "read8 m pD = Some 0 \<Longrightarrow> skip_configs m n pD = Some pD" "read8 m pD = Some 0 \<Longrightarrow> skip_strings m n pD = Some pD"
  by (induction n) auto

lemma config_bytes_nth:
  "config_ok c \<Longrightarrow> length (config_bytes c) = 9 + length (descrs_bytes (cf_descrs c))"
  "config_bytes c ! 0 = 9" "config_bytes c ! 1 = 2" "config_bytes c ! Suc 0 = 2"
  "config_bytes c ! 4 = cf_interfaces c" "config_bytes c ! 5 = cf_value c" "config_bytes c ! 7 = cf_attributes c"
  "8 < length (config_bytes c)" "config_bytes c \<noteq> []"
  by (simp_all add: config_bytes_def)

lemma config_total:
  "config_ok c \<Longrightarrow> unat (le16 (config_bytes c ! 2) (config_bytes c ! 3)) = length (config_bytes c)"
  by (simp add: config_ok_def) (simp add: config_bytes_def unat_of_nat del: of_nat_add)

lemma skip_config:
  assumes "config_ok c"
  shows "skip_configs (a @ config_bytes c @ b) (Suc n) (length a) =
    skip_configs (a @ config_bytes c @ b) n (length (a @ config_bytes c))"
  using read8_mid [of 0 "config_bytes c" a b] read16_mid [of 2 "config_bytes c" a b] config_total [OF assms]
    config_bytes_nth [of c]
  by simp

lemma skip_configs_found:
  assumes "\<forall>c \<in> set cs. config_ok c" and "m = a @ concat (map config_bytes cs) @ [0]"
  shows "skip_configs m n (length a) = Some (length (a @ concat (map config_bytes (take n cs))))"
  using assms
proof (induction cs arbitrary: n a)
  case Nil
  then show ?case by (auto intro!: skip_none simp: read8_def nth_append)
next
  case (Cons c cs)
  show ?case
  proof (cases n)
    case (Suc k)
    have "skip_configs m n (length a) = skip_configs m k (length (a @ config_bytes c))"
      using skip_config [of c a "concat (map config_bytes cs) @ [0]" k] Cons.prems Suc by simp
    then show ?thesis using Cons.IH [of "a @ config_bytes c" k] Cons.prems Suc by simp
  qed simp
qed

lemma string_bytes_nth:
  "length (string_bytes s) = length s + 2" "string_bytes s ! 0 = of_nat (length s + 2)"
  by (simp_all add: string_bytes_def)

lemma string_length:
  "length s \<le> 253 \<Longrightarrow> unat (of_nat (length s + 2) :: u8) = length s + 2"
  unfolding unat_of_nat by simp

lemma string_length_sum [simp]:
  "length s \<le> 253 \<Longrightarrow> unat (2 + word_of_nat (length s) :: u8) = length s + 2"
  using string_length [of s] by simp

lemma skip_string:
  assumes "length s \<le> 253"
  shows "skip_strings (a @ string_bytes s @ b) (Suc n) (length a) =
    skip_strings (a @ string_bytes s @ b) n (length (a @ string_bytes s))"
proof -
  have "(of_nat (length s + 2) :: u8) \<noteq> 0"
    using string_length [OF assms] by (metis add_2_eq_Suc' unsigned_0 nat.distinct(1))
  then show ?thesis
    using read8_mid [of 0 "string_bytes s" a b] string_bytes_nth [of s] string_length [OF assms]
    by (simp del: of_nat_add)
qed

lemma skip_strings_found:
  assumes "\<forall>s \<in> set ss. length s \<le> 253" and "m = a @ concat (map string_bytes ss) @ [0]"
  shows "skip_strings m n (length a) = Some (length (a @ concat (map string_bytes (take n ss))))"
  using assms
proof (induction ss arbitrary: n a)
  case Nil
  then show ?case by (auto intro!: skip_none simp: read8_def nth_append)
next
  case (Cons s ss)
  show ?case
  proof (cases n)
    case (Suc k)
    have "skip_strings m n (length a) = skip_strings m k (length (a @ string_bytes s))"
      using skip_string [of s a "concat (map string_bytes ss) @ [0]" k] Cons.prems Suc by simp
    then show ?thesis using Cons.IH [of "a @ string_bytes s" k] Cons.prems Suc by simp
  qed simp
qed

lemma skip_strings_within:
  assumes "\<forall>s \<in> set ss. length s \<le> 253" and "m = a @ concat (map string_bytes ss) @ t" and "n \<le> length ss"
  shows "skip_strings m n (length a) = Some (length (a @ concat (map string_bytes (take n ss))))"
  using assms
proof (induction ss arbitrary: n a)
  case (Cons s ss)
  show ?case
  proof (cases n)
    case (Suc k)
    have "skip_strings m n (length a) = skip_strings m k (length (a @ string_bytes s))"
      using skip_string [of s a "concat (map string_bytes ss) @ t" k] Cons.prems Suc by simp
    then show ?thesis using Cons.IH [of "a @ string_bytes s" k] Cons.prems Suc by simp
  qed simp
qed simp

lemma concat_split:
  assumes "n < length cs"
  shows "concat (map f cs) @ t = concat (map f (take n cs)) @ f (cs ! n) @ (concat (map f (drop (Suc n) cs)) @ t)"
  using id_take_nth_drop [OF assms] by (metis append.assoc concat.simps(2) concat_append list.map(2) map_append)


section \<open>The control read\<close>

text \<open>The bytes of a setup packet.\<close>

definition request :: "u8 \<Rightarrow> u8 \<Rightarrow> u16 \<Rightarrow> u16 \<Rightarrow> u16 \<Rightarrow> mem" where
  "request ty r v i w = [ty, r, WB_L v, WB_H v, WB_L i, WB_H i, WB_L w, WB_H w]"

lemma setup_request [simp]:
  "setup_packet (request ty r v i w) = \<lparr>bmRequestType = ty, bRequest = r, wValue = v, wIndex = i, wLength = w\<rparr>"
  by (simp add: setup_packet_def request_def eval_nat_numeral)

definition get_descriptor :: "u8 \<Rightarrow> u8 \<Rightarrow> u16 \<Rightarrow> u16 \<Rightarrow> mem" where
  "get_descriptor ty k lang w = request 0x80 6 (le16 k ty) lang w"

lemma get_descriptor_setup:
  "setup_packet (get_descriptor ty k lang w) =
     \<lparr>bmRequestType = 0x80, bRequest = 6, wValue = le16 k ty, wIndex = lang, wLength = w\<rparr>"
  by (simp add: get_descriptor_def)

text \<open>The request types: to the device or an endpoint, with data to the host or from it.\<close>

lemma request_bits:
  "bmRequestType p \<in> {0, 0x80, 2, 0x82} \<Longrightarrow> BM_Type p = REQUEST_STANDARD"
  "bmRequestType p \<in> {0, 0x80} \<Longrightarrow> BM_Recipient p = REQUEST_TO_DEVICE"
  "bmRequestType p \<in> {2, 0x82} \<Longrightarrow> BM_Recipient p = REQUEST_TO_ENDPOINT"
  "bmRequestType p \<in> {0x80, 0x82} \<Longrightarrow> BM_Dir p = REQUEST_DEVICE_TO_HOST"
  "bmRequestType p \<in> {0, 2} \<Longrightarrow> BM_Dir p = REQUEST_HOST_TO_DEVICE"
  by (auto simp: BM_Type_def BM_Recipient_def BM_Dir_def Let_def)

lemma limit_count_simps [dev_simps]:
  "calls (limit_count len d) = calls d" "SetupPacket (limit_count len d) = SetupPacket d"
  "pData (limit_count len d) = pData d" "object_bytes D (limit_count len d) ob = object_bytes D d ob"
  by (simp_all add: limit_count_def dev_simps)

lemma limit_count_value:
  "unat len < 65536 \<Longrightarrow> unat (Count (limit_count len d)) = min (unat (Count d)) (unat len)"
proof -
  assume len: "unat len < 65536"
  then show ?thesis using unat_narrow [OF len] by (auto simp: limit_count_def word_less_nat_alt)
qed

lemma limited_pending:
  assumes "pData d = (ob, off)" and "object_bytes D d ob = a @ bs @ b" and "off = length a"
    and "unat len = length bs" and "length bs < 65536" and "unat (Count d) = w"
  shows "pending D (limit_count len d) = Some (take w bs)"
  using assms limit_count_value [of len d]
  by (auto simp: pending_def object_read_Some dev_simps min_def)

text \<open>What \<open>ReqGetDescriptor\<close> makes ready.\<close>

lemma ReqGetDescriptor_wanted:
  assumes "layout_ok L" and "BM_Recipient (SetupPacket d) = REQUEST_TO_DEVICE"
    and "descriptor_type (WB_H (wValue (SetupPacket d))) \<noteq> USB_DEVICE_QUALIFIER_DESCRIPTOR_TYPE"
  shows "\<exists>d'. ReqGetDescriptor (stored L) d =
      Some (wanted L (descriptor_type (WB_H (wValue (SetupPacket d)))) (unat (WB_L (wValue (SetupPacket d)))) \<noteq> None, d')
    \<and> calls d' = calls d \<and> SetupPacket d' = SetupPacket d
    \<and> (\<forall>bs. wanted L (descriptor_type (WB_H (wValue (SetupPacket d)))) (unat (WB_L (wValue (SetupPacket d)))) = Some bs
        \<longrightarrow> pending (stored L) d' = Some (take (unat (Count d)) bs))"
proof -
  let ?k = "unat (WB_L (wValue (SetupPacket d)))"
  consider (dev) "descriptor_type (WB_H (wValue (SetupPacket d))) = USB_DEVICE_DESCRIPTOR_TYPE"
    | (cfg) "descriptor_type (WB_H (wValue (SetupPacket d))) = USB_CONFIGURATION_DESCRIPTOR_TYPE"
    | (str) "descriptor_type (WB_H (wValue (SetupPacket d))) = USB_STRING_DESCRIPTOR_TYPE"
    | (no) "descriptor_type (WB_H (wValue (SetupPacket d))) \<in>
        {USB_INTERFACE_DESCRIPTOR_TYPE, USB_ENDPOINT_DESCRIPTOR_TYPE, USB_other_DESCRIPTOR_TYPE}"
    using assms(3) by (cases "descriptor_type (WB_H (wValue (SetupPacket d)))") auto
  then show ?thesis
  proof cases
    case dev
    have "pending (stored L) (limit_count (UsbDeviceDescriptorLen (stored L)) (d\<lparr>pData := (Obj_DeviceDescriptor, 0)\<rparr>))
        = Some (take (unat (Count d)) (lay_device L))"
      using assms(1) by (intro limited_pending [where a = "[]" and b = "[]" and ob = Obj_DeviceDescriptor])
        (auto simp: object_bytes_def stored_def layout_ok_def unat_of_nat)
    then show ?thesis
      using dev assms(2) by (simp add: ReqGetDescriptor_def Let_def wanted_def dev_simps)
  next
    case cfg
    define m where "m = UsbConfigDescriptor (stored L)"
    define off where "off = length (concat (map config_bytes (take ?k (lay_configs L))))"
    have skip: "skip_configs m ?k 0 = Some off"
      using skip_configs_found [of "lay_configs L" m "[]" ?k] assms(1)
      by (simp add: m_def stored_def layout_ok_def off_def)
    show ?thesis
    proof (cases "?k < length (lay_configs L)")
      case True
      define c where "c = lay_configs L ! ?k"
      have ok: "config_ok c" using assms(1) True by (simp add: c_def layout_ok_def)
      obtain a b where m: "m = a @ config_bytes c @ b" and a: "length a = off"
        using concat_split [OF True, of config_bytes "[0]"] by (auto simp: m_def stored_def c_def off_def)
      have "pending (stored L) (limit_count (ucast (le16 (config_bytes c ! 2) (config_bytes c ! 3)))
          (d\<lparr>pData := (Obj_ConfigDescriptor, off)\<rparr>)) = Some (take (unat (Count d)) (config_bytes c))"
        using a m config_total [OF ok] ok
        by (intro limited_pending [where a = a and b = b and ob = Obj_ConfigDescriptor])
          (auto simp: object_bytes_def m_def config_ok_def)
      moreover have "read8 m off = Some 9" "read16 m (off + 2) = Some (le16 (config_bytes c ! 2) (config_bytes c ! 3))"
        using read8_mid [of 0 "config_bytes c" a b] read16_mid [of 2 "config_bytes c" a b] config_bytes_nth [of c] m a
        by auto
      ultimately show ?thesis
        using cfg True assms(2) skip
        by (simp add: ReqGetDescriptor_def Let_def wanted_def dev_simps m_def [symmetric] c_def [symmetric])
    next
      case False
      then have "read8 m off = Some 0" by (simp add: m_def stored_def off_def read8_def nth_append)
      then show ?thesis
        using cfg False assms(2) skip by (auto simp: ReqGetDescriptor_def Let_def wanted_def m_def [symmetric])
    qed
  next
    case str
    define m where "m = UsbStringDescriptor (stored L)"
    define off where "off = length (concat (map string_bytes (take ?k (lay_strings L))))"
    have skip: "skip_strings m ?k 0 = Some off"
      using skip_strings_found [of "lay_strings L" m "[]" ?k] assms(1)
      by (simp add: m_def stored_def layout_ok_def off_def)
    show ?thesis
    proof (cases "?k < length (lay_strings L)")
      case True
      define s where "s = lay_strings L ! ?k"
      have ok: "length s \<le> 253" using assms(1) True by (simp add: s_def layout_ok_def)
      obtain a b where m: "m = a @ string_bytes s @ b" and a: "length a = off"
        using concat_split [OF True, of string_bytes "[0]"] by (auto simp: m_def stored_def s_def off_def)
      define bl where "bl = (of_nat (length s + 2) :: u8)"
      have bl: "unat bl = length s + 2" using string_length [OF ok] by (simp add: bl_def)
      then have "bl \<noteq> 0" by auto
      moreover have "pending (stored L) (limit_count (ucast bl)
          (d\<lparr>pData := (Obj_StringDescriptor, off)\<rparr>)) = Some (take (unat (Count d)) (string_bytes s))"
        using a m bl ok by (intro limited_pending [where a = a and b = b and ob = Obj_StringDescriptor])
          (auto simp: object_bytes_def m_def string_bytes_nth)
      moreover have "read8 m off = Some bl"
        using read8_mid [of 0 "string_bytes s" a b] string_bytes_nth [of s] m a by (auto simp: bl_def)
      ultimately show ?thesis
        using str True assms(2) skip
        by (simp add: ReqGetDescriptor_def Let_def wanted_def dev_simps m_def [symmetric] s_def [symmetric])
    next
      case False
      then have "read8 m off = Some 0" by (simp add: m_def stored_def off_def read8_def nth_append)
      then show ?thesis
        using str False assms(2) skip by (auto simp: ReqGetDescriptor_def Let_def wanted_def m_def [symmetric])
    qed
  next
    case no
    then show ?thesis using assms(2) by (auto simp: ReqGetDescriptor_def Let_def wanted_def)
  qed
qed


lemma stall_control_simps [dev_simps]:
  "calls (stall_control d) = calls d @ [SetStallEP 0 EndpointIn]" "Count (stall_control d) = 0"
  "SetupPacket (stall_control d) = SetupPacket d"
  by (simp_all add: stall_control_def call_def)

lemma get_descriptor_event:
  fixes d :: "'c usbdev"
  shows "control_event D ifs (EVT_SETUP (get_descriptor ty k lang w)) d =
    Option.bind (ReqGetDescriptor D (d\<lparr>SetupPacket := setup_packet (get_descriptor ty k lang w), Count := w\<rparr>))
      (answer (DataInStage D))"
  by (simp add: control_event_def Ep0Handler_def Ep0EventSetup_def SetupStage_def get_descriptor_setup
      request_bits standard_request_def Let_def)

lemma control_read_packets:
  assumes "layout_ok L" and "descriptor_type ty \<noteq> USB_DEVICE_QUALIFIER_DESCRIPTOR_TYPE"
  shows "\<exists>d'. control_events (stored L) ifs
      (EVT_SETUP (get_descriptor ty k lang w) # replicate n EVT_IN) d = Some d' \<and>
    calls d' = calls d @ (case wanted L (descriptor_type ty) (unat k) of
        Some bs \<Rightarrow> map Ep0Write (take (Suc n) (packets_of (take (unat w) bs)))
      | None \<Rightarrow> [SetStallEP 0 EndpointIn])"
proof -
  define d0 where "d0 = d\<lparr>SetupPacket := setup_packet (get_descriptor ty k lang w), Count := w\<rparr>"
  have sp: "SetupPacket d0 = \<lparr>bmRequestType = 0x80, bRequest = 6, wValue = le16 k ty, wIndex = lang, wLength = w\<rparr>"
    "Count d0 = w" "calls d0 = calls d" by (simp_all add: d0_def get_descriptor_setup)
  obtain d1 where d1: "ReqGetDescriptor (stored L) d0 = Some (wanted L (descriptor_type ty) (unat k) \<noteq> None, d1)"
    "calls d1 = calls d" "SetupPacket d1 = SetupPacket d0"
    "\<And>bs. wanted L (descriptor_type ty) (unat k) = Some bs \<Longrightarrow> pending (stored L) d1 = Some (take (unat w) bs)"
    using ReqGetDescriptor_wanted [OF assms(1), of d0] assms(2) sp by (auto simp: request_bits)
  show ?thesis
  proof (cases "wanted L (descriptor_type ty) (unat k)")
    case None
    then show ?thesis
      using d1 sp stalled_quiet [of "stall_control d1" "stored L" ifs n]
      by (simp add: get_descriptor_event d0_def [symmetric] answer_def dev_simps request_bits)
  next
    case (Some bs)
    then show ?thesis
      using d1 sp data_stage_packets [of "stored L" d1 "take (unat w) bs" ifs n]
      by (simp add: get_descriptor_event d0_def [symmetric] answer_def request_bits)
  qed
qed


section \<open>Selecting a configuration\<close>

text \<open>The endpoints of the alternate settings 0, with the direction bit and the number, and the last alternate setting.\<close>

fun active :: "u8 \<Rightarrow> descr list \<Rightarrow> u8 list" where
  "active alt [] = []"
| "active alt (D_interface num a rest # ds) = active a ds"
| "active alt (D_endpoint addr rest # ds) = (if alt = 0 then (addr AND 0x8F) # active alt ds else active alt ds)"
| "active alt (D_other ty rest # ds) = active alt ds"

fun last_alt :: "u8 \<Rightarrow> descr list \<Rightarrow> u8" where
  "last_alt alt [] = alt"
| "last_alt alt (D_interface num a rest # ds) = last_alt a ds"
| "last_alt alt (D_endpoint addr rest # ds) = last_alt alt ds"
| "last_alt alt (D_other ty rest # ds) = last_alt alt ds"

definition enable_calls :: "u8 \<Rightarrow> usb_call list" where
  "enable_calls n = [ConfigEP n, EnableEP (ep_number n) (ep_dir n), ResetEP (ep_number n) (ep_dir n)]"

definition switch_on :: "u8 list \<Rightarrow> 'c usbdev \<Rightarrow> 'c usbdev" where
  "switch_on ns d = d\<lparr>USB_EndPointMask := fold (\<lambda>n msk. msk OR ep_mask n) ns (USB_EndPointMask d),
     calls := calls d @ concat (map enable_calls ns)\<rparr>"

definition disable_calls :: "u32 \<Rightarrow> usb_call list" where
  "disable_calls msk = concat (map (\<lambda>n.
     (if msk AND ep_bit n EndpointOut \<noteq> 0 then [DisableEP n EndpointOut] else []) @
     (if msk AND ep_bit n EndpointIn \<noteq> 0 then [DisableEP n EndpointIn] else [])) [1..<MaxPhyEps])"

text \<open>The endpoints of a mask exist.\<close>

definition mask_exists :: "'c usbdev \<Rightarrow> bool" where
  "mask_exists d \<longleftrightarrow> (\<forall>n \<in> {1..<MaxPhyEps}. \<forall>dir. USB_EndPointMask d AND ep_bit n dir \<noteq> 0 \<longrightarrow> n < useeps d)"

lemma disable_loop_calls:
  assumes "\<forall>n \<in> set ns. \<forall>dir. USB_EndPointMask d AND ep_bit n dir \<noteq> 0 \<longrightarrow> n < useeps d"
  shows "disable_loop ns d = Some (d\<lparr>calls := calls d @ concat (map (\<lambda>n.
     (if USB_EndPointMask d AND ep_bit n EndpointOut \<noteq> 0 then [DisableEP n EndpointOut] else []) @
     (if USB_EndPointMask d AND ep_bit n EndpointIn \<noteq> 0 then [DisableEP n EndpointIn] else [])) ns)\<rparr>)"
  using assms
proof (induction ns arbitrary: d)
  case (Cons n ns)
  then show ?case by (auto simp: disable_at_def ep_call_def call_def)
qed simp

lemma disable_endpoints_calls:
  assumes "mask_exists d"
  shows "disable_endpoints d = Some (d\<lparr>USB_EndPointMask := 0x00010001, USB_EndPointHalt := 0, USB_EndPointStall := 0,
     calls := calls d @ disable_calls (USB_EndPointMask d)\<rparr>)"
  using disable_loop_calls [of "[1..<MaxPhyEps]" d] assms
  by (simp add: disable_endpoints_def disable_calls_def mask_exists_def)

lemma enable_endpoint_calls:
  "ep_number n < useeps d \<Longrightarrow>
   enable_endpoint n (d\<lparr>USB_EndPointMask := USB_EndPointMask d OR ep_mask n\<rparr>) = Some (switch_on [n] d)"
  by (simp add: enable_endpoint_def ep_call_def call_def switch_on_def enable_calls_def)

lemma switch_on_simps [simp]:
  "useeps (switch_on ns d) = useeps d" "switch_on ms (switch_on ns d) = switch_on (ns @ ms) d"
  "switch_on [] d = d" "USB_Configuration (switch_on ns d) = USB_Configuration d"
  by (simp_all add: switch_on_def)

lemma descr_bytes_length: "descr_ok x \<Longrightarrow> unat (descr_bytes x ! 0) = length (descr_bytes x)"
  by (cases x) simp_all

lemma descr_bytes_ge: "2 \<le> length (descr_bytes x)" "descr_bytes x \<noteq> []"
  by (cases x; simp)+

text \<open>One descriptor of the walk.\<close>

lemma walk_one:
  assumes "descr_ok x" and "m = a @ descr_bytes x @ b" and "\<forall>n \<in> set (active alt [x]). ep_number n < useeps d"
  shows "set_config_loop m val (length a) alt d =
    set_config_loop m val (length (a @ descr_bytes x)) (last_alt alt [x]) (switch_on (active alt [x]) d)"
proof -
  have r: "\<And>k. k < length (descr_bytes x) \<Longrightarrow> read8 m (length a + k) = Some (descr_bytes x ! k)"
    using assms(2) by (simp add: read8_mid)
  have len: "unat (descr_bytes x ! 0) = length (descr_bytes x)" using descr_bytes_length [OF assms(1)] .
  have nz: "descr_bytes x ! 0 \<noteq> 0" using len descr_bytes_ge [of x] by auto
  have r0: "read8 m (length a) = Some (descr_bytes x ! 0)" using r [of 0] descr_bytes_ge [of x] by simp
  have r1: "read8 m (length a + 1) = Some (descr_bytes x ! 1)" using r [of 1] descr_bytes_ge [of x] by simp
  show ?thesis
  proof (cases x)
    case (D_interface num al rest)
    then have "read8 m (length a + 3) = Some al" using r [of 3] by simp
    then show ?thesis using r0 r1 len nz D_interface
      by (subst set_config_loop.simps) (simp add: descriptor_type_def)
  next
    case (D_endpoint addr rest)
    then have "read8 m (length a + 2) = Some addr" using r [of 2] by simp
    then show ?thesis using r0 r1 len nz D_endpoint assms(3) enable_endpoint_calls [of "addr AND 0x8F" d]
      by (subst set_config_loop.simps) (simp add: descriptor_type_def Let_def)
  next
    case (D_other ty rest)
    then have "descriptor_type ty \<notin> {USB_CONFIGURATION_DESCRIPTOR_TYPE, USB_INTERFACE_DESCRIPTOR_TYPE, USB_ENDPOINT_DESCRIPTOR_TYPE}"
      using assms(1) by (auto simp: descriptor_type_def)
    then show ?thesis using r0 r1 len nz D_other
      by (subst set_config_loop.simps) (auto split: USBDescriptorTypes.splits)
  qed
qed

lemma active_Cons: "active alt (x # ds) = active alt [x] @ active (last_alt alt [x]) ds"
  "last_alt alt (x # ds) = last_alt (last_alt alt [x]) ds"
  by (cases x; simp)+

lemma walk_descrs:
  assumes "\<forall>x \<in> set ds. descr_ok x" and "m = a @ descrs_bytes ds @ b"
    and "\<forall>n \<in> set (active alt ds). ep_number n < useeps d"
  shows "set_config_loop m val (length a) alt d =
    set_config_loop m val (length (a @ descrs_bytes ds)) (last_alt alt ds) (switch_on (active alt ds) d)"
  using assms
proof (induction ds arbitrary: a alt d)
  case (Cons x ds)
  have "set_config_loop m val (length a) alt d =
      set_config_loop m val (length (a @ descr_bytes x)) (last_alt alt [x]) (switch_on (active alt [x]) d)"
    using Cons.prems by (intro walk_one [where b = "descrs_bytes ds @ b"]) (auto simp: descrs_bytes_def active_Cons(1) [of alt x ds])
  also have "\<dots> = set_config_loop m val (length ((a @ descr_bytes x) @ descrs_bytes ds)) (last_alt (last_alt alt [x]) ds)
      (switch_on (active (last_alt alt [x]) ds) (switch_on (active alt [x]) d))"
    using Cons.prems by (intro Cons.IH) (auto simp: descrs_bytes_def active_Cons(1) [of alt x ds])
  finally show ?case
    by (simp add: active_Cons [of alt x ds] descrs_bytes_def del: active.simps last_alt.simps)
qed (simp add: descrs_bytes_def)


text \<open>What a configuration request does before the endpoints of the configuration are switched on.\<close>

definition reset_endpoints :: "'c usbdev \<Rightarrow> 'c usbdev" where
  "reset_endpoints d = d\<lparr>USB_EndPointMask := 0x00010001, USB_EndPointHalt := 0, USB_EndPointStall := 0,
     calls := calls d @ disable_calls (USB_EndPointMask d)\<rparr>"

definition entered :: "config \<Rightarrow> 'c usbdev \<Rightarrow> 'c usbdev" where
  "entered c d = (call (Configure True) (reset_endpoints (d\<lparr>USB_Configuration := cf_value c,
       useifs := ucast (cf_interfaces c), USB_AltSetting := replicate MaxIfaces 0\<rparr>)))
     \<lparr>UsbIsConfigured := True, USB_DeviceStatus :=
       (if cf_attributes c AND USB_CONFIG_POWERED_MASK \<noteq> 0
        then USB_DeviceStatus d OR USB_GETSTATUS_SELF_POWERED
        else USB_DeviceStatus d AND NOT USB_GETSTATUS_SELF_POWERED)\<rparr>"

definition select_configuration :: "layout \<Rightarrow> u8 \<Rightarrow> 'c usbdev \<Rightarrow> 'c usbdev" where
  "select_configuration L v d =
     (if v = 0 then call (Configure False) (reset_endpoints (d\<lparr>USB_Configuration := 0\<rparr>))
      else case find (\<lambda>c. cf_value c = v) (lay_configs L) of
          None \<Rightarrow> d
        | Some c \<Rightarrow> switch_on (active 0 (cf_descrs c)) (entered c d))"

lemma mask_exists_frame [simp]:
  "mask_exists (d\<lparr>USB_Configuration := v\<rparr>) = mask_exists d" "mask_exists (d\<lparr>useifs := u\<rparr>) = mask_exists d"
  "mask_exists (d\<lparr>USB_AltSetting := al\<rparr>) = mask_exists d" "mask_exists (d\<lparr>SetupPacket := sp\<rparr>) = mask_exists d"
  "mask_exists (d\<lparr>Count := n\<rparr>) = mask_exists d"
  by (simp_all add: mask_exists_def)

lemma enter_configuration_entered:
  assumes "mask_exists d"
  shows "enter_configuration (cf_value c) (cf_interfaces c) (cf_attributes c) d = Some (entered c d)"
  using assms disable_endpoints_calls [of "d\<lparr>USB_Configuration := cf_value c,
      useifs := ucast (cf_interfaces c), USB_AltSetting := replicate MaxIfaces 0\<rparr>"]
  by (simp add: enter_configuration_def entered_def reset_endpoints_def call_def Let_def)

lemma config_bytes_split: "config_bytes c = take 9 (config_bytes c) @ descrs_bytes (cf_descrs c)"
  "length (take 9 (config_bytes c)) = 9"
  by (simp_all add: config_bytes_def)

lemma config_reads:
  assumes "config_ok c" and "m = a @ config_bytes c @ b"
  shows "read8 m (length a) = Some 9" "read8 m (length a + 1) = Some 2" "read8 m (Suc (length a)) = Some 2"
    "read8 m (length a + 4) = Some (cf_interfaces c)" "read8 m (length a + 5) = Some (cf_value c)"
    "read8 m (length a + 7) = Some (cf_attributes c)"
    "read16 m (length a + 2) = Some (le16 (config_bytes c ! 2) (config_bytes c ! 3))"
    "unat (le16 (config_bytes c ! 2) (config_bytes c ! 3)) = length (config_bytes c)"
  using read8_mid [of _ "config_bytes c" a b] read16_mid [of 2 "config_bytes c" a b] config_total [OF assms(1)]
    config_bytes_nth [of c] assms(2) read8_mid [of 0 "config_bytes c" a b] read8_mid [of 1 "config_bytes c" a b]
  by auto

lemma walk_other_config:
  assumes "config_ok c" and "m = a @ config_bytes c @ b" and "cf_value c \<noteq> val"
  shows "set_config_loop m val (length a) alt d = set_config_loop m val (length (a @ config_bytes c)) alt d"
  using config_reads [OF assms(1,2)] assms(3)
  by (subst set_config_loop.simps) (simp add: descriptor_type_def)

lemma walk_entered:
  assumes "config_ok c" and "m = a @ config_bytes c @ b" and "cf_value c = val" and "mask_exists d"
    and "\<forall>n \<in> set (active alt (cf_descrs c)). ep_number n < useeps d"
  shows "set_config_loop m val (length a) alt d =
    set_config_loop m val (length (a @ config_bytes c)) (last_alt alt (cf_descrs c))
      (switch_on (active alt (cf_descrs c)) (entered c d))"
proof -
  let ?a = "a @ take 9 (config_bytes c)"
  have len: "length ?a = length a + 9" using config_bytes_split(2) [of c] by simp
  have "set_config_loop m val (length a) alt d = set_config_loop m val (length ?a) alt (entered c d)"
    using config_reads [OF assms(1,2)] assms(3,4) enter_configuration_entered [OF assms(4), of c]
    unfolding len by (subst set_config_loop.simps) (simp add: descriptor_type_def)
  also have "\<dots> = set_config_loop m val (length (?a @ descrs_bytes (cf_descrs c))) (last_alt alt (cf_descrs c))
      (switch_on (active alt (cf_descrs c)) (entered c d))"
  proof (rule walk_descrs [where b = b])
    show "m = ?a @ descrs_bytes (cf_descrs c) @ b"
      using assms(2) config_bytes_split(1) [of c] by (metis append.assoc)
  qed (use assms in \<open>auto simp: config_ok_def entered_def reset_endpoints_def call_def\<close>)
  also have "?a @ descrs_bytes (cf_descrs c) = a @ config_bytes c"
    using config_bytes_split(1) [of c] by simp
  finally show ?thesis .
qed

lemma walk_end:
  "set_config_loop (a @ [0]) val (length a) alt d = Some d"
  by (subst set_config_loop.simps) (simp add: read8_def)

lemma walk_others:
  assumes "\<forall>c \<in> set cs. config_ok c \<and> cf_value c \<noteq> val"
  shows "set_config_loop (a @ concat (map config_bytes cs) @ [0]) val (length a) alt d = Some d"
  using assms
proof (induction cs arbitrary: a)
  case (Cons c cs)
  have "set_config_loop (a @ concat (map config_bytes (c # cs)) @ [0]) val (length a) alt d =
      set_config_loop (a @ concat (map config_bytes (c # cs)) @ [0]) val (length (a @ config_bytes c)) alt d"
    using Cons.prems by (intro walk_other_config [where b = "concat (map config_bytes cs) @ [0]"]) auto
  then show ?case using Cons.IH [of "a @ config_bytes c"] Cons.prems by simp
qed (simp add: walk_end)

lemma walk_configs:
  assumes "\<forall>c \<in> set cs. config_ok c \<and> (\<forall>n \<in> set (active 0 (cf_descrs c)). ep_number n < useeps d)"
    and "distinct (map cf_value cs)" and "mask_exists d"
  shows "set_config_loop (a @ concat (map config_bytes cs) @ [0]) val (length a) 0 d =
    Some (case find (\<lambda>c. cf_value c = val) cs of None \<Rightarrow> d | Some c \<Rightarrow> switch_on (active 0 (cf_descrs c)) (entered c d))"
  using assms
proof (induction cs arbitrary: a)
  case (Cons c cs)
  let ?m = "a @ concat (map config_bytes (c # cs)) @ [0]"
  have m: "?m = a @ config_bytes c @ concat (map config_bytes cs) @ [0]"
    "?m = (a @ config_bytes c) @ concat (map config_bytes cs) @ [0]" by simp_all
  show ?case
  proof (cases "cf_value c = val")
    case True
    have "set_config_loop ?m val (length a) 0 d =
        set_config_loop ?m val (length (a @ config_bytes c)) (last_alt 0 (cf_descrs c))
          (switch_on (active 0 (cf_descrs c)) (entered c d))"
      using Cons.prems True by (intro walk_entered [OF _ m(1)]) auto
    also have "\<dots> = Some (switch_on (active 0 (cf_descrs c)) (entered c d))"
      unfolding m(2) using Cons.prems True by (intro walk_others) (auto simp: image_iff)
    finally show ?thesis using True by simp
  next
    case False
    have "set_config_loop ?m val (length a) 0 d = set_config_loop ?m val (length (a @ config_bytes c)) 0 d"
      using Cons.prems False by (intro walk_other_config [OF _ m(1)]) auto
    then show ?thesis using Cons.IH [of "a @ config_bytes c"] Cons.prems False by simp
  qed
qed (simp add: walk_end)

text \<open>The bits of the masks.\<close>

lemma bit_ep_bit: "k < 16 \<Longrightarrow> bit (ep_bit k dir) i \<longleftrightarrow> i = (if dir = EndpointIn then k + 16 else k)"
  unfolding ep_bit_def push_bit_push_bit by (auto simp: bit_exp_iff)

lemma ep_number_less: "ep_number n < 16"
proof -
  have "n AND 0x0F \<le> (0x0F :: u8)" by (simp add: word_and_le1)
  then show ?thesis by (simp add: ep_number_def word_le_nat_alt)
qed

lemma ep_bit_in_mask: "k < 16 \<Longrightarrow> w AND ep_bit k dir \<noteq> 0 \<longleftrightarrow> bit w (if dir = EndpointIn then k + 16 else k)"
  unfolding bit_eq_iff [of "w AND ep_bit k dir"] by (auto simp: bit_ep_bit bit_and_iff dest: bit_imp_le_length)

lemma bit_fold_or: "bit (fold (\<lambda>n msk. msk OR f n) ns msk) i \<longleftrightarrow> bit msk i \<or> (\<exists>n \<in> set ns. bit (f n) i)" for msk :: u32
  by (induction ns arbitrary: msk) (auto simp: bit_simps)

lemma bit_control: "bit (0x00010001 :: u32) i \<longleftrightarrow> i = 0 \<or> i = 16"
proof -
  have "(0x00010001 :: u32) = push_bit 16 1 OR 1" by simp
  then show ?thesis by (simp only: bit_or_iff bit_push_bit_iff bit_1_iff) auto
qed

lemma enabled_endpoints:
  assumes "USB_EndPointMask d = 0x00010001" and "k < 16"
  shows "USB_EndPointMask (switch_on ns d) AND ep_bit k dir \<noteq> 0 \<longleftrightarrow>
    k = 0 \<or> (\<exists>n \<in> set ns. ep_number n = k \<and> ep_dir n = dir)"
proof -
  have other: "ep_number n \<noteq> k + 16" "k + 16 \<noteq> ep_number n" for n using ep_number_less [of n] by simp_all
  have mask: "bit (USB_EndPointMask d) k \<longleftrightarrow> k = 0" "bit (USB_EndPointMask d) (k + 16) \<longleftrightarrow> k = 0"
    unfolding assms(1) using bit_control [of k] bit_control [of "k + 16"] assms(2) by simp_all
  show ?thesis
    using assms(2) ep_number_less other mask
    by (cases dir) (auto simp: ep_bit_in_mask switch_on_def bit_fold_or ep_mask_def bit_ep_bit ep_dir_def split: if_splits)
qed


lemma standard_request_codes [simp]:
  "standard_request 0 = USB_REQUEST_GET_STATUS" "standard_request 1 = USB_REQUEST_CLEAR_FEATURE"
  "standard_request 3 = USB_REQUEST_SET_FEATURE" "standard_request 5 = USB_REQUEST_SET_ADDRESS"
  "standard_request 8 = USB_REQUEST_GET_CONFIGURATION" "standard_request 9 = USB_REQUEST_SET_CONFIGURATION"
  by (simp_all add: standard_request_def)

lemma configuration_event:
  assumes "layout_ok L" and "distinct (map cf_value (lay_configs L))" and "mask_exists d"
    and "\<forall>c \<in> set (lay_configs L). \<forall>n \<in> set (active 0 (cf_descrs c)). ep_number n < useeps d"
  shows "control_event (stored L) ifs (EVT_SETUP (request 0 9 v i 0)) d =
      Some (let d1 = select_configuration L (WB_L v) (d\<lparr>SetupPacket := setup_packet (request 0 9 v i 0), Count := 0\<rparr>) in
        if USB_Configuration d1 = WB_L v then StatusInStage d1 else stall_control d1)"
proof -
  define d0 where "d0 = d\<lparr>SetupPacket := setup_packet (request 0 9 v i 0), Count := 0\<rparr>"
  have sp: "SetupPacket d0 = \<lparr>bmRequestType = 0, bRequest = 9, wValue = v, wIndex = i, wLength = 0\<rparr>"
    and ok: "mask_exists d0" "\<forall>c \<in> set (lay_configs L). \<forall>n \<in> set (active 0 (cf_descrs c)). ep_number n < useeps d0"
    using assms by (simp_all add: d0_def)
  have "ReqSetConfiguration (stored L) d0 =
      Some (USB_Configuration (select_configuration L (WB_L v) d0) = WB_L v, select_configuration L (WB_L v) d0)"
  proof (cases "WB_L v = 0")
    case True
    then show ?thesis
      using disable_endpoints_calls [of "d0\<lparr>USB_Configuration := 0\<rparr>"] ok(1)
      by (simp add: ReqSetConfiguration_def sp request_bits select_configuration_def reset_endpoints_def)
  next
    case False
    have "set_config_loop (UsbConfigDescriptor (stored L)) (WB_L v) 0 0 d0 = Some (select_configuration L (WB_L v) d0)"
      using walk_configs [of "lay_configs L" d0 "[]" "WB_L v"] assms ok False
      by (auto simp: stored_def layout_ok_def select_configuration_def split: option.splits)
    then show ?thesis using False by (simp add: ReqSetConfiguration_def sp request_bits Let_def)
  qed
  then show ?thesis
    by (simp add: control_event_def Ep0Handler_def Ep0EventSetup_def SetupStage_def request_bits answer_def d0_def Let_def)
qed


section \<open>The address and the halt feature\<close>

text \<open>
  The address of the device changes with the status stage of SET_ADDRESS.  The request writes the address to the core
  (this core wants it early) and sends the status packet; the first IN event after it takes the address over,
  without the marker bit, and no later event does it again.
\<close>

theorem set_address:
  "\<exists>d'. control_events D ifs (EVT_SETUP (request 0 5 v i 0) # replicate (Suc n) EVT_IN) d = Some d' \<and>
    calls d' = calls d @ [SetAddress (WB_L v), Ep0Write [], SetAddress (WB_L v AND 0x7F)] \<and>
    USB_DeviceAddress d' = WB_L v AND 0x7F"
proof -
  define d1 where "d1 = StatusInStage (call (SetAddress (WB_L v)) (d\<lparr>SetupPacket := setup_packet (request 0 5 v i 0),
     Count := 0, USB_DeviceAddress := 0x80 OR WB_L v\<rparr>))"
  define d2 where "d2 = call (SetAddress (WB_L v AND 0x7F)) (d1\<lparr>USB_DeviceAddress := WB_L v AND 0x7F\<rparr>)"
  have bits: "(0x80 OR WB_L v) AND 0x80 \<noteq> 0" "(0x80 OR WB_L v) AND 0x7F = WB_L v AND 0x7F"
    unfolding bit.conj_disj_distrib2 by simp_all
  have "control_event D ifs (EVT_SETUP (request 0 5 v i 0)) d = Some d1"
    by (simp add: control_event_def Ep0Handler_def Ep0EventSetup_def SetupStage_def request_bits answer_def
        ReqSetAddress_def Let_def d1_def)
  moreover have "control_event D ifs EVT_IN d1 = Some d2"
    using bits by (simp add: control_event_def Ep0Handler_def Ep0EventIn_def d1_def d2_def StatusInStage_def call_def request_bits)
  moreover have "control_events D ifs (replicate n EVT_IN) d2 = Some d2"
  proof (induction n)
    case (Suc n)
    have "control_event D ifs EVT_IN d2 = Some d2"
      by (simp add: control_event_def Ep0Handler_def Ep0EventIn_def d1_def d2_def StatusInStage_def call_def request_bits
          word_bw_assocs)
    with Suc show ?case by simp
  qed simp
  ultimately show ?thesis by (simp add: d1_def d2_def StatusInStage_def call_def)
qed


text \<open>A standard request to an endpoint.\<close>

lemma endpoint_status_event:
  assumes "n AND 0x8F = n" and "USB_Configuration d \<noteq> 0" and "USB_EndPointMask d AND ep_mask n \<noteq> 0"
    and "2 \<le> length (EP0Buf d)"
  shows "\<exists>d'. control_event D ifs (EVT_SETUP (request 0x82 0 0 (ucast n) 2)) d = Some d' \<and>
    calls d' = calls d @ [Ep0Write [bool_word (USB_EndPointHalt d AND ep_mask n \<noteq> 0), 0]] \<and>
    USB_Configuration d' = USB_Configuration d \<and> USB_EndPointMask d' = USB_EndPointMask d \<and>
    USB_EndPointHalt d' = USB_EndPointHalt d \<and> USB_EndPointStall d' = USB_EndPointStall d \<and>
    useeps d' = useeps d \<and> length (EP0Buf d') = length (EP0Buf d)"
proof -
  show ?thesis
    using assms
    by (simp add: control_event_def Ep0Handler_def Ep0EventSetup_def SetupStage_def request_bits answer_def Let_def
        ReqGetStatus_def status_word_def DataInStage_def USB_MAX_PACKET0_def object_read_def object_bytes_def call_def)
qed

lemma endpoint_feature_event:
  assumes "n AND 0x8F = n" and "USB_Configuration d \<noteq> 0" and "USB_EndPointMask d AND ep_mask n \<noteq> 0"
    and "ep_number n \<noteq> 0" and "ep_number n < useeps d"
  shows "\<exists>d'. control_event D ifs (EVT_SETUP (request 2 (if sc then 3 else 1) 0 (ucast n) 0)) d = Some d' \<and>
    calls d' = calls d @ (if sc then [SetStallEP (ep_number n) (ep_dir n)]
      else if USB_EndPointStall d AND ep_mask n \<noteq> 0 then [] else [ClrStallEP (ep_number n) (ep_dir n)]) @ [Ep0Write []] \<and>
    USB_Configuration d' = USB_Configuration d \<and> USB_EndPointMask d' = USB_EndPointMask d \<and>
    USB_EndPointHalt d' = (if sc then USB_EndPointHalt d OR ep_mask n
      else if USB_EndPointStall d AND ep_mask n \<noteq> 0 then USB_EndPointHalt d else USB_EndPointHalt d AND NOT (ep_mask n)) \<and>
    USB_EndPointStall d' = USB_EndPointStall d \<and> useeps d' = useeps d \<and> EP0Buf d' = EP0Buf d \<and>
    classes d' = classes d"
proof -
  show ?thesis
    using assms
    by (simp add: control_event_def Ep0Handler_def Ep0EventSetup_def SetupStage_def request_bits answer_def Let_def
        ReqSetClrFeature_def USB_FEATURE_ENDPOINT_STALL_def StatusInStage_def ep_call_def call_def)
qed

text \<open>
  C16: the halt feature of an endpoint of the configuration.  SET_FEATURE stalls the endpoint and GET_STATUS then reports
  it as halted; CLEAR_FEATURE takes the stall back and GET_STATUS reports it as running, except while a class keeps the endpoint
  stalled: then the request is acknowledged, the endpoint stays stalled, and GET_STATUS still says so.
\<close>

theorem endpoint_halt:
  assumes "n AND 0x8F = n" and "USB_Configuration d \<noteq> 0" and "USB_EndPointMask d AND ep_mask n \<noteq> 0"
    and "ep_number n \<noteq> 0" and "ep_number n < useeps d" and "2 \<le> length (EP0Buf d)"
  shows "\<exists>d'. control_events D ifs
      [EVT_SETUP (request 2 3 0 (ucast n) 0), EVT_SETUP (request 0x82 0 0 (ucast n) 2),
       EVT_SETUP (request 2 1 0 (ucast n) 0), EVT_SETUP (request 0x82 0 0 (ucast n) 2)] d = Some d' \<and>
    calls d' = calls d @ [SetStallEP (ep_number n) (ep_dir n), Ep0Write [], Ep0Write [1, 0]] @
      (if USB_EndPointStall d AND ep_mask n \<noteq> 0 then [Ep0Write [], Ep0Write [1, 0]]
       else [ClrStallEP (ep_number n) (ep_dir n), Ep0Write [], Ep0Write [0, 0]])"
proof -
  have nz: "(w OR ep_mask n) AND ep_mask n \<noteq> 0" "(w AND NOT (ep_mask n)) AND ep_mask n = 0" for w
    using assms(3) by (auto simp: word_bw_assocs)
  obtain d1 where d1: "control_event D ifs (EVT_SETUP (request 2 3 0 (ucast n) 0)) d = Some d1"
    "calls d1 = calls d @ [SetStallEP (ep_number n) (ep_dir n), Ep0Write []]"
    "USB_Configuration d1 = USB_Configuration d" "USB_EndPointMask d1 = USB_EndPointMask d"
    "USB_EndPointHalt d1 = USB_EndPointHalt d OR ep_mask n" "USB_EndPointStall d1 = USB_EndPointStall d"
    "useeps d1 = useeps d" "EP0Buf d1 = EP0Buf d"
    using endpoint_feature_event [OF assms(1-5), of D ifs True] by auto
  obtain d2 where d2: "control_event D ifs (EVT_SETUP (request 0x82 0 0 (ucast n) 2)) d1 = Some d2"
    "calls d2 = calls d1 @ [Ep0Write [1, 0]]"
    "USB_Configuration d2 = USB_Configuration d" "USB_EndPointMask d2 = USB_EndPointMask d"
    "USB_EndPointHalt d2 = USB_EndPointHalt d OR ep_mask n" "USB_EndPointStall d2 = USB_EndPointStall d"
    "useeps d2 = useeps d" "length (EP0Buf d2) = length (EP0Buf d)"
    using endpoint_status_event [of n d1 D ifs] assms d1 nz by (auto simp: bool_word_def)
  obtain d3 where d3: "control_event D ifs (EVT_SETUP (request 2 1 0 (ucast n) 0)) d2 = Some d3"
    "calls d3 = calls d2 @ (if USB_EndPointStall d AND ep_mask n \<noteq> 0 then [] else [ClrStallEP (ep_number n) (ep_dir n)])
       @ [Ep0Write []]"
    "USB_Configuration d3 = USB_Configuration d" "USB_EndPointMask d3 = USB_EndPointMask d"
    "USB_EndPointHalt d3 = (if USB_EndPointStall d AND ep_mask n \<noteq> 0 then USB_EndPointHalt d OR ep_mask n
       else (USB_EndPointHalt d OR ep_mask n) AND NOT (ep_mask n))"
    "EP0Buf d3 = EP0Buf d2"
    using endpoint_feature_event [of n d2 D ifs False] assms d2 by auto
  obtain d4 where "control_event D ifs (EVT_SETUP (request 0x82 0 0 (ucast n) 2)) d3 = Some d4"
    "calls d4 = calls d3 @ [Ep0Write [if USB_EndPointStall d AND ep_mask n \<noteq> 0 then 1 else 0, 0]]"
    using endpoint_status_event [of n d3 D ifs] assms d2 d3 nz by (auto simp: bool_word_def split: if_splits)
  then show ?thesis using d1 d2 d3 by auto
qed

section \<open>The ring of received packets\<close>

text \<open>Between two events the ring is empty; inside of one it holds at most the packet of that event.\<close>

definition ring_shape :: "Ep0Buffer \<Rightarrow> bool" where
  "ring_shape r \<longleftrightarrow> wi r < 4 \<and> length (pb r) = 4 \<and> (\<forall>p \<in> set (pb r). length (snd p) = 64)"

definition ring_idle :: "Ep0Buffer \<Rightarrow> bool" where
  "ring_idle r \<longleftrightarrow> ring_shape r \<and> le r = 0 \<and> ri r = wi r"

definition ring_one :: "nat \<Rightarrow> mem \<Rightarrow> Ep0Buffer \<Rightarrow> bool" where
  "ring_one k pkt r \<longleftrightarrow> ring_shape r \<and> le r = 1 \<and> ri r = k \<and> k < 4 \<and> wi r = (k + 1) mod 4 \<and>
     length pkt \<le> 64 \<and> fst (pb r ! k) = length pkt \<and> take (length pkt) (snd (pb r ! k)) = pkt"

lemma Ep0Read_idle: "ring_idle (Ep0Buf d) \<Longrightarrow> Ep0Read d = Some ([], d)"
  by (simp add: ring_idle_def Ep0Read_def Let_def)

lemma Ep0Read_one:
  assumes "ring_one k pkt (Ep0Buf d)"
  shows "\<exists>r. Ep0Read d = Some (pkt, d\<lparr>Ep0Buf := r\<rparr>) \<and> ring_idle r"
proof -
  obtain len buf where p: "pb (Ep0Buf d) ! k = (len, buf)" by fastforce
  have "(len, buf) \<in> set (pb (Ep0Buf d))"
    using assms nth_mem [of k "pb (Ep0Buf d)"] by (simp add: ring_one_def ring_shape_def p)
  then have buf: "length buf = 64" using assms by (auto simp: ring_one_def ring_shape_def)
  define r where "r = (Ep0Buf d)\<lparr>ri := (k + 1) mod 4, le := 0\<rparr>"
  have "ring_idle r" using assms by (simp add: ring_one_def ring_shape_def ring_idle_def r_def)
  moreover have "Ep0Read d = Some (pkt, d\<lparr>Ep0Buf := r\<rparr>)"
    using assms p buf by (simp add: ring_one_def Ep0Read_def Let_def Ep0MaxBuffers_def r_def)
  ultimately show ?thesis by blast
qed

lemma ring_shape_update:
  "ring_shape r \<Longrightarrow> length buf = 64 \<Longrightarrow> ring_shape (r\<lparr>pb := (pb r)[k := (len, buf)]\<rparr>)"
  using set_update_subset_insert [of "pb r" k "(len, buf)"] by (auto simp: ring_shape_def)

lemma store_packet_ring:
  assumes "ring_idle r" and "length pkt \<le> 64"
  shows "if pkt = [] then store_packet pkt r = r else ring_one (wi r) pkt (store_packet pkt r)"
proof (cases "pkt = []")
  case False
  define buf where "buf = take 64 pkt @ drop (length pkt) (snd (pb r ! wi r))"
  have sh: "ring_shape r" "wi r < 4" "length (pb r) = 4"
    using assms(1) by (auto simp: ring_idle_def ring_shape_def)
  then have "pb r ! wi r \<in> set (pb r)" by simp
  then have "length (snd (pb r ! wi r)) = 64" using sh(1) by (auto simp: ring_shape_def)
  then have buf: "length buf = 64" "take (length pkt) buf = pkt" using assms(2) by (simp_all add: buf_def)
  have st: "store_packet pkt r =
      (r\<lparr>pb := (pb r)[wi r := (length pkt, buf)]\<rparr>)\<lparr>wi := (wi r + 1) mod 4, le := le r + 1\<rparr>"
    using False by (simp add: store_packet_def Let_def buf_def Ep0MaxBuffers_def)
  have "ring_shape (store_packet pkt r)"
    using ring_shape_update [OF sh(1) buf(1), of "wi r" "length pkt"] unfolding st by (simp add: ring_shape_def)
  then show ?thesis
    using False assms buf sh by (simp add: st ring_one_def ring_idle_def)
qed (simp add: store_packet_def)

end
