(* ===== verification/UsbDeviceSafe.thy ===== *)
theory UsbDeviceSafe
  imports UsbDeviceSpec
begin

unbundle bit_operations_syntax

text \<open>
  The invariant of the control endpoint under every sequence of events, and the requests that leave the objects of the
  device.
\<close>

section \<open>The invariant\<close>

definition endpoints_exist :: "u32 \<Rightarrow> nat \<Rightarrow> bool" where
  "endpoints_exist msk n \<longleftrightarrow> (\<forall>k < 16. \<forall>dir. msk AND ep_bit k dir \<noteq> 0 \<longrightarrow> k < n)"

definition core_ok :: "'c usbdev \<Rightarrow> bool" where
  "core_ok d \<longleftrightarrow> 1 \<le> useeps d \<and> useeps d \<le> MaxPhyEps \<and> endpoints_exist (USB_EndPointMask d) (useeps d) \<and>
     length (USB_AltSetting d) = MaxIfaces \<and> length (EP0Buf d) = USB_MAX_PACKET0"

definition device_ok :: "'c usbdev \<Rightarrow> bool" where
  "device_ok d \<longleftrightarrow> core_ok d \<and> ring_idle (Ep0Buf d)"

text \<open>What every operation but the reading of a packet keeps.\<close>

definition keeps :: "'c usbdev \<Rightarrow> 'c usbdev \<Rightarrow> bool" where
  "keeps d d' \<longleftrightarrow> (core_ok d \<longrightarrow> core_ok d') \<and> Ep0Buf d' = Ep0Buf d \<and> useeps d' = useeps d"

lemma keeps_refl [simp]: "keeps d d"
  by (simp add: keeps_def)

lemma keeps_trans: "keeps d1 d2 \<Longrightarrow> keeps d2 d3 \<Longrightarrow> keeps d1 d3"
  by (auto simp: keeps_def)

text \<open>Updates of the other members.\<close>

lemma keeps_updates [dev_simps]:
  "keeps d (d'\<lparr>Count := n\<rparr>) = keeps d d'" "keeps d (d'\<lparr>pData := p\<rparr>) = keeps d d'"
  "keeps d (d'\<lparr>SetupPacket := sp\<rparr>) = keeps d d'" "keeps d (d'\<lparr>calls := cs\<rparr>) = keeps d d'"
  "keeps d (d'\<lparr>USB_EndPointHalt := h\<rparr>) = keeps d d'" "keeps d (d'\<lparr>USB_EndPointStall := h\<rparr>) = keeps d d'"
  "keeps d (d'\<lparr>USB_DeviceStatus := s\<rparr>) = keeps d d'" "keeps d (d'\<lparr>USB_DeviceAddress := a\<rparr>) = keeps d d'"
  "keeps d (d'\<lparr>USB_Configuration := a\<rparr>) = keeps d d'" "keeps d (d'\<lparr>useifs := u\<rparr>) = keeps d d'"
  "keeps d (d'\<lparr>UsbIsConfigured := b\<rparr>) = keeps d d'" "keeps d (d'\<lparr>classes := c\<rparr>) = keeps d d'"
  "keeps d (call e d') = keeps d d'"
  by (simp_all add: keeps_def core_ok_def call_def)

lemma keeps_updates_left [dev_simps]:
  "keeps (d\<lparr>Count := n\<rparr>) d' = keeps d d'" "keeps (d\<lparr>pData := p\<rparr>) d' = keeps d d'"
  "keeps (d\<lparr>SetupPacket := sp\<rparr>) d' = keeps d d'" "keeps (d\<lparr>USB_EndPointHalt := h\<rparr>) d' = keeps d d'"
  "keeps (d\<lparr>USB_DeviceAddress := a\<rparr>) d' = keeps d d'" "keeps (d\<lparr>USB_Configuration := a\<rparr>) d' = keeps d d'"
  "keeps (d\<lparr>classes := c\<rparr>) d' = keeps d d'" "keeps (call e d) d' = keeps d d'"
  by (simp_all add: keeps_def core_ok_def call_def)

lemma keeps_alt [dev_simps]:
  "length al = MaxIfaces \<Longrightarrow> keeps d d' \<Longrightarrow> keeps d (d'\<lparr>USB_AltSetting := al\<rparr>)"
  by (auto simp: keeps_def core_ok_def)

lemma keeps_mask:
  "(core_ok d' \<Longrightarrow> endpoints_exist msk (useeps d')) \<Longrightarrow> keeps d d' \<Longrightarrow> keeps d (d'\<lparr>USB_EndPointMask := msk\<rparr>)"
  by (auto simp: keeps_def core_ok_def)

lemma all_directions: "(\<forall>dir. P dir) \<longleftrightarrow> P EndpointOut \<and> P EndpointIn"
  by (metis UsbEndpointDir.exhaust)

lemma exist_bits: "endpoints_exist msk n \<longleftrightarrow> (\<forall>k < 16. bit msk k \<or> bit msk (k + 16) \<longrightarrow> k < n)"
  by (auto simp: endpoints_exist_def all_directions ep_bit_in_mask)

lemma exist_reset:
  assumes "1 \<le> n"
  shows "endpoints_exist 0x00010001 n"
  unfolding exist_bits
proof (intro allI impI)
  fix k :: nat
  assume "k < 16" and "bit (0x00010001 :: u32) k \<or> bit (0x00010001 :: u32) (k + 16)"
  then have "k = 0" unfolding bit_control by auto
  with assms show "k < n" by simp
qed

lemma exist_or: "endpoints_exist msk n \<Longrightarrow> ep_number a < n \<Longrightarrow> endpoints_exist (msk OR ep_mask a) n"
  using ep_number_less [of a]
  by (auto simp: exist_bits bit_or_iff ep_mask_def bit_ep_bit split: if_splits)

lemma exist_and: "endpoints_exist msk n \<Longrightarrow> endpoints_exist (msk AND b) n"
  by (auto simp: exist_bits bit_and_iff)

lemma keeps_reset: "keeps d d' \<Longrightarrow> keeps d (d'\<lparr>USB_EndPointMask := 0x00010001\<rparr>)"
  by (rule keeps_mask) (simp_all add: exist_reset core_ok_def)

lemma keeps_remove: "keeps d d' \<Longrightarrow> keeps d (d'\<lparr>USB_EndPointMask := USB_EndPointMask d' AND b\<rparr>)"
  by (rule keeps_mask) (simp_all add: exist_and core_ok_def)

lemma keeps_call: "ep_call n e d = Some d' \<Longrightarrow> keeps d d'"
  by (auto simp: ep_call_def dev_simps split: if_splits)

text \<open>Endpoints are added to the mask only together with a call on the endpoint.\<close>

lemma keeps_enable:
  assumes "enable_endpoint n (d\<lparr>USB_EndPointMask := USB_EndPointMask d OR ep_mask n, USB_EndPointHalt := h\<rparr>) = Some d'"
  shows "keeps d d'"
proof -
  have "ep_number n < useeps d"
    using assms by (auto simp: enable_endpoint_def ep_call_def call_def Let_def split: if_splits bind_splits)
  then have "keeps d (d\<lparr>USB_EndPointMask := USB_EndPointMask d OR ep_mask n, USB_EndPointHalt := h\<rparr>)"
    by (simp add: dev_simps) (rule keeps_mask, simp_all add: exist_or core_ok_def)
  moreover have "keeps (d\<lparr>USB_EndPointMask := USB_EndPointMask d OR ep_mask n, USB_EndPointHalt := h\<rparr>) d'"
    using assms
    by (auto simp: enable_endpoint_def ep_call_def dev_simps Let_def split: if_splits bind_splits)
  ultimately show ?thesis by (rule keeps_trans)
qed

lemma keeps_enable_mask:
  "enable_endpoint n (d\<lparr>USB_EndPointMask := USB_EndPointMask d OR ep_mask n\<rparr>) = Some d' \<Longrightarrow> keeps d d'"
  using keeps_enable [where d = d and h = "USB_EndPointHalt d" and n = n and d' = d'] by simp

lemma keeps_bind:
  assumes "Option.bind m f = Some d'" and "\<And>d1. m = Some d1 \<Longrightarrow> keeps d d1"
    and "\<And>d1. m = Some d1 \<Longrightarrow> f d1 = Some d' \<Longrightarrow> keeps d1 d'"
  shows "keeps d d'"
proof (cases m)
  case (Some d1)
  then show ?thesis using assms keeps_trans [of d d1 d'] by simp
qed (use assms in simp)

lemma keeps_disable_at:
  assumes "disable_at n d = Some d'"
  shows "keeps d d'"
  by (rule keeps_bind [OF assms [unfolded disable_at_def]]) (auto split: if_splits dest: keeps_call)

lemma keeps_disable_loop: "disable_loop ns d = Some d' \<Longrightarrow> keeps d d'"
proof (induction ns arbitrary: d)
  case (Cons n ns)
  show ?case
    by (rule keeps_bind [OF Cons.prems [unfolded disable_loop.simps]]) (auto dest: keeps_disable_at Cons.IH)
qed simp

lemma keeps_disable: "disable_endpoints d = Some d' \<Longrightarrow> keeps d d'"
  by (auto simp: disable_endpoints_def dev_simps split: bind_splits dest!: keeps_disable_loop intro!: keeps_reset)

lemma keeps_enter:
  assumes "enter_configuration val b a d = Some d'"
  shows "keeps d d'"
proof -
  let ?d = "d\<lparr>USB_Configuration := val, useifs := ucast b, USB_AltSetting := replicate MaxIfaces 0\<rparr>"
  have "keeps ?d d'"
    by (rule keeps_bind [OF assms [unfolded enter_configuration_def]])
      (auto simp: Let_def dev_simps dest: keeps_disable)
  moreover have "keeps d ?d" by (simp add: dev_simps)
  ultimately show ?thesis by (rule keeps_trans [rotated])
qed

lemma keeps_config_loop:
  assumes "set_config_loop m val pD alt d = Some d'"
  shows "keeps d d'"
proof (rule set_config_loop.raw_induct [OF _ assms, where P = "\<lambda>m val pD alt d d'. keeps d d'"], goal_cases)
  case (1 loop m val pD alt d d')
  have enter: "keeps d d'" if "enter_configuration val b a d = Some x" and "loop m val q al x = Some d'" for b a q al x
    using keeps_trans [OF keeps_enter [OF that(1)] 1(1) [OF that(2)]] .
  have enable: "keeps d d'"
    if "enable_endpoint n (d\<lparr>USB_EndPointMask := USB_EndPointMask d OR ep_mask n\<rparr>) = Some x"
      and "loop m val q al x = Some d'" for n q al x
    using keeps_trans [OF keeps_enable_mask [OF that(1)] 1(1) [OF that(2)]] .
  obtain bLength where b: "read8 m pD = Some bLength" using 1(2) by (auto simp: Option.bind_eq_Some_conv)
  show ?case
  proof (cases "bLength = 0")
    case False
    then obtain ty where ty: "read8 m (pD + 1) = Some ty" using 1(2) b by (auto simp: Option.bind_eq_Some_conv)
    show ?thesis
      using 1(2) False b ty 1(1)
      by (cases "descriptor_type ty") (auto simp: Let_def split: bind_splits if_splits dest: enter enable)
  qed (use 1(2) b in simp)
qed


lemma keeps_SetConfiguration: 
  assumes "ReqSetConfiguration D d = Some (b, d')"
  shows "keeps d d'"
proof (cases "BM_Recipient (SetupPacket d) = REQUEST_TO_DEVICE")
  case True
  have "keeps (d\<lparr>USB_Configuration := 0\<rparr>) d1 \<Longrightarrow> keeps d d1" for d1 by (simp add: dev_simps)
  with True show ?thesis
    using assms
    by (auto simp: ReqSetConfiguration_def Let_def dev_simps split: bind_splits if_splits
        dest!: keeps_config_loop keeps_disable)
qed (use assms in \<open>simp add: ReqSetConfiguration_def Let_def\<close>)

lemma keeps_si_interface: "si_interface idx val ifn alt v d = Some vd \<Longrightarrow> keeps d (snd vd)"
  by (auto simp: si_interface_def Let_def keeps_def core_ok_def split: if_splits)

lemma keeps_si_endpoint:
  assumes "si_endpoint idx val n v d = Some vd"
  shows "keeps d (snd vd)"
proof -
  have remove: "keeps d x" if "ep_call k e (d\<lparr>USB_EndPointMask := USB_EndPointMask d AND b,
      USB_EndPointHalt := h\<rparr>) = Some x" for k e b h x
  proof -
    have "keeps d (d\<lparr>USB_EndPointMask := USB_EndPointMask d AND b, USB_EndPointHalt := h\<rparr>)"
      by (simp add: dev_simps keeps_remove)
    then show ?thesis using keeps_trans keeps_call [OF that] by blast
  qed
  show ?thesis
    using assms by (auto simp: si_endpoint_def Let_def split: if_splits bind_splits dest: keeps_enable remove)
qed

lemma keeps_interface_loop:
  assumes "set_interface_loop m idx val pD v d = Some vd"
  shows "keeps d (snd vd)"
proof (rule set_interface_loop.raw_induct [OF _ assms, where P = "\<lambda>m idx val pD v d vd. keeps d (snd vd)"], goal_cases)
  case (1 loop m idx val pD v d vd)
  have iface: "keeps d (snd vd)"
    if "si_interface idx val ifn alt v d = Some x" and "loop m idx val q (fst x) (snd x) = Some vd" for ifn alt q x
    using keeps_trans [OF keeps_si_interface [OF that(1)] 1(1) [OF that(2)]] .
  have ep: "keeps d (snd vd)"
    if "si_endpoint idx val n v d = Some x" and "loop m idx val q (fst x) (snd x) = Some vd" for n q x
    using keeps_trans [OF keeps_si_endpoint [OF that(1)] 1(1) [OF that(2)]] .
  obtain bLength where b: "read8 m pD = Some bLength" using 1(2) by (auto simp: Option.bind_eq_Some_conv)
  show ?case
  proof (cases "bLength = 0")
    case False
    then obtain ty where ty: "read8 m (pD + 1) = Some ty" using 1(2) b by (auto simp: Option.bind_eq_Some_conv)
    show ?thesis
      using 1(2) False b ty 1(1)
      by (cases "descriptor_type ty") (auto simp: Let_def split: bind_splits if_splits dest: iface ep)
  qed (use 1(2) b in auto)
qed

lemma keeps_SetInterface: "ReqSetInterface D d = Some (b, d') \<Longrightarrow> keeps d d'"
  by (auto simp: ReqSetInterface_def split: bind_splits if_splits dest!: keeps_interface_loop)

lemma keeps_SetClrFeature: "ReqSetClrFeature sc d = Some (b, d') \<Longrightarrow> keeps d d'"
  by (auto simp: ReqSetClrFeature_def Let_def dev_simps split: bind_splits if_splits bmRequestTypeRecipient.splits dest!: keeps_call)

lemma keeps_status_word: "keeps d (status_word b d)"
  by (auto simp: status_word_def keeps_def core_ok_def USB_MAX_PACKET0_def)

lemma keeps_requests:
  "keeps d (snd (ReqGetStatus d))" "keeps d (snd (ReqSetAddress d))" "keeps d (snd (ReqGetConfiguration d))"
  "keeps d (snd (ReqGetInterface d))"
  by (auto simp: ReqGetStatus_def ReqSetAddress_def ReqGetConfiguration_def ReqGetInterface_def Let_def dev_simps
      keeps_status_word split: bmRequestTypeRecipient.splits)

lemma keeps_GetDescriptor: "ReqGetDescriptor D d = Some (b, d') \<Longrightarrow> keeps d d'"
  by (auto simp: ReqGetDescriptor_def Let_def limit_count_def dev_simps
      split: bind_splits if_splits USBDescriptorTypes.splits)

lemma keeps_DataIn: "DataInStage D d = Some d' \<Longrightarrow> keeps d d'"
  by (auto simp: DataInStage_def Let_def dev_simps split: bind_splits if_splits)

lemma keeps_class_call: "keeps d (class_call e d)"
  by (auto simp: class_call_def SetStallMask_def ClrStallMask_def SetStallHaltMask_def dev_simps split: msc_event.splits)

lemma keeps_class_calls: "keeps d (fold class_call es d)"
proof (induction es arbitrary: d)
  case (Cons e es)
  then show ?case using keeps_trans [OF keeps_class_call Cons.IH] by simp
qed simp


lemma keeps_stages: "keeps d (StatusInStage d)" "keeps d (stall_control d)"
  by (simp_all add: StatusInStage_def stall_control_def dev_simps)

lemma keeps_answer:
  assumes "answer stage r = Some d'" and "keeps d (snd r)" and "\<And>d1. stage d1 = Some d' \<Longrightarrow> keeps d1 d'"
  shows "keeps d d'"
  using assms(1) keeps_trans [OF assms(2)] assms(3) keeps_stages(2)
  by (auto simp: answer_def split: if_splits)

lemma keeps_answer_bind:
  assumes "Option.bind m (answer stage) = Some d'" and "\<And>b d1. m = Some (b, d1) \<Longrightarrow> keeps d d1"
    and "\<And>d1. stage d1 = Some d' \<Longrightarrow> keeps d1 d'"
  shows "keeps d d'"
proof -
  obtain r where "m = Some r" and a: "answer stage r = Some d'" using assms(1) by (auto simp: Option.bind_eq_Some_conv)
  then have "keeps d (snd r)" using assms(2) [of "fst r" "snd r"] by simp
  with a show ?thesis using assms(3) by (rule keeps_answer)
qed

lemma keeps_status_stage: "Some (StatusInStage d1) = Some d' \<Longrightarrow> keeps d1 d'"
  using keeps_stages(1) by auto

lemma keeps_SetupClass:
  assumes "Ep0SetupClass D ifs d = Some d'"
  shows "keeps d d'"
proof (cases "BM_Recipient (SetupPacket d) = REQUEST_TO_INTERFACE")
  case True
  define k where "k = unat (WB_L (wIndex (SetupPacket d)))"
  obtain act evs c where h: "if_SetupHandler (ifs ! k) (SetupPacket d) (classes d) = (act, evs, c)"
    using prod_cases3 by blast
  define d1 where "d1 = fold class_call evs (d\<lparr>classes := c\<rparr>)"
  have "keeps d (d\<lparr>classes := c\<rparr>)" by (simp add: dev_simps)
  then have d1: "keeps d d1" using keeps_trans keeps_class_calls unfolding d1_def by blast
  have lun: "keeps d (status_word False d1)" using keeps_trans [OF d1 keeps_status_word] .
  have buf: "keeps d (d1\<lparr>pData := p\<rparr>)" for p using d1 by (simp add: dev_simps)
  show ?thesis
    using assms True h keeps_trans [OF d1] keeps_trans [OF lun] keeps_trans [OF buf] buf d1
      keeps_stages [of d1]
    by (cases act) (auto simp: Ep0SetupClass_def Let_def k_def [symmetric] d1_def [symmetric]
        split: if_splits dest!: keeps_DataIn)
qed (use assms keeps_stages(2) in \<open>auto simp: Ep0SetupClass_def\<close>)

lemma keeps_OutClass: "Ep0OutClass ifs d = Some d' \<Longrightarrow> keeps d d'"
  by (auto simp: Ep0OutClass_def Let_def StatusInStage_def stall_control_def dev_simps split: if_splits)

lemma keeps_EventSetup:
  assumes "Ep0EventSetup D ifs pkt d = Some d'"
  shows "keeps d d'"
proof -
  define d0 where "d0 = d\<lparr>SetupPacket := setup_packet pkt, Count := wLength (setup_packet pkt)\<rparr>"
  have "keeps d0 d'"
    using assms keeps_stages(2) [of d0] keeps_requests [of d0]
    by (auto simp: Ep0EventSetup_def SetupStage_def Let_def d0_def [symmetric] dev_simps
        split: bmRequestTypeType.splits USBStandardRequestCodes.splits
        elim!: keeps_answer keeps_answer_bind
        intro: keeps_DataIn keeps_status_stage keeps_SetClrFeature keeps_GetDescriptor keeps_SetConfiguration
          keeps_SetInterface keeps_SetupClass)
  then show ?thesis by (simp add: d0_def dev_simps)
qed

text \<open>The operations that read the ring.\<close>

lemma put_at_length: "put_at a bs m = Some m' \<Longrightarrow> length m' = length m"
  by (auto simp: put_at_def split: if_splits)

lemma keeps_object_write: "object_write p bs d = Some d' \<Longrightarrow> keeps d d'"
  by (auto simp: object_write_def dev_simps dest!: put_at_length split: if_splits object.splits)
    (auto simp: keeps_def core_ok_def dest!: put_at_length)

lemma core_ok_ring [simp]: "core_ok (d\<lparr>Ep0Buf := r\<rparr>) = core_ok d"
  by (simp add: core_ok_def)

text \<open>Reading returns the waiting packet and leaves the ring empty.\<close>

definition ring_ready :: "nat \<Rightarrow> Ep0Buffer \<Rightarrow> bool" where
  "ring_ready k r \<longleftrightarrow> ring_idle r \<or> (\<exists>pkt. ring_one k pkt r)"

lemma Ep0Read_ready:
  assumes "ring_ready k (Ep0Buf d)" and "Ep0Read d = Some (bs, d')"
  shows "ring_idle (Ep0Buf d') \<and> core_ok d' = core_ok d"
proof (cases "ring_idle (Ep0Buf d)")
  case True
  then show ?thesis using assms(2) Ep0Read_idle [of d] by simp
next
  case False
  then obtain pkt where "ring_one k pkt (Ep0Buf d)" using assms(1) by (auto simp: ring_ready_def)
  then obtain r where "Ep0Read d = Some (pkt, d\<lparr>Ep0Buf := r\<rparr>)" "ring_idle r" using Ep0Read_one by blast
  then show ?thesis using assms(2) by auto
qed

lemma ready_after_read:
  assumes "Option.bind (Ep0Read d) f = Some d'" and "ring_ready k (Ep0Buf d)" and "core_ok d"
    and "\<And>bs d1. f (bs, d1) = Some d' \<Longrightarrow> keeps d1 d'"
  shows "core_ok d' \<and> ring_idle (Ep0Buf d')"
proof -
  obtain bs d1 where d1: "Ep0Read d = Some (bs, d1)" "f (bs, d1) = Some d'"
    using assms(1) by (auto simp: Option.bind_eq_Some_conv)
  then show ?thesis using Ep0Read_ready [OF assms(2) d1(1)] assms(3) assms(4) [OF d1(2)] by (auto simp: keeps_def)
qed

lemma DataOutStage_ready:
  assumes "DataOutStage d = Some d'" and "ring_ready k (Ep0Buf d)" and "core_ok d"
  shows "core_ok d' \<and> ring_idle (Ep0Buf d')"
  by (rule ready_after_read [OF assms(1) [unfolded DataOutStage_def] assms(2,3)])
    (auto simp: dev_simps split: bind_splits dest: keeps_object_write)

lemma StatusOutStage_ready:
  assumes "StatusOutStage d = Some d'" and "ring_ready k (Ep0Buf d)" and "core_ok d"
  shows "core_ok d' \<and> ring_idle (Ep0Buf d')"
  by (rule ready_after_read [OF assms(1) [unfolded StatusOutStage_def] assms(2,3)])
    (auto dest: keeps_object_write)

lemma EventOut_ready:
  assumes "Ep0EventOut ifs d = Some d'" and "ring_ready k (Ep0Buf d)" and "core_ok d"
  shows "core_ok d' \<and> ring_ready k (Ep0Buf d')"
proof -
  have stay: "core_ok d2 \<and> ring_ready k (Ep0Buf d2)" if "keeps d1 d2" "core_ok d1 \<and> ring_idle (Ep0Buf d1)" for d1 d2 :: "'a usbdev"
    using that by (auto simp: keeps_def ring_ready_def)
  show ?thesis
    using assms StatusOutStage_ready [OF _ assms(2,3)] DataOutStage_ready [OF _ assms(2,3)] stay keeps_OutClass
      keeps_stages(2)
    by (fastforce simp: Ep0EventOut_def ring_ready_def split: if_splits bind_splits)
qed

lemma drop_packet_idle:
  assumes "drop_packet k d = Some d'" and "ring_ready k (Ep0Buf d)"
  shows "ring_idle (Ep0Buf d')" and "core_ok d' = core_ok d"
proof -
  have "ring_idle (Ep0Buf d') \<and> core_ok d' = core_ok d"
  proof (cases "le (Ep0Buf d) = 0")
    case True
    then show ?thesis using assms by (auto simp: drop_packet_def ring_ready_def ring_one_def)
  next
    case False
    then obtain pkt where one: "ring_one k pkt (Ep0Buf d)" using assms(2) by (auto simp: ring_ready_def ring_idle_def)
    then obtain r where r: "Ep0Read d = Some (pkt, d\<lparr>Ep0Buf := r\<rparr>)" "ring_idle r" using Ep0Read_one by blast
    obtain len buf where p: "pb r ! k = (len, buf)" by fastforce
    have "k < length (pb r)" using one r(2) by (simp add: ring_one_def ring_idle_def ring_shape_def)
    then have "(len, buf) \<in> set (pb r)" using p nth_mem by metis
    then have buf: "length buf = 64" using r(2) by (auto simp: ring_idle_def ring_shape_def)
    have d': "d' = d\<lparr>Ep0Buf := r\<lparr>pb := (pb r)[k := (len, pkt @ drop (length pkt) buf)]\<rparr>\<rparr>"
      using assms(1) False r(1) p by (simp add: drop_packet_def Let_def)
    have "length (pkt @ drop (length pkt) buf) = 64" using one buf by (simp add: ring_one_def)
    then have "ring_shape (r\<lparr>pb := (pb r)[k := (len, pkt @ drop (length pkt) buf)]\<rparr>)"
      using ring_shape_update r(2) by (simp add: ring_idle_def)
    then show ?thesis using r(2) by (simp add: d' ring_idle_def)
  qed
  then show "ring_idle (Ep0Buf d')" and "core_ok d' = core_ok d" by simp_all
qed

lemma control_event_ok:
  assumes "device_ok d" and "control_event D ifs e d = Some d'" and "\<And>pkt. e = EVT_OUT pkt \<Longrightarrow> length pkt \<le> 64"
  shows "device_ok d'"
proof -
  have keep: "device_ok d2" if "keeps d d2" for d2 using that assms(1) by (auto simp: keeps_def device_ok_def)
  show ?thesis
  proof (cases e)
    case (EVT_OUT pkt)
    define k where "k = wi (Ep0Buf d)"
    define d1 where "d1 = d\<lparr>Ep0Buf := store_packet pkt (Ep0Buf d)\<rparr>"
    have ready: "ring_ready k (Ep0Buf d1)" "core_ok d1"
      using store_packet_ring [of "Ep0Buf d" pkt] assms(1,3) EVT_OUT
      by (auto simp: ring_ready_def d1_def k_def device_ok_def split: if_splits)
    obtain d2 where d2: "Ep0EventOut ifs d1 = Some d2" "drop_packet k d2 = Some d'"
      using assms(2) EVT_OUT by (auto simp: control_event_def Ep0OutHandler_def Ep0Handler_def Let_def d1_def k_def Option.bind_eq_Some_conv)
    then show ?thesis
      using EventOut_ready [OF d2(1) ready] drop_packet_idle [OF d2(2)] by (auto simp: device_ok_def)
  next
    case (EVT_SETUP pkt)
    then show ?thesis using assms(2) keep [OF keeps_EventSetup] by (simp add: control_event_def Ep0Handler_def)
  next
    case EVT_IN
    then show ?thesis using assms(2) keep keeps_DataIn
      by (auto simp: control_event_def Ep0Handler_def Ep0EventIn_def Let_def dev_simps split: if_splits)
  qed (use assms keep in \<open>auto simp: control_event_def Ep0Handler_def dev_simps\<close>)
qed



section \<open>Requests that leave the objects of the device\<close>

lemma configuration_read:
  "control_event D ifs (EVT_SETUP (request 0x80 8 v i w)) d =
    (if 1 < w then None else
     let d = d\<lparr>SetupPacket := setup_packet (request 0x80 8 v i w), Count := w, pData := (Obj_Configuration, 0)\<rparr>
     in DataInStage D d)"
  by (auto simp: control_event_def Ep0Handler_def Ep0EventSetup_def SetupStage_def request_bits answer_def Let_def
      ReqGetConfiguration_def DataInStage_def object_read_def object_bytes_def USB_MAX_PACKET0_def word_less_nat_alt)

lemma status_read:
  "control_event D ifs (EVT_SETUP (request 0x80 0 v i w)) d =
    (if 2 < w then None else
     let d = d\<lparr>SetupPacket := setup_packet (request 0x80 0 v i w), Count := w, pData := (Obj_DeviceStatus, 0)\<rparr>
     in DataInStage D d)"
  by (auto simp: control_event_def Ep0Handler_def Ep0EventSetup_def SetupStage_def request_bits answer_def Let_def
      ReqGetStatus_def DataInStage_def object_read_def object_bytes_def USB_MAX_PACKET0_def word_less_nat_alt)

text \<open>
  C18: where a host can make the control endpoint leave its objects.  GET_STATUS and GET_CONFIGURATION do not limit the length to the
  size of their answer, so exactly the requests for more than two bytes or one byte send memory from behind the
  object.  And the pointer of the last transfer stays in place: after a GET_CONFIGURATION of length 0 a
  SET_FEATURE with a data stage writes the byte it brings over the number of the configuration, although no configuration is selected
  and no endpoint switched.
\<close>

theorem control_overreach:
  assumes "device_ok d"
  shows "(control_event D ifs (EVT_SETUP (request 0x80 0 0 0 w)) d = None \<longleftrightarrow> 2 < w) \<and>
    (control_event D ifs (EVT_SETUP (request 0x80 8 0 0 w)) d = None \<longleftrightarrow> 1 < w) \<and>
    (\<exists>d'. control_events D ifs
      [EVT_SETUP (request 0x80 8 0 0 0), EVT_SETUP (request 0 3 1 0 1), EVT_OUT [v]] d = Some d' \<and>
      USB_Configuration d' = v \<and> calls d' = calls d @ [Ep0Write [], SetStallEP 0 EndpointIn])"
proof -
  have status: "control_event D ifs (EVT_SETUP (request 0x80 0 0 0 w)) d = None \<longleftrightarrow> 2 < w"
    unfolding status_read
    by (auto simp: Let_def DataInStage_def object_read_def object_bytes_def USB_MAX_PACKET0_def word_less_nat_alt)
  have configuration: "control_event D ifs (EVT_SETUP (request 0x80 8 0 0 w)) d = None \<longleftrightarrow> 1 < w"
    unfolding configuration_read
    by (auto simp: Let_def DataInStage_def object_read_def object_bytes_def USB_MAX_PACKET0_def word_less_nat_alt)
  define d1 where "d1 = d\<lparr>SetupPacket := setup_packet (request 0x80 8 0 0 0), Count := 0, pData := (Obj_Configuration, 0)\<rparr>"
  have d1: "control_event D ifs (EVT_SETUP (request 0x80 8 0 0 0)) d = Some d1"
    unfolding configuration_read by (simp add: DataInStage_def d1_def)
  define d2 where "d2 = StatusInStage (d1\<lparr>SetupPacket := setup_packet (request 0 3 1 0 1), Count := 1,
     USB_DeviceStatus := USB_DeviceStatus d OR USB_GETSTATUS_REMOTE_WAKEUP\<rparr>)"
  have d2: "control_event D ifs (EVT_SETUP (request 0 3 1 0 1)) d1 = Some d2"
    by (simp add: control_event_def Ep0Handler_def Ep0EventSetup_def SetupStage_def request_bits answer_def Let_def
        ReqSetClrFeature_def USB_FEATURE_REMOTE_WAKEUP_def d2_def d1_def)
  define k where "k = wi (Ep0Buf d)"
  have idle: "ring_idle (Ep0Buf d)" "Ep0Buf d2 = Ep0Buf d"
    using assms by (simp_all add: device_ok_def d2_def d1_def StatusInStage_def call_def)
  define d3 where "d3 = d2\<lparr>Ep0Buf := store_packet [v] (Ep0Buf d)\<rparr>"
  have "ring_one k [v] (Ep0Buf d3)" using store_packet_ring [OF idle(1), of "[v]"] by (simp add: d3_def k_def)
  then obtain r where r: "Ep0Read d3 = Some ([v], d3\<lparr>Ep0Buf := r\<rparr>)" "ring_idle r" using Ep0Read_one by blast
  define d4 where "d4 = stall_control (d3\<lparr>Ep0Buf := r, USB_Configuration := v, pData := (Obj_Configuration, 1), Count := 0\<rparr>)"
  have "Ep0EventOut ifs d3 = Some d4"
    using r by (simp add: Ep0EventOut_def DataOutStage_def object_write_def put_at_def d4_def d3_def d2_def d1_def StatusInStage_def
        call_def request_bits)
  moreover have "drop_packet k d4 = Some d4"
    using r(2) by (simp add: drop_packet_def d4_def stall_control_def call_def ring_idle_def)
  ultimately have "control_event D ifs (EVT_OUT [v]) d2 = Some d4"
    by (simp add: control_event_def Ep0OutHandler_def Ep0Handler_def Let_def idle(2) d3_def k_def)
  with d1 d2 have "\<exists>d'. control_events D ifs
      [EVT_SETUP (request 0x80 8 0 0 0), EVT_SETUP (request 0 3 1 0 1), EVT_OUT [v]] d = Some d' \<and>
      USB_Configuration d' = v \<and> calls d' = calls d @ [Ep0Write [], SetStallEP 0 EndpointIn]"
    by (simp add: d4_def d3_def d2_def d1_def StatusInStage_def stall_control_def call_def)
  with status configuration show ?thesis by blast
qed

end
