(* ===== verification/UsbBoot.thy ===== *)
theory UsbBoot
  imports UsbDeviceSafe
begin

unbundle bit_operations_syntax

text \<open>
  The device of the boot loader: the descriptors that its generator writes (\<open>src/work/boot/usbuser.cpp\<close>) served by the control
  endpoint, and the control endpoint with the mass storage class behind its interface.
\<close>

section \<open>The generated descriptors\<close>

text \<open>The length that \<open>enumerate\<close> computes is the number of bytes that \<open>blddsc\<close> prints.\<close>

definition printed_type :: "UsbEndpointType \<Rightarrow> bool" where
  "printed_type t \<longleftrightarrow> t = EndpointTypeBulk \<or> t = EndpointTypeIntr"

lemma iface_blddsc_length:
  "printed_type (ic_type (fst i)) \<Longrightarrow> length (iface_blddsc k s i) = 9 + ep_enumerate (ic_type (fst i)) 0"
  by (auto simp: printed_type_def iface_blddsc_def ep_blddsc_def ep_descriptor_def ep_enumerate_def Let_def)

lemma ep_enumerate_add: "ep_enumerate t n = n + ep_enumerate t 0"
  by (simp add: ep_enumerate_def Let_def)

lemma enumerate_ifaces_length:
  "enumerate_ifaces is (n, t) = Some (strs, len, t') \<Longrightarrow>
   length strs = length is \<and> len = n + sum_list (map (\<lambda>i. 9 + ep_enumerate (ic_type i) 0) is)"
proof (induction "is" arbitrary: n t strs)
  case (Cons i js)
  obtain str t1 where "AddString (ic_String i) t = Some (str, t1)"
    using Cons.prems by (auto simp: iface_enumerate_def Option.bind_eq_Some_conv)
  then show ?case
    using Cons.prems Cons.IH [of "ep_enumerate (ic_type i) (n + 9)" t1] ep_enumerate_add [of "ic_type i" "n + 9"]
    by (auto simp: iface_enumerate_def Option.bind_eq_Some_conv)
qed simp

lemma ifaces_blddsc_length:
  assumes "\<forall>i \<in> set is. printed_type (ic_type (fst i))" and "length strs = length is"
  shows "length (ifaces_blddsc is strs) = sum_list (map (\<lambda>i. 9 + ep_enumerate (ic_type (fst i)) 0) is)"
proof -
  have "sum_list (map (\<lambda>(k, i, s). length (iface_blddsc (of_nat k) s i)) (zip ks (zip is strs))) =
      sum_list (map (\<lambda>i. 9 + ep_enumerate (ic_type (fst i)) 0) is)" if "length ks = length is" for ks
    using that assms(2) [symmetric] assms(1)
    by (induction ks "is" strs rule: list_induct3) (auto simp: iface_blddsc_length)
  then show ?thesis
    by (simp add: ifaces_blddsc_def length_concat o_def split_def)
qed

lemma bldcfg_total:
  assumes "bldcfg is t = Some (m, t')" and "\<forall>i \<in> set is. printed_type (ic_type (fst i))" and "length m < 65536"
  shows "unat (le16 (m ! 2) (m ! 3)) = length m"
proof -
  obtain strs len where e: "enumerate_ifaces (map fst is) (9, t) = Some (strs, len, t')"
    and m: "m = config_header len (length is) @ ifaces_blddsc is strs"
    using assms(1) by (auto simp: bldcfg_def)
  have "length strs = length is" "len = 9 + sum_list (map (\<lambda>i. 9 + ep_enumerate (ic_type (fst i)) 0) is)"
    using enumerate_ifaces_length [OF e] by (simp_all add: o_def)
  then have "len = length m"
    using ifaces_blddsc_length [OF assms(2)] by (simp add: m config_header_def)
  moreover have "le16 (m ! 2) (m ! 3) = of_nat len" by (simp add: m config_header_def)
  ultimately show ?thesis using assms(3) by (simp add: unat_of_nat)
qed

section \<open>The device of the boot loader\<close>

definition utf16 :: "mem \<Rightarrow> mem" where
  "utf16 str = concat (map (\<lambda>c. [c, 0]) str)"

definition boot_config :: config where
  "boot_config = \<lparr>cf_value = 1, cf_interfaces = 1, cf_string = 0, cf_attributes = 0x80, cf_power = 50,
     cf_descrs = [D_interface 0 0 [2, 0x08, 0x06, 0x50, 4], D_endpoint 0x01 [2, 64, 0, 0], D_endpoint 0x81 [2, 64, 0, 0]]\<rparr>"

definition boot_layout :: "mem \<Rightarrow> mem \<Rightarrow> mem \<Rightarrow> mem \<Rightarrow> layout" where
  "boot_layout manufacturer product serial disc =
     \<lparr>lay_device = blddev 1 2 3, lay_configs = [boot_config],
      lay_strings = [0x09, 0x04] # map utf16 [manufacturer, product, serial, disc]\<rparr>"

definition boot_descriptors :: "mem \<Rightarrow> mem \<Rightarrow> mem \<Rightarrow> mem \<Rightarrow> UsbDescriptors option" where
  "boot_descriptors manufacturer product serial disc =
     blddsc (Some manufacturer) (Some product) (Some serial) [[MscIface_config (Some disc)]]"

lemma length_utf16 [simp]: "length (utf16 str) = 2 * length str"
  by (induction str) (simp_all add: utf16_def)

lemma string_descriptor_utf16: "string_descriptor str = string_bytes (utf16 str)"
  by (simp add: string_descriptor_def string_bytes_def) (simp add: utf16_def)

lemma boot_generated:
  "boot_descriptors a b c e = Some
     \<lparr>UsbDeviceDescriptor = blddev 1 2 3, UsbDeviceDescriptorLen = 18, UsbConfigDescriptor = config_bytes boot_config,
      UsbStringDescriptor = concat (map string_bytes (lay_strings (boot_layout a b c e)))\<rparr>"
proof -
  have repl: "replicate MaxUsbStrings (0 :: nat, [] :: mem) = (0, []) # (0, []) # (0, []) # (0, []) # replicate 28 (0, [])"
    by (simp add: MaxUsbStrings_def eval_nat_numeral)
  show ?thesis
    by (simp add: boot_descriptors_def blddsc_def buildDev_def MaxPhyEps_def MaxIfaces_def AddString_def no_strings_def repl
        bldcfg_def iface_enumerate_def ep_enumerate_def MscIface_config_def ifaces_blddsc_def iface_blddsc_def
        ep_blddsc_def ep_descriptor_def ep_type_code_def config_header_def boot_config_def config_bytes_def descrs_bytes_def
        bldstr_def string_descriptor_utf16 boot_layout_def blddev_def string_bytes_def Let_def WB_L_def WB_H_def)
qed


text \<open>The generated constants with a zero byte behind the two lists, which the device needs.\<close>

definition terminated :: "UsbDescriptors \<Rightarrow> UsbDescriptors" where
  "terminated D = D\<lparr>UsbConfigDescriptor := UsbConfigDescriptor D @ [0], UsbStringDescriptor := UsbStringDescriptor D @ [0]\<rparr>"

lemma boot_config_ok: "config_ok boot_config"
  by (simp add: config_ok_def boot_config_def config_bytes_def descrs_bytes_def)

lemma boot_layout_ok:
  "\<forall>s \<in> set [a, b, c, e]. length s \<le> 126 \<Longrightarrow> layout_ok (boot_layout a b c e)"
  by (auto simp: layout_ok_def boot_layout_def boot_config_ok blddev_def)

lemma boot_stored:
  "boot_descriptors a b c e = Some D \<Longrightarrow> terminated D = stored (boot_layout a b c e)"
  by (auto simp: boot_generated terminated_def stored_def boot_layout_def blddev_def)

text \<open>
  C15: the strings given to the generator arrive at the host.  For any four texts that fit a string descriptor the
  generator succeeds, and a device with its constants (and their end marks) answers a request for the string with
  the index \<open>k\<close> with at most four packets that together are the header of a string descriptor and the \<open>k\<close>th text in UTF-16.
\<close>

theorem strings_roundtrip:
  assumes "\<forall>s \<in> set [manufacturer, product, serial, disc]. length s \<le> 126" and "1 \<le> unat k" and "unat k \<le> 4"
  shows "\<exists>D d' ps. boot_descriptors manufacturer product serial disc = Some D \<and>
    control_events (terminated D) ifs (EVT_SETUP (get_descriptor 3 k lang 255) # replicate 3 EVT_IN) d = Some d' \<and>
    calls d' = calls d @ map Ep0Write ps \<and>
    concat ps = (let str = [manufacturer, product, serial, disc] ! (unat k - 1)
      in [of_nat (2 * length str + 2), 3] @ utf16 str)"
proof -
  define L where "L = boot_layout manufacturer product serial disc"
  define str where "str = [manufacturer, product, serial, disc] ! (unat k - 1)"
  obtain D where D: "boot_descriptors manufacturer product serial disc = Some D" "terminated D = stored L"
    using boot_stored [of manufacturer product serial disc] by (simp add: boot_generated L_def)
  have "str \<in> set [manufacturer, product, serial, disc]" unfolding str_def using assms(2,3) by (intro nth_mem) simp
  then have len: "length str \<le> 126" using assms(1) by blast
  have "wanted L USB_STRING_DESCRIPTOR_TYPE (unat k) = Some (string_bytes (utf16 str))"
    using assms(2,3) by (cases "unat k") (simp_all add: wanted_def L_def boot_layout_def str_def flip: list.map)
  moreover have "take 255 (string_bytes (utf16 str)) = string_bytes (utf16 str)"
    using len by (simp add: string_bytes_nth)
  moreover have "take 4 (packets_of (string_bytes (utf16 str))) = packets_of (string_bytes (utf16 str))"
    using len length_packets [of "string_bytes (utf16 str)" 4] by (simp add: string_bytes_nth)
  moreover have "descriptor_type 3 = USB_STRING_DESCRIPTOR_TYPE" by (simp add: descriptor_type_def)
  ultimately obtain d' where
    "control_events (stored L) ifs (EVT_SETUP (get_descriptor 3 k lang 255) # replicate 3 EVT_IN) d = Some d'"
    "calls d' = calls d @ map Ep0Write (packets_of (string_bytes (utf16 str)))"
    using control_read_packets [of L 3 ifs k lang 255 3 d] boot_layout_ok [OF assms(1)]
    by (auto simp: L_def)
  then show ?thesis
    using D concat_packets [of "string_bytes (utf16 str)"] by (auto simp: string_bytes_def str_def Let_def)
qed

section \<open>Constants without an end mark\<close>

lemma boot_numbers: "\<forall>n \<in> set (active 0 (cf_descrs boot_config)). ep_number n = 1"
  by (simp add: boot_config_def ep_number_def)

lemma boot_configuration_run:
  assumes "\<forall>s \<in> set [a, b, c, e]. length s \<le> 126" and "mask_exists d" and "1 < useeps d"
  shows "control_event (stored (boot_layout a b c e)) ifs (EVT_SETUP (request 0 9 v i 0)) d =
      Some (let d1 = select_configuration (boot_layout a b c e) (WB_L v)
          (d\<lparr>SetupPacket := setup_packet (request 0 9 v i 0), Count := 0\<rparr>) in
        if USB_Configuration d1 = WB_L v then StatusInStage d1 else stall_control d1)"
  using boot_layout_ok [OF assms(1)] assms(2,3) boot_numbers
  by (intro configuration_event) (auto simp: boot_layout_def)

text \<open>
  C19: what the generator prints is not what the device reads.  The generator prints no zero byte behind the configuration and behind the
  strings, and the device stops only there: with the generated constants, SET_CONFIGURATION of the one configuration reads behind
  the array, and so does the request for the first string that does not exist; with a zero byte behind the arrays both
  are answered.
\<close>

theorem unterminated_descriptors:
  assumes "\<forall>s \<in> set [manufacturer, product, serial, disc]. length s \<le> 126" and "mask_exists d" and "1 < useeps d"
    and "boot_descriptors manufacturer product serial disc = Some D"
  shows "control_event D ifs (EVT_SETUP (request 0 9 1 0 0)) d = None \<and>
    control_event (terminated D) ifs (EVT_SETUP (request 0 9 1 0 0)) d \<noteq> None \<and>
    control_event D ifs (EVT_SETUP (get_descriptor 3 5 lang w)) d = None \<and>
    control_event (terminated D) ifs (EVT_SETUP (get_descriptor 3 5 lang w)) d \<noteq> None"
proof -
  let ?m = "config_bytes boot_config"
  define d0 where "d0 = d\<lparr>SetupPacket := setup_packet (request 0 9 1 0 0), Count := 0\<rparr>"
  define L where "L = boot_layout manufacturer product serial disc"
  have D: "UsbConfigDescriptor D = ?m" "UsbStringDescriptor D = concat (map string_bytes (lay_strings L))"
    using assms(4) by (auto simp: boot_generated L_def)
  have stored: "terminated D = stored L" using boot_stored [OF assms(4)] by (simp add: L_def)
  have ok: "layout_ok L" using boot_layout_ok [OF assms(1)] by (simp add: L_def)
  have "set_config_loop ?m 1 (length ([] :: mem)) 0 d0 = set_config_loop ?m 1 (length ([] @ ?m)) (last_alt 0 (cf_descrs boot_config))
      (switch_on (active 0 (cf_descrs boot_config)) (entered boot_config d0))"
    using assms(2,3) boot_numbers boot_config_ok
    by (intro walk_entered [where b = "[]"]) (simp_all add: d0_def, simp add: boot_config_def)
  also have "\<dots> = None" by (subst set_config_loop.simps) (simp add: read8_def)
  finally have "ReqSetConfiguration D d0 = None"
    by (simp add: ReqSetConfiguration_def d0_def D WB_L_def request_bits)
  then have one: "control_event D ifs (EVT_SETUP (request 0 9 1 0 0)) d = None"
    by (simp add: control_event_def Ep0Handler_def Ep0EventSetup_def SetupStage_def request_bits d0_def Let_def)
  have two: "control_event (terminated D) ifs (EVT_SETUP (request 0 9 1 0 0)) d \<noteq> None"
    unfolding stored L_def using boot_configuration_run [OF assms(1-3), of ifs 1 0] by simp
  have "skip_strings (UsbStringDescriptor D) 5 0 = Some (length (UsbStringDescriptor D))"
    using skip_strings_within [of "lay_strings L" "UsbStringDescriptor D" "[]" "[]" 5] ok
    by (simp add: D(2) layout_ok_def) (simp add: L_def boot_layout_def)
  then have three: "control_event D ifs (EVT_SETUP (get_descriptor 3 5 lang w)) d = None"
    by (simp add: get_descriptor_event ReqGetDescriptor_def get_descriptor_setup request_bits descriptor_type_def Let_def
        read8_def)
  have four: "control_event (terminated D) ifs (EVT_SETUP (get_descriptor 3 5 lang w)) d \<noteq> None"
    unfolding stored using control_read_packets [OF ok, of 3 ifs 5 lang w 0 d]
    by (auto simp: descriptor_type_def Option.bind_eq_Some_conv)
  from one two three four show ?thesis by blast
qed

section \<open>The mass storage class behind the interface\<close>

lemma class_request_bits:
  "BM_Type \<lparr>bmRequestType = 0x21, bRequest = r, wValue = v, wIndex = i, wLength = w\<rparr> = REQUEST_CLASS"
  "BM_Recipient \<lparr>bmRequestType = 0x21, bRequest = r, wValue = v, wIndex = i, wLength = w\<rparr> = REQUEST_TO_INTERFACE"
  "BM_Type \<lparr>bmRequestType = 0xA1, bRequest = r, wValue = v, wIndex = i, wLength = w\<rparr> = REQUEST_CLASS"
  "BM_Recipient \<lparr>bmRequestType = 0xA1, bRequest = r, wValue = v, wIndex = i, wLength = w\<rparr> = REQUEST_TO_INTERFACE"
  by (simp_all add: BM_Type_def BM_Recipient_def Let_def)

text \<open>GET MAX LUN: one byte, the number 0.\<close>

lemma max_lun_answer:
  assumes "2 \<le> length (EP0Buf d)"
  shows "\<exists>d'. control_event D [MscIface] (EVT_SETUP (request 0xA1 0xFE 0 0 1)) d = Some d' \<and>
    calls d' = calls d @ [Ep0Write [0]]"
  using assms
  by (simp add: control_event_def Ep0Handler_def Ep0EventSetup_def SetupStage_def class_request_bits Ep0SetupClass_def
      MscIface_def SetupHandler_def GetMaxLUN_def status_word_def bool_word_def DataInStage_def USB_MAX_PACKET0_def
      object_read_def object_bytes_def call_def WB_L_def Let_def)

text \<open>The interface number of a class request is an index into the table of interfaces, without a check.\<close>

lemma missing_interface:
  assumes "length ifs \<le> unat (WB_L i)"
  shows "control_event D ifs (EVT_SETUP (request 0x21 r v i w)) d = None"
  using assms
  by (simp add: control_event_def Ep0Handler_def Ep0EventSetup_def SetupStage_def class_request_bits Ep0SetupClass_def Let_def)

lemma reset_request:
  "\<exists>d'. control_event D [MscIface] (EVT_SETUP (request 0x21 0xFF 0 0 0)) d = Some d' \<and>
    classes d' = Reset (classes d) \<and> calls d' = calls d @ [Ep0Write []] \<and> USB_EndPointStall d' = 0 \<and>
    USB_Configuration d' = USB_Configuration d \<and> USB_EndPointMask d' = USB_EndPointMask d \<and> useeps d' = useeps d"
  by (simp add: control_event_def Ep0Handler_def Ep0EventSetup_def SetupStage_def class_request_bits Ep0SetupClass_def
      MscIface_def SetupHandler_def Reset_def emit_def StatusInStage_def call_def WB_L_def Let_def class_call_def
      ClrStallMask_def)

text \<open>
  C10: reset recovery of the bulk-only transport.  Whatever went wrong before, on a configured device the sequence of the
  protocol (reset request to the interface, then CLEAR_FEATURE for both bulk endpoints) always succeeds: every step
  is acknowledged, the mass storage class waits for a command again, the stall of both endpoints is taken back in the
  hardware, and neither is marked as halted or stalled any more.
\<close>

theorem reset_recovery:
  assumes "USB_Configuration d \<noteq> 0" and "1 < useeps d"
    and "USB_EndPointMask d AND ep_mask 0x81 \<noteq> 0" and "USB_EndPointMask d AND ep_mask 0x01 \<noteq> 0"
  shows "\<exists>d'. control_events D [MscIface] [EVT_SETUP (request 0x21 0xFF 0 0 0),
      EVT_SETUP (request 2 1 0 0x81 0), EVT_SETUP (request 2 1 0 0x01 0)] d = Some d' \<and>
    classes d' = Reset (classes d) \<and> BulkStage (classes d') = MSC_BS_CBW \<and>
    calls d' = calls d @ [Ep0Write [], ClrStallEP 1 EndpointIn, Ep0Write [], ClrStallEP 1 EndpointOut, Ep0Write []] \<and>
    USB_EndPointHalt d' AND (ep_mask 0x81 OR ep_mask 0x01) = 0 \<and> USB_EndPointStall d' = 0"
proof -
  have n: "ep_number 0x81 = 1" "ep_number 0x01 = 1" "ep_dir 0x81 = EndpointIn" "ep_dir 0x01 = EndpointOut"
    by (simp_all add: ep_number_def ep_dir_def)
  obtain d1 where d1: "control_event D [MscIface] (EVT_SETUP (request 0x21 0xFF 0 0 0)) d = Some d1"
    "classes d1 = Reset (classes d)" "calls d1 = calls d @ [Ep0Write []]" "USB_EndPointStall d1 = 0"
    "USB_Configuration d1 = USB_Configuration d" "USB_EndPointMask d1 = USB_EndPointMask d" "useeps d1 = useeps d"
    using reset_request [where D = D and d = d] by blast
  obtain d2 where d2: "control_event D [MscIface] (EVT_SETUP (request 2 1 0 0x81 0)) d1 = Some d2"
    "calls d2 = calls d1 @ [ClrStallEP 1 EndpointIn, Ep0Write []]" "USB_EndPointStall d2 = 0"
    "USB_Configuration d2 = USB_Configuration d" "USB_EndPointMask d2 = USB_EndPointMask d" "useeps d2 = useeps d"
    "USB_EndPointHalt d2 = USB_EndPointHalt d1 AND NOT (ep_mask 0x81)" "classes d2 = classes d1"
    using endpoint_feature_event [where n = "0x81" and d = d1 and sc = False] assms d1 n by auto
  obtain d3 where d3: "control_event D [MscIface] (EVT_SETUP (request 2 1 0 0x01 0)) d2 = Some d3"
    "calls d3 = calls d2 @ [ClrStallEP 1 EndpointOut, Ep0Write []]" "USB_EndPointStall d3 = 0"
    "USB_EndPointHalt d3 = USB_EndPointHalt d2 AND NOT (ep_mask 0x01)" "classes d3 = classes d2"
    using endpoint_feature_event [where n = "0x01" and d = d2 and sc = False] assms d2 n by auto
  have "USB_EndPointHalt d3 AND (ep_mask 0x81 OR ep_mask 0x01) = 0"
    unfolding d3(4) d2(7) by (rule bit_word_eqI) (auto simp: bit_simps)
  then show ?thesis
    using d1 d2 d3 by (simp add: Reset_def Let_def)
qed


section \<open>Examples\<close>

definition example_usb :: "unit usbdev" where
  "example_usb = ResetCore (initial_device 2 ())"

definition configured_usb :: "'c \<Rightarrow> 'c usbdev" where
  "configured_usb c = (initial_device 2 c)\<lparr>USB_Configuration := 1, USB_EndPointMask := 0x00030003\<rparr>"

definition example_layout :: layout where
  "example_layout = boot_layout [77] [66] [48, 48] [68]"

lemma example_layout_ok: "layout_ok example_layout"
  by (simp add: example_layout_def boot_layout_ok)

lemma example_ring: "ring_idle (Ep0Buf (initial_device n c))"
  by (simp add: initial_device_def ring_idle_def ring_shape_def Ep0MaxBuffers_def)

lemma example_usb_ok: "device_ok example_usb"
  using exist_reset [of 2] example_ring [of 2 "()"]
  by (simp add: device_ok_def core_ok_def example_usb_def ResetCore_def initial_device_def MaxPhyEps_def)

lemma example_usb_exists: "mask_exists example_usb"
  using example_usb_ok by (simp add: device_ok_def core_ok_def endpoints_exist_def mask_exists_def MaxPhyEps_def)



lemma configured_mask: "bit (0x00030003 :: u32) 1" "bit (0x00030003 :: u32) 17"
  by simp_all

lemma ep_masks_one: "ep_mask 0x01 = 2" "ep_mask 0x81 = 0x20000" "ep_number 0x01 = 1" "ep_number 0x81 = 1"
  "ep_dir 0x81 = EndpointIn"
  by (simp_all add: ep_mask_def ep_bit_def ep_number_def ep_dir_def)

theorem endpoint_halt_witness:
  "\<exists>d'. control_events (stored example_layout) [] [EVT_SETUP (request 2 3 0 0x81 0), EVT_SETUP (request 0x82 0 0 0x81 2),
      EVT_SETUP (request 2 1 0 0x81 0), EVT_SETUP (request 0x82 0 0 0x81 2)] (configured_usb ()) = Some d' \<and>
    calls d' = [SetStallEP 1 EndpointIn, Ep0Write [], Ep0Write [1, 0], ClrStallEP 1 EndpointIn, Ep0Write [], Ep0Write [0, 0]]"
  using endpoint_halt [of "0x81" "configured_usb ()" "stored example_layout" "[]"] ep_masks_one
  by (simp add: configured_usb_def initial_device_def USB_MAX_PACKET0_def)


theorem control_overreach_witness:
  "\<exists>d'. control_events (stored example_layout) [] [EVT_SETUP (request 0x80 8 0 0 0), EVT_SETUP (request 0 3 1 0 1), EVT_OUT [9]]
     example_usb = Some d' \<and> USB_Configuration d' = 9"
  using control_overreach [OF example_usb_ok, of "stored example_layout" "[]" 3 9] by blast

theorem strings_roundtrip_witness:
  "\<exists>D d' ps. boot_descriptors [77] [66] [48, 48] [68] = Some D \<and>
    control_events (terminated D) [] (EVT_SETUP (get_descriptor 3 3 0x409 255) # replicate 3 EVT_IN) example_usb = Some d' \<and>
    calls d' = map Ep0Write ps \<and> concat ps = [6, 3, 48, 0, 48, 0]"
  using strings_roundtrip [where manufacturer = "[77]" and product = "[66]" and serial = "[48, 48]" and disc = "[68]"
      and k = 3 and ifs = "[]" and lang = "0x409" and d = example_usb]
  by (simp add: utf16_def example_usb_def ResetCore_def initial_device_def)

theorem unterminated_descriptors_witness:
  "control_event (the (boot_descriptors [77] [66] [48, 48] [68])) [] (EVT_SETUP (request 0 9 1 0 0)) example_usb = None"
  using unterminated_descriptors [of "[77]" "[66]" "[48, 48]" "[68]" example_usb _ "[]", OF _ example_usb_exists]
  by (simp add: boot_generated example_usb_def ResetCore_def initial_device_def)

theorem reset_recovery_witness:
  "\<exists>d'. control_events (stored example_layout) [MscIface] [EVT_SETUP (request 0x21 0xFF 0 0 0),
      EVT_SETUP (request 2 1 0 0x81 0), EVT_SETUP (request 2 1 0 0x01 0)] (configured_usb ((MsClass 1 ())\<lparr>BulkStage := MSC_BS_ERROR\<rparr>)) = Some d' \<and>
    BulkStage (classes d') = MSC_BS_CBW"
  using reset_recovery [of "configured_usb ((MsClass 1 ())\<lparr>BulkStage := MSC_BS_ERROR\<rparr>)" "stored example_layout"] ep_masks_one
  by (auto simp: configured_usb_def initial_device_def)

end
