(* ===== verification/GsmArith.thy ===== *)
theory GsmArith
  imports Prelude
begin

unbundle bit_operations_syntax

text \<open>
  The arithmetic of the GSM 06.10 speech codec: \<open>src/work/text/gsm/inc/private.h\<close> and \<open>src/work/text/gsm/src/add.c\<close>, with the
  compile options of the repository (\<open>SASR\<close>, \<open>WAV49\<close>, \<open>NDEBUG\<close>) for the ARM target, where a \<open>longword\<close> has 32 bits.
  A \<open>word\<close> is an integer; \<open>s16\<close> and \<open>s32\<close> are the conversions to the signed types and \<open>u32i\<close> that to the unsigned one, written out
  where the code can leave the range.  Without \<open>NDEBUG\<close> the assertions of the code would stop it; here they are lemmas.
\<close>

section \<open>The types\<close>

definition s16 :: "int \<Rightarrow> int" where "s16 x = (x + 32768) mod 65536 - 32768"
definition s32 :: "int \<Rightarrow> int" where "s32 x = (x + 2147483648) mod 4294967296 - 2147483648"
definition u32i :: "int \<Rightarrow> int" where "u32i x = x mod 4294967296"

definition MIN_WORD :: int where "MIN_WORD = - 32767 - 1"
definition MAX_WORD :: int where "MAX_WORD = 32767"
definition MIN_LONGWORD :: int where "MIN_LONGWORD = - 2147483647 - 1"
definition MAX_LONGWORD :: int where "MAX_LONGWORD = 2147483647"

abbreviation is_word :: "int \<Rightarrow> bool" where "is_word x \<equiv> - 32768 \<le> x \<and> x \<le> 32767"
abbreviation is_long :: "int \<Rightarrow> bool" where "is_long x \<equiv> - 2147483648 \<le> x \<and> x \<le> 2147483647"

definition SASR :: "int \<Rightarrow> nat \<Rightarrow> int" where "SASR x n = drop_bit n x"

text \<open>The state of the codec (\<open>struct gsm_state\<close>); the one-letter members have a prefix.\<close>

record gsm_state =
  dp0 :: "int list"
  gs_e :: "int list"
  z1 :: int
  L_z2 :: int
  gs_mp :: int
  gs_u :: "int list"
  LARpp :: "int list list"
  gs_j :: nat
  ltp_cut :: int
  nrp :: int
  gs_v :: "int list"
  msr :: int
  verbose :: u8
  fast :: u8
  wav_fmt :: u8
  frame_index :: u8
  frame_chain :: u8

text \<open>\<open>gsm_create\<close> (and the constructor of \<open>GsmStatic\<close>) when there is memory: all zero, but \<open>nrp\<close> is 40.\<close>

definition gsm_create :: gsm_state where
  "gsm_create = \<lparr> dp0 = replicate 280 0, gs_e = replicate 50 0, z1 = 0, L_z2 = 0, gs_mp = 0, gs_u = replicate 8 0,
     LARpp = replicate 2 (replicate 8 0), gs_j = 0, ltp_cut = 0, nrp = 40, gs_v = replicate 9 0, msr = 0,
     verbose = 0, fast = 0, wav_fmt = 0, frame_index = 0, frame_chain = 0 \<rparr>"

text \<open>
  \<open>gsm_option\<close>, with the result and the new value when one is given; an option that is not
  compiled in returns -1.
\<close>

datatype gsm_opt =
    GSM_OPT_VERBOSE | GSM_OPT_FAST | GSM_OPT_LTP_CUT | GSM_OPT_WAV49 | GSM_OPT_FRAME_INDEX | GSM_OPT_FRAME_CHAIN
  | GSM_OPT_other

definition gsm_option :: "gsm_opt \<Rightarrow> int option \<Rightarrow> gsm_state \<Rightarrow> int \<times> gsm_state" where
  "gsm_option opt val r = (case opt of
       GSM_OPT_FRAME_CHAIN \<Rightarrow> (uint (frame_chain r), case val of None \<Rightarrow> r | Some x \<Rightarrow> r\<lparr>frame_chain := word_of_int x\<rparr>)
     | GSM_OPT_FRAME_INDEX \<Rightarrow> (uint (frame_index r), case val of None \<Rightarrow> r | Some x \<Rightarrow> r\<lparr>frame_index := word_of_int x\<rparr>)
     | GSM_OPT_WAV49 \<Rightarrow> (uint (wav_fmt r), case val of None \<Rightarrow> r | Some x \<Rightarrow> r\<lparr>wav_fmt := of_bool (x \<noteq> 0)\<rparr>)
     | _ \<Rightarrow> (- 1, r))"

section \<open>The macros\<close>

definition GSM_MULT_R :: "int \<Rightarrow> int \<Rightarrow> int" where "GSM_MULT_R a b = SASR (a * b + 16384) 15"
definition GSM_MULT :: "int \<Rightarrow> int \<Rightarrow> int" where "GSM_MULT a b = SASR (a * b) 15"

definition GSM_L_ADD :: "int \<Rightarrow> int \<Rightarrow> int" where
  "GSM_L_ADD a b =
     (if a < 0 then
        if b \<ge> 0 then a + b
        else let utmp = u32i (u32i (- (a + 1)) + u32i (- (b + 1)))
             in if utmp \<ge> MAX_LONGWORD then MIN_LONGWORD else - s32 utmp - 2
      else if b \<le> 0 then a + b
      else let utmp = u32i (u32i a + u32i b) in if utmp \<ge> MAX_LONGWORD then MAX_LONGWORD else utmp)"

definition GSM_ADD :: "int \<Rightarrow> int \<Rightarrow> int" where
  "GSM_ADD a b =
     (let ltmp = a + b
      in if u32i (ltmp - MIN_WORD) > MAX_WORD - MIN_WORD then if ltmp > 0 then MAX_WORD else MIN_WORD else ltmp)"

definition GSM_SUB :: "int \<Rightarrow> int \<Rightarrow> int" where
  "GSM_SUB a b =
     (let ltmp = a - b in if ltmp \<ge> MAX_WORD then MAX_WORD else if ltmp \<le> MIN_WORD then MIN_WORD else ltmp)"

definition GSM_ABS :: "int \<Rightarrow> int" where
  "GSM_ABS a = (if a < 0 then if a = MIN_WORD then MAX_WORD else - a else a)"

section \<open>The functions\<close>

definition saturate :: "int \<Rightarrow> int" where
  "saturate x = (if x < MIN_WORD then MIN_WORD else if x > MAX_WORD then MAX_WORD else x)"

definition gsm_add :: "int \<Rightarrow> int \<Rightarrow> int" where "gsm_add a b = (let sum = a + b in saturate sum)"
definition gsm_sub :: "int \<Rightarrow> int \<Rightarrow> int" where "gsm_sub a b = (let diff = a - b in saturate diff)"

definition gsm_mult :: "int \<Rightarrow> int \<Rightarrow> int" where
  "gsm_mult a b = (if a = MIN_WORD \<and> b = MIN_WORD then MAX_WORD else s16 (SASR (a * b) 15))"

definition gsm_mult_r :: "int \<Rightarrow> int \<Rightarrow> int" where
  "gsm_mult_r a b =
     (if b = MIN_WORD \<and> a = MIN_WORD then MAX_WORD
      else let prod = a * b + 16384; prod = drop_bit 15 prod in s16 (prod AND 0xFFFF))"

definition gsm_abs :: "int \<Rightarrow> int" where
  "gsm_abs a = (if a < 0 then if a = MIN_WORD then MAX_WORD else - a else a)"

definition gsm_L_mult :: "int \<Rightarrow> int \<Rightarrow> int" where "gsm_L_mult a b = s32 (push_bit 1 (a * b))"

definition gsm_L_add :: "int \<Rightarrow> int \<Rightarrow> int" where
  "gsm_L_add a b =
     (if a < 0 then
        if b \<ge> 0 then a + b
        else let A = u32i (u32i (- (a + 1)) + u32i (- (b + 1)))
             in if A \<ge> MAX_LONGWORD then MIN_LONGWORD else - s32 A - 2
      else if b \<le> 0 then a + b
      else let A = u32i (u32i a + u32i b) in if A > MAX_LONGWORD then MAX_LONGWORD else A)"

definition gsm_L_sub :: "int \<Rightarrow> int \<Rightarrow> int" where
  "gsm_L_sub a b =
     (if a \<ge> 0 then
        if b \<ge> 0 then a - b
        else let A = u32i (u32i a + - (b + 1)) in if A \<ge> MAX_LONGWORD then MAX_LONGWORD else A + 1
      else if b \<le> 0 then a - b
      else let A = u32i (u32i (- (a + 1)) + b) in if A \<ge> MAX_LONGWORD then MIN_LONGWORD else - s32 A - 1)"

definition bitoff :: "int list" where
  "bitoff = [
     8, 7, 6, 6, 5, 5, 5, 5, 4, 4, 4, 4, 4, 4, 4, 4,
     3, 3, 3, 3, 3, 3, 3, 3, 3, 3, 3, 3, 3, 3, 3, 3,
     2, 2, 2, 2, 2, 2, 2, 2, 2, 2, 2, 2, 2, 2, 2, 2,
     2, 2, 2, 2, 2, 2, 2, 2, 2, 2, 2, 2, 2, 2, 2, 2,
     1, 1, 1, 1, 1, 1, 1, 1, 1, 1, 1, 1, 1, 1, 1, 1,
     1, 1, 1, 1, 1, 1, 1, 1, 1, 1, 1, 1, 1, 1, 1, 1,
     1, 1, 1, 1, 1, 1, 1, 1, 1, 1, 1, 1, 1, 1, 1, 1,
     1, 1, 1, 1, 1, 1, 1, 1, 1, 1, 1, 1, 1, 1, 1, 1,
     0, 0, 0, 0, 0, 0, 0, 0, 0, 0, 0, 0, 0, 0, 0, 0,
     0, 0, 0, 0, 0, 0, 0, 0, 0, 0, 0, 0, 0, 0, 0, 0,
     0, 0, 0, 0, 0, 0, 0, 0, 0, 0, 0, 0, 0, 0, 0, 0,
     0, 0, 0, 0, 0, 0, 0, 0, 0, 0, 0, 0, 0, 0, 0, 0,
     0, 0, 0, 0, 0, 0, 0, 0, 0, 0, 0, 0, 0, 0, 0, 0,
     0, 0, 0, 0, 0, 0, 0, 0, 0, 0, 0, 0, 0, 0, 0, 0,
     0, 0, 0, 0, 0, 0, 0, 0, 0, 0, 0, 0, 0, 0, 0, 0,
     0, 0, 0, 0, 0, 0, 0, 0, 0, 0, 0, 0, 0, 0, 0, 0]"

definition gsm_norm :: "int \<Rightarrow> int" where
  "gsm_norm a =
     (if a < 0 \<and> a \<le> - 1073741824 then 0 else
      let a = (if a < 0 then NOT a else a) in
      if u32i a AND 0xFFFF0000 \<noteq> 0 then
        if u32i a AND 0xFF000000 \<noteq> 0 then - 1 + bitoff ! nat (0xFF AND drop_bit 24 a)
        else 7 + bitoff ! nat (0xFF AND drop_bit 16 a)
      else if a AND 0xFF00 \<noteq> 0 then 15 + bitoff ! nat (0xFF AND drop_bit 8 a)
      else 23 + bitoff ! nat (0xFF AND a))"

text \<open>The shifts call each other for a negative count; here the second call is its branch.\<close>

definition gsm_L_asr :: "int \<Rightarrow> int \<Rightarrow> int" where
  "gsm_L_asr a n =
     (if n \<ge> 32 then - of_bool (a < 0) else if n \<le> - 32 then 0
      else if n < 0 then s32 (push_bit (nat (- n)) a) else drop_bit (nat n) a)"

definition gsm_L_asl :: "int \<Rightarrow> int \<Rightarrow> int" where
  "gsm_L_asl a n =
     (if n \<ge> 32 then 0 else if n \<le> - 32 then - of_bool (a < 0)
      else if n < 0 then gsm_L_asr a (- n) else s32 (push_bit (nat n) a))"

definition gsm_asr :: "int \<Rightarrow> int \<Rightarrow> int" where
  "gsm_asr a n =
     (if n \<ge> 16 then - of_bool (a < 0) else if n \<le> - 16 then 0
      else if n < 0 then s16 (push_bit (nat (- n)) a) else drop_bit (nat n) a)"

definition gsm_asl :: "int \<Rightarrow> int \<Rightarrow> int" where
  "gsm_asl a n =
     (if n \<ge> 16 then 0 else if n \<le> - 16 then - of_bool (a < 0)
      else if n < 0 then gsm_asr a (- n) else s16 (push_bit (nat n) a))"

primrec div_loop :: "nat \<Rightarrow> int \<Rightarrow> int \<Rightarrow> int \<Rightarrow> int" where
  "div_loop 0 L_denum div' L_num = div'"
| "div_loop (Suc k) L_denum div' L_num =
     (let div' = s16 (push_bit 1 div'); L_num = s32 (push_bit 1 L_num)
      in if L_num \<ge> L_denum then div_loop k L_denum (div' + 1) (L_num - L_denum)
         else div_loop k L_denum div' L_num)"

definition gsm_div :: "int \<Rightarrow> int \<Rightarrow> int" where
  "gsm_div num denum = (if num = 0 then 0 else div_loop 15 denum 0 num)"

section \<open>Ranges\<close>

named_theorems gsm_arith \<open>the arithmetic in terms of the integers\<close>

lemma SASR_div [gsm_arith]: "SASR x n = x div 2 ^ n"
  by (simp add: SASR_def drop_bit_eq_div)

lemma s16_range: "is_word (s16 x)"
  by (simp add: s16_def)

lemma s16_id [simp]: "is_word x \<Longrightarrow> s16 x = x"
  by (simp add: s16_def)

lemma s32_id [simp]: "is_long x \<Longrightarrow> s32 x = x"
  by (simp add: s32_def)

lemma u32i_id [simp]: "0 \<le> x \<Longrightarrow> x < 4294967296 \<Longrightarrow> u32i x = x"
  by (simp add: u32i_def)

definition clamp :: "int \<Rightarrow> int \<Rightarrow> int \<Rightarrow> int" where
  "clamp lo hi x = max lo (min hi x)"

lemma clamp_range: "lo \<le> hi \<Longrightarrow> lo \<le> clamp lo hi x \<and> clamp lo hi x \<le> hi"
  by (auto simp: clamp_def)

lemmas word_limits = MIN_WORD_def MAX_WORD_def MIN_LONGWORD_def MAX_LONGWORD_def

lemma GSM_ADD_clamp: "is_word a \<Longrightarrow> is_word b \<Longrightarrow> GSM_ADD a b = clamp (- 32768) 32767 (a + b)"
proof -
  assume ab: "is_word a" "is_word b"
  have "u32i (a + b + 32768) = (if a + b + 32768 < 0 then a + b + 32768 + 4294967296 else a + b + 32768)"
    using ab by (auto simp: u32i_def mod_pos_pos_trivial intro: mod_add_self2 [THEN sym, THEN trans])
  then show ?thesis using ab by (auto simp: GSM_ADD_def Let_def word_limits clamp_def)
qed

lemma GSM_SUB_clamp: "GSM_SUB a b = clamp (- 32768) 32767 (a - b)"
  by (auto simp: GSM_SUB_def Let_def word_limits clamp_def)

lemma saturate_clamp: "saturate x = clamp (- 32768) 32767 x"
  by (auto simp: saturate_def word_limits clamp_def)

lemma GSM_L_ADD_clamp: "is_long a \<Longrightarrow> is_long b \<Longrightarrow> GSM_L_ADD a b = clamp (- 2147483648) 2147483647 (a + b)"
  by (auto simp: GSM_L_ADD_def Let_def word_limits clamp_def)

section \<open>Properties\<close>

text \<open>
  On the values of their types the additions and subtractions, the functions and the macros that replace them, are
  the sum and the difference limited to the range of the result.
\<close>

theorem gsm_saturation:
  "(is_word a \<longrightarrow> is_word b \<longrightarrow>
      gsm_add a b = clamp (- 32768) 32767 (a + b) \<and> GSM_ADD a b = gsm_add a b \<and>
      gsm_sub a b = clamp (- 32768) 32767 (a - b) \<and> GSM_SUB a b = gsm_sub a b)
   \<and> (is_long a \<longrightarrow> is_long b \<longrightarrow>
      gsm_L_add a b = clamp (- 2147483648) 2147483647 (a + b) \<and> GSM_L_ADD a b = gsm_L_add a b \<and>
      gsm_L_sub a b = clamp (- 2147483648) 2147483647 (a - b))"
proof (intro conjI impI)
  assume "is_word a" "is_word b"
  then show "gsm_add a b = clamp (- 32768) 32767 (a + b)" "GSM_ADD a b = gsm_add a b"
    "gsm_sub a b = clamp (- 32768) 32767 (a - b)" "GSM_SUB a b = gsm_sub a b"
    by (simp_all add: gsm_add_def gsm_sub_def GSM_ADD_clamp GSM_SUB_clamp saturate_clamp)
next
  assume ab: "is_long a" "is_long b"
  then show add: "gsm_L_add a b = clamp (- 2147483648) 2147483647 (a + b)"
    by (auto simp: gsm_L_add_def Let_def word_limits clamp_def)
  show "GSM_L_ADD a b = gsm_L_add a b" using ab add by (simp add: GSM_L_ADD_clamp)
  show "gsm_L_sub a b = clamp (- 2147483648) 2147483647 (a - b)"
    using ab by (auto simp: gsm_L_sub_def Let_def word_limits clamp_def)
qed

theorem gsm_saturation_witness:
  "gsm_add 30000 5000 = 32767 \<and> gsm_L_sub (- 2147483648) 1 = - 2147483648"
  using gsm_saturation [of 30000 5000] gsm_saturation [of "- 2147483648" 1] by (simp add: clamp_def)

text \<open>The table gives the number of leading zero bits of a byte.\<close>

lemma bitoff_all: "list_all (\<lambda>(i, b). i = 0 \<or> (128 \<le> int i * 2 ^ nat b \<and> (int i + 1) * 2 ^ nat b \<le> 256 \<and> 0 \<le> b))
    (enumerate 0 bitoff)"
  unfolding bitoff_def by (simp add: eval_nat_numeral)

lemma bitoff_top:
  assumes "0 < x" and "x < (256 :: int)"
  shows "128 \<le> x * 2 ^ nat (bitoff ! nat x) \<and> (x + 1) * 2 ^ nat (bitoff ! nat x) \<le> 256 \<and> 0 \<le> bitoff ! nat x"
proof -
  have "length bitoff = 256" by (simp add: bitoff_def)
  then have "nat x < length (enumerate 0 bitoff)" using assms by simp
  with bitoff_all have "case enumerate 0 bitoff ! nat x of (i, b) \<Rightarrow>
      i = 0 \<or> (128 \<le> int i * 2 ^ nat b \<and> (int i + 1) * 2 ^ nat b \<le> 256 \<and> 0 \<le> b)"
    by (simp add: list_all_length)
  then show ?thesis using assms \<open>length bitoff = 256\<close> by (simp add: nth_enumerate_eq)
qed

lemma bitoff_zero: "bitoff ! 0 = 8"
  by (simp add: bitoff_def)

lemma and_high_mask: "(x :: int) AND push_bit n (mask k) = push_bit n (take_bit k (drop_bit n x))"
  by (rule bit_eqI) (auto simp: bit_simps)

lemma high_masks: "(0xFFFF0000 :: int) = push_bit 16 (mask 16)" "(0xFF000000 :: int) = push_bit 24 (mask 8)"
  "(0xFF00 :: int) = push_bit 8 (mask 8)" "(0xFF :: int) = mask 8"
  by (simp_all add: mask_eq_exp_minus_1 push_bit_eq_mult)

lemma int_div_less:
  assumes "0 < (d :: int)" and "n < k * d"
  shows "n div d < k"
proof (rule ccontr)
  assume "\<not> n div d < k"
  then have "k * d \<le> n div d * d" using assms(1) by (intro mult_right_mono) simp_all
  moreover have "n div d * d \<le> n" using div_mult_mod_eq [of n d] pos_mod_sign [of d n] assms(1) by linarith
  ultimately show False using assms(2) by linarith
qed

lemma and_high_zero:
  assumes "0 \<le> (x :: int)" and "x < 2 ^ (n + k)"
  shows "x AND push_bit n (mask k) = 0 \<longleftrightarrow> x < 2 ^ n"
proof -
  have "x div 2 ^ n < 2 ^ k" using assms(2) by (intro int_div_less) (simp_all add: power_add mult.commute)
  moreover have "0 \<le> x div 2 ^ n" using assms(1) by (simp add: pos_imp_zdiv_nonneg_iff)
  ultimately have "take_bit k (drop_bit n x) = x div 2 ^ n" by (simp add: drop_bit_eq_div take_bit_eq_mod)
  then show ?thesis using assms(1) zdiv_eq_0_iff [of x "2 ^ n"] by (auto simp add: and_high_mask)
qed

lemma norm_masks:
  assumes "0 \<le> a" and "a < 2147483648"
  shows "u32i a AND 0xFFFF0000 \<noteq> 0 \<longleftrightarrow> 65536 \<le> a" and "u32i a AND 0xFF000000 \<noteq> 0 \<longleftrightarrow> 16777216 \<le> a"
    and "0xFF AND drop_bit 24 a = a div 16777216"
    and "a < 65536 \<Longrightarrow> a AND 0xFF00 \<noteq> 0 \<longleftrightarrow> 256 \<le> a"
    and "a < 16777216 \<Longrightarrow> 0xFF AND drop_bit 16 a = a div 65536"
    and "a < 65536 \<Longrightarrow> 0xFF AND drop_bit 8 a = a div 256"
    and "a < 256 \<Longrightarrow> 0xFF AND a = a"
  using assms
  using and_high_zero [of a 16 16] and_high_zero [of a 24 8] and_high_zero [of a 8 8]
  by (auto simp add: high_masks take_bit_eq_mod drop_bit_eq_div and.commute [of "mask 8"] simp del: push_bit_mask_eq
      simp flip: take_bit_eq_mask)

text \<open>
  The normalisation: shifting left by \<open>gsm_norm a\<close> brings the leading bit of \<open>a\<close> to bit 30.
\<close>

lemma norm_positive:
  assumes "0 < a" and "a < 2147483648"
  shows "0 \<le> gsm_norm a \<and> 1073741824 \<le> a * 2 ^ nat (gsm_norm a) \<and> (a + 1) * 2 ^ nat (gsm_norm a) \<le> 2147483648"
proof -
  have top: "0 \<le> g \<and> 1073741824 \<le> a * 2 ^ nat g \<and> (a + 1) * 2 ^ nat g \<le> 2147483648"
    if x: "x = a div 2 ^ k" "0 < x" "x < 256" and k: "k < 24 \<or> k = 24 \<and> x < 128" and g: "g = 23 - int k + bitoff ! nat x"
    for g x and k :: nat
  proof -
    let ?b = "nat (bitoff ! nat x)"
    have b: "128 \<le> x * 2 ^ ?b" "(x + 1) * 2 ^ ?b \<le> 256" "int ?b = bitoff ! nat x"
      using bitoff_top [OF x(2,3)] by auto
    have "0 \<le> g" using k b x(2) by (cases "?b = 0") (auto simp: g)
    then have ng: "nat g + k = 23 + ?b" using b(3) g by linarith
    have "a = x * 2 ^ k + a mod 2 ^ k" unfolding x(1) by (rule div_mult_mod_eq [symmetric])
    moreover have "0 \<le> a mod 2 ^ k" "a mod 2 ^ k < 2 ^ k" by simp_all
    moreover have "(x + 1) * 2 ^ k = x * 2 ^ k + 2 ^ k" by (simp add: distrib_right)
    ultimately have "x * 2 ^ k \<le> a" "a + 1 \<le> (x + 1) * 2 ^ k" by linarith+
    then have "x * 2 ^ k * 2 ^ nat g \<le> a * 2 ^ nat g" "(a + 1) * 2 ^ nat g \<le> (x + 1) * 2 ^ k * 2 ^ nat g"
      by (simp_all add: mult_right_mono)
    moreover have "(2 :: int) ^ k * 2 ^ nat g = 8388608 * 2 ^ ?b"
      by (simp only: power_add [symmetric] add.commute [of k] ng) (simp add: power_add)
    ultimately have "8388608 * (x * 2 ^ ?b) \<le> a * 2 ^ nat g" "(a + 1) * 2 ^ nat g \<le> 8388608 * ((x + 1) * 2 ^ ?b)"
      by (simp_all add: mult.assoc mult.left_commute)
    then show ?thesis using b(1,2) \<open>0 \<le> g\<close> by linarith
  qed
  have a: "\<not> (a < 0 \<and> a \<le> - 1073741824)" "\<not> a < 0" "0 \<le> a" using assms by auto
  note masks = norm_masks [OF a(3) assms(2)]
  consider "16777216 \<le> a" | "65536 \<le> a" "a < 16777216" | "256 \<le> a" "a < 65536" | "a < 256" by linarith
  then show ?thesis
  proof cases
    case 1
    then show ?thesis using a assms masks by (intro top [of "a div 2 ^ 24" 24]) (auto simp: gsm_norm_def Let_def)
  next
    case 2
    then show ?thesis using a assms masks by (intro top [of "a div 2 ^ 16" 16]) (auto simp: gsm_norm_def Let_def)
  next
    case 3
    then show ?thesis using a assms masks by (intro top [of "a div 2 ^ 8" 8]) (auto simp: gsm_norm_def Let_def)
  next
    case 4
    then show ?thesis using a assms masks by (intro top [of "a div 2 ^ 0" 0]) (auto simp: gsm_norm_def Let_def)
  qed
qed

text \<open>
  Normalisation: for every value of a longword except zero the result is a shift that loses nothing, and the shifted value lies in the
  range of the comment: from \<open>0x40000000\<close> on for a positive value, down to \<open>-0x80000000\<close> and not above
  \<open>-0x40000000\<close> for a negative one.
\<close>

theorem gsm_norm_normalizes:
  assumes "is_long a" and "a \<noteq> 0"
  shows "0 \<le> gsm_norm a \<and> gsm_norm a \<le> 31 \<and>
    (if 0 < a then 1073741824 \<le> a * 2 ^ nat (gsm_norm a) \<and> a * 2 ^ nat (gsm_norm a) \<le> 2147483647
     else - 2147483648 \<le> a * 2 ^ nat (gsm_norm a) \<and> a * 2 ^ nat (gsm_norm a) \<le> - 1073741824)"
proof -
  have less: "n \<le> 31" if "(2 :: int) ^ nat n \<le> 2147483648" for n :: int
  proof (rule ccontr)
    assume "\<not> n \<le> 31"
    then have "(2 :: int) ^ 32 \<le> 2 ^ nat n" by (intro power_increasing) auto
    with that show False by simp
  qed
  show ?thesis
  proof (cases "0 < a")
    case True
    have "(1 :: int) \<le> 2 ^ nat (gsm_norm a)" by simp
    moreover have "a * 2 ^ nat (gsm_norm a) + 2 ^ nat (gsm_norm a) = (a + 1) * 2 ^ nat (gsm_norm a)"
      by (simp add: distrib_right)
    moreover have "(2 :: int) ^ nat (gsm_norm a) \<le> (a + 1) * 2 ^ nat (gsm_norm a)" using True by simp
    moreover have "0 \<le> gsm_norm a" "1073741824 \<le> a * 2 ^ nat (gsm_norm a)" "(a + 1) * 2 ^ nat (gsm_norm a) \<le> 2147483648"
      using norm_positive [of a] True assms by auto
    ultimately have "a * 2 ^ nat (gsm_norm a) \<le> 2147483647" "gsm_norm a \<le> 31" "0 \<le> gsm_norm a"
        "1073741824 \<le> a * 2 ^ nat (gsm_norm a)"
      using less [of "gsm_norm a"] by linarith+
    then show ?thesis using True by simp
  next
    case False
    show ?thesis
    proof (cases "a \<le> - 1073741824")
      case True
      then show ?thesis using False assms by (simp add: gsm_norm_def)
    next
      case big: False
      define b where "b = NOT a"
      have b: "b = - a - 1" by (simp add: b_def not_int_def)
      have norm: "gsm_norm a = gsm_norm b" using big False assms b by (simp add: gsm_norm_def b_def)
      show ?thesis
      proof (cases "b = 0")
        case True
        then have "gsm_norm b = 31" by (simp add: gsm_norm_def bitoff_zero)
        with True b norm False show ?thesis by simp
      next
        case pos: False
        have "(b + 1) * 2 ^ nat (gsm_norm b) \<le> 2147483648" "1073741824 \<le> b * 2 ^ nat (gsm_norm b)" "0 \<le> gsm_norm b"
          using norm_positive [of b] pos b big False assms(2) by linarith+
        moreover have "a = - (b + 1)" using b by simp
        moreover have "1 * (2 :: int) ^ nat (gsm_norm b) \<le> (b + 1) * 2 ^ nat (gsm_norm b)"
          by (intro mult_right_mono) (use pos b False assms(2) in simp_all)
        moreover have "(b + 1) * 2 ^ nat (gsm_norm b) = b * 2 ^ nat (gsm_norm b) + 2 ^ nat (gsm_norm b)"
          by (simp add: distrib_right)
        moreover have "(0 :: int) < 2 ^ nat (gsm_norm b)" by simp
        ultimately have "- 2147483648 \<le> a * 2 ^ nat (gsm_norm b)" "a * 2 ^ nat (gsm_norm b) \<le> - 1073741824"
          "gsm_norm b \<le> 31" "0 \<le> gsm_norm b"
          using less [of "gsm_norm b"] by (simp_all only: mult_minus_left mult_1)
        then show ?thesis using False norm assms by simp
      qed
    qed
  qed
qed

theorem gsm_norm_normalizes_witness: "1073741824 \<le> 5 * (2 :: int) ^ nat (gsm_norm 5)"
  using gsm_norm_normalizes [of 5] by simp

text \<open>The division: fifteen steps of a long division.\<close>

lemma div_loop_fraction:
  assumes "0 \<le> n" and "n < d" and "d \<le> 32767" and "0 \<le> q" and "(q + 1) * 2 ^ k \<le> 32768"
  shows "div_loop k d q n = q * 2 ^ k + n * 2 ^ k div d"
  using assms
proof (induction k arbitrary: q n)
  case (Suc k)
  have one: "(1 :: int) \<le> 2 ^ k" by simp
  have "(q + 1) * 2 \<le> (q + 1) * 2 ^ Suc k" using one Suc.prems(4) by (intro mult_left_mono) simp_all
  from order_trans [OF this Suc.prems(5)] have "2 * q \<le> 32767" by simp
  then have q: "s16 (push_bit 1 q) = 2 * q" using Suc.prems(4) by (simp add: push_bit_eq_mult)
  have n: "s32 (push_bit 1 n) = 2 * n" using Suc.prems(1-3) by (simp add: push_bit_eq_mult)
  show ?case
  proof (cases "d \<le> 2 * n")
    case True
    have "div_loop k d (2 * q + 1) (2 * n - d) = (2 * q + 1) * 2 ^ k + (2 * n - d) * 2 ^ k div d"
      by (rule Suc.IH) (use Suc.prems True in \<open>simp_all add: algebra_simps\<close>)
    moreover have "(2 * n - d) * 2 ^ k = 2 * n * 2 ^ k + (- (2 ^ k)) * d" by (simp add: algebra_simps)
    then have "(2 * n - d) * 2 ^ k div d = - (2 ^ k) + 2 * n * 2 ^ k div d"
      using Suc.prems(1,2) by (simp only: div_mult_self1 [of d])
    ultimately show ?thesis using True q n by (simp add: Let_def algebra_simps)
  next
    case False
    have "(2 * q + 1) * 2 ^ k \<le> (2 * q + 2) * 2 ^ k" by (intro mult_right_mono) simp_all
    also have "\<dots> = (q + 1) * 2 ^ Suc k" by (simp add: algebra_simps)
    finally have "(2 * q + 1) * 2 ^ k \<le> 32768" using Suc.prems(5) by linarith
    then have "div_loop k d (2 * q) (2 * n) = 2 * q * 2 ^ k + 2 * n * 2 ^ k div d"
      by (intro Suc.IH) (use Suc.prems False in simp_all)
    then show ?thesis using False q n by (simp add: Let_def algebra_simps)
  qed
qed simp

lemma div_loop_one:
  assumes "0 < d" and "d \<le> 32767" and "0 \<le> q" and "(q + 1) * 2 ^ k \<le> 32768"
  shows "div_loop k d q d = (q + 1) * 2 ^ k - 1"
  using assms
proof (induction k arbitrary: q)
  case (Suc k)
  have one: "(1 :: int) \<le> 2 ^ k" by simp
  have "(q + 1) * 2 \<le> (q + 1) * 2 ^ Suc k" using one Suc.prems(3) by (intro mult_left_mono) simp_all
  from order_trans [OF this Suc.prems(4)] have "2 * q \<le> 32767" by simp
  then have q: "s16 (push_bit 1 q) = 2 * q" using Suc.prems(3) by (simp add: push_bit_eq_mult)
  have n: "s32 (push_bit 1 d) = 2 * d" using Suc.prems(1,2) by (simp add: push_bit_eq_mult)
  have "div_loop k d (2 * q + 1) d = (2 * q + 1 + 1) * 2 ^ k - 1"
    by (rule Suc.IH) (use Suc.prems in \<open>simp_all add: algebra_simps\<close>)
  then show ?case using q n Suc.prems(1) by (simp add: Let_def algebra_simps)
qed simp

text \<open>
  The fractional division: for \<open>0 \<le> num \<le> denum\<close> the result is the quotient in fifteen bits,
  \<open>num * 2^15 div denum\<close>, limited to the largest word where both are equal.
\<close>

theorem gsm_div_fraction:
  assumes "0 \<le> num" and "num \<le> denum" and "denum \<le> 32767"
  shows "gsm_div num denum = (if num = 0 then 0 else min 32767 (num * 32768 div denum))"
proof (cases "num = denum")
  case True
  then show ?thesis using assms div_loop_one [of denum 0 15] by (simp add: gsm_div_def)
next
  case False
  have "num * 32768 \<le> (denum - 1) * 32768" using False assms by simp
  then have "num * 32768 < 32768 * denum" using assms by simp
  then have "num * 32768 div denum < 32768" using assms False by (intro int_div_less) simp_all
  then show ?thesis using False assms div_loop_fraction [of num denum 0 15] by (simp add: gsm_div_def)
qed

theorem gsm_div_fraction_witness: "gsm_div 1 3 = 10922 \<and> gsm_div 7 7 = 32767"
  using gsm_div_fraction [of 1 3] gsm_div_fraction [of 7 7] by simp

section \<open>Ranges of results\<close>

definition words :: "int list \<Rightarrow> bool" where
  "words xs \<longleftrightarrow> (\<forall>x \<in> set xs. is_word x)"

lemma clamp_word [simp]: "is_word (clamp (- 32768) 32767 x)"
  by (simp add: clamp_def)

lemma clamp_id [simp]: "lo \<le> x \<Longrightarrow> x \<le> hi \<Longrightarrow> clamp lo hi x = x"
  by (simp add: clamp_def)

lemma GSM_ADD_word: "is_word a \<Longrightarrow> is_word b \<Longrightarrow> is_word (GSM_ADD a b)"
  by (simp add: GSM_ADD_clamp)

lemma GSM_MULT_R_bound:
  assumes "\<bar>r\<bar> \<le> 32767" and "\<bar>x\<bar> \<le> B"
  shows "\<bar>GSM_MULT_R r x\<bar> \<le> B"
proof -
  have "\<bar>r * x\<bar> \<le> 32767 * B" unfolding abs_mult using assms by (intro mult_mono) auto
  then show ?thesis by (simp add: GSM_MULT_R_def gsm_arith)
qed

lemma abs_word: "\<bar>x\<bar> \<le> 32767 \<Longrightarrow> is_word x"
  by auto

lemma GSM_MULT_R_word:
  assumes "\<bar>r\<bar> \<le> 32767" and "is_word x"
  shows "\<bar>GSM_MULT_R r x\<bar> \<le> 32767"
proof -
  have "\<bar>x\<bar> \<le> 32768" using assms(2) by auto
  then have "\<bar>r * x\<bar> \<le> 32767 * 32768" unfolding abs_mult using assms(1) by (intro mult_mono) auto
  then show ?thesis by (simp add: GSM_MULT_R_def gsm_arith)
qed

lemma s16_mult: "\<bar>r\<bar> \<le> 32767 \<Longrightarrow> is_word x \<Longrightarrow> s16 (GSM_MULT_R r x) = GSM_MULT_R r x"
  by (rule s16_id [OF abs_word [OF GSM_MULT_R_word]])

lemma unsaturated:
  assumes "\<bar>a\<bar> \<le> 16383" and "\<bar>b\<bar> \<le> 16383"
  shows "GSM_ADD a b = a + b" and "GSM_SUB (a + b) b = a" and "s16 a = a"
proof -
  have ab: "is_word a" "is_word b" "is_word (a + b)" using assms by auto
  show "GSM_ADD a b = a + b" using ab(3) by (simp add: GSM_ADD_clamp [OF ab(1,2)])
  show "GSM_SUB (a + b) b = a" using ab(1) by (simp add: GSM_SUB_clamp)
  show "s16 a = a" using ab(1) by simp
qed

lemma div_bounds: "0 < (d :: int) \<Longrightarrow> n div d * d \<le> n \<and> n < (n div d + 1) * d"
  using div_mult_mod_eq [of n d] pos_mod_sign [of d n] pos_mod_bound [of d n] unfolding distrib_right by linarith

lemma SASR_bounds: "- K \<le> x \<Longrightarrow> x < K \<Longrightarrow> - K \<le> SASR x n \<and> SASR x n < K"
proof -
  assume x: "- K \<le> x" "x < K"
  then have "0 < K" by linarith
  then have K: "K * 1 \<le> K * 2 ^ n" by (intro mult_left_mono) simp_all
  then have "x < K * 2 ^ n" "- K * 2 ^ n \<le> x" using x by linarith+
  then have "x div 2 ^ n < K" and "(- K * 2 ^ n) div 2 ^ n \<le> x div 2 ^ n"
    by (auto intro: int_div_less zdiv_mono1)
  moreover have "(- K * 2 ^ n) div 2 ^ n = - K" by (intro nonzero_mult_div_cancel_right) simp
  ultimately show ?thesis by (simp add: gsm_arith)
qed

lemma SASR_word: "is_word x \<Longrightarrow> is_word (SASR x n)"
  using SASR_bounds [of 32768 x n] by auto

text \<open>The greatest absolute value, which three loops of the coder search for.\<close>

lemma abs_max:
  assumes "\<forall>x \<in> set xs. is_word x" and "0 \<le> m" and "m \<le> 32767"
  shows "m \<le> fold (\<lambda>x xmax. let temp = GSM_ABS x in if temp > xmax then temp else xmax) xs m \<and>
    fold (\<lambda>x xmax. let temp = GSM_ABS x in if temp > xmax then temp else xmax) xs m \<le> 32767 \<and>
    (\<forall>x \<in> set xs. GSM_ABS x \<le> fold (\<lambda>x xmax. let temp = GSM_ABS x in if temp > xmax then temp else xmax) xs m)"
  using assms
proof (induction xs arbitrary: m)
  case (Cons x xs)
  define m' where "m' = (let temp = GSM_ABS x in if temp > m then temp else m)"
  have "GSM_ABS x \<le> m'" "m \<le> m'" "m' \<le> 32767"
    using Cons.prems by (auto simp: m'_def Let_def GSM_ABS_def word_limits)
  moreover from this Cons.IH [of m'] Cons.prems show ?case by (auto simp flip: m'_def)
qed simp

lemma GSM_ABS_le: "is_word x \<Longrightarrow> GSM_ABS x \<le> X \<Longrightarrow> X \<le> 32767 \<Longrightarrow> x \<le> X \<and> - X \<le> x \<or> x = - 32768 \<and> X = 32767"
  by (auto simp: GSM_ABS_def word_limits split: if_splits)

text \<open>A sum of long words of bounded size does not overflow.\<close>

lemma fold_s32_sum:
  assumes "\<forall>k \<in> set ks. \<bar>f k\<bar> \<le> B" and "0 \<le> B" and "\<bar>L\<bar> + B * int (length ks) \<le> 2147483647"
  shows "fold (\<lambda>k L. s32 (L + s32 (f k))) ks L = L + sum_list (map f ks) \<and>
    \<bar>L + sum_list (map f ks)\<bar> \<le> \<bar>L\<bar> + B * int (length ks)"
  using assms(1,3)
proof (induction ks arbitrary: L)
  case (Cons k ks)
  have f: "\<bar>f k\<bar> \<le> B" and len: "\<bar>L\<bar> + B + B * int (length ks) \<le> 2147483647"
    using Cons.prems by (simp_all add: algebra_simps)
  have "0 \<le> B * int (length ks)" using assms(2) by simp
  then have step: "is_long (f k)" "is_long (L + f k)" "\<bar>L + f k\<bar> \<le> \<bar>L\<bar> + B" using f len by linarith+
  then have "\<bar>L + f k\<bar> + B * int (length ks) \<le> 2147483647" using len by linarith
  from Cons.IH [OF _ this] Cons.prems(1) step show ?case by (simp add: algebra_simps)
qed simp

end
