(* ===== verification/GsmPack.thy ===== *)
theory GsmPack
  imports Prelude
begin

unbundle bit_operations_syntax

text \<open>
  The bit packing of GSM 06.10 frames (\<open>gsm_encode.c\<close>, \<open>gsm_decode.c\<close>, \<open>gsm_implode.c\<close> and \<open>gsm_explode.c\<close> under
  \<open>src/work/text/gsm/src\<close>).  These functions are long straight-line sequences of a few forms of statements on a
  16-bit shift register, on the bytes of the frame and on the 76 parameters.  This theory has the forms as
  constructors and their meaning as functions; the sequences themselves are lists of them.

  A second, symbolic meaning tracks for every bit from where it comes.  It is proved sound once, so a round trip
  of two sequences is a computation on the symbolic bits.
\<close>

section \<open>Statements\<close>

text \<open>The arrays of parameters; \<open>Chain\<close> is the half byte carried over, \<open>Magic\<close> the constant \<open>GSM_MAGIC\<close>.\<close>

datatype field = LARc nat | Nc nat | bc nat | Mc nat | xmaxc nat | xmc nat | Chain | Magic

type_synonym params = "field \<Rightarrow> u16"

text \<open>
  Statements that pack: \<open>Put n f m\<close> is \<open>sr = sr >> n | f << m\<close>, \<open>Emit k\<close> is \<open>*c++ = sr >> k\<close>, \<open>Shift n\<close> is \<open>sr = sr >> n\<close>.
\<close>

datatype pack_op = Put nat field nat | Emit nat | Shift nat

fun run_pack :: "params \<Rightarrow> pack_op list \<Rightarrow> u16 \<Rightarrow> u16 \<times> mem" where
  "run_pack v [] sr = (sr, [])"
| "run_pack v (Put n f m # ops) sr = run_pack v ops (drop_bit n sr OR push_bit m (v f))"
| "run_pack v (Emit k # ops) sr = (let (sr', bs) = run_pack v ops sr in (sr', ucast (drop_bit k sr) # bs))"
| "run_pack v (Shift n # ops) sr = run_pack v ops (drop_bit n sr)"

text \<open>
  A byte of the packed frame without shift register: the disjunction of terms \<open>(f, r, m, l)\<close>, each of them
  \<open>((f >> r) & m) << l\<close>.
\<close>

type_synonym pack_term = "field \<times> nat \<times> u16 \<times> nat"

fun pack_byte :: "params \<Rightarrow> pack_term list \<Rightarrow> u16" where
  "pack_byte v [] = 0"
| "pack_byte v ((f, r, m, l) # ts) = push_bit l (drop_bit r (v f) AND m) OR pack_byte v ts"

definition pack_bytes :: "params \<Rightarrow> pack_term list list \<Rightarrow> mem" where
  "pack_bytes v tss = map (\<lambda>ts. ucast (pack_byte v ts)) tss"

text \<open>
  Statements that unpack: \<open>Load\<close> is \<open>sr = *c++\<close>, \<open>LoadChain\<close> is \<open>sr = s->frame_chain\<close>, \<open>Fill k\<close> is \<open>sr |= (uword)*c++ << k\<close>,
  \<open>Get f m n\<close> is \<open>f = sr & m; sr >>= n\<close>; without the register, \<open>Assign f r m l\<close> is \<open>f = ((*c >> r) & m) << l\<close>,
  \<open>OrIn\<close> the same with \<open>|=\<close>, and \<open>Next\<close> is the increment of \<open>c\<close>.
  A read behind the end of the input is \<open>None\<close>.
\<close>

datatype unpack_op =
    Load | LoadChain | Fill nat | Get field u16 nat
  | Assign field nat u16 nat | OrIn field nat u16 nat | Next

fun run_unpack :: "unpack_op list \<Rightarrow> u16 \<Rightarrow> mem \<Rightarrow> params \<Rightarrow> params option" where
  "run_unpack [] sr cs v = Some v"
| "run_unpack (Load # ops) sr (c # cs) v = run_unpack ops (ucast c) cs v"
| "run_unpack (LoadChain # ops) sr cs v = run_unpack ops (v Chain) cs v"
| "run_unpack (Fill k # ops) sr (c # cs) v = run_unpack ops (sr OR push_bit k (ucast c)) cs v"
| "run_unpack (Get f m n # ops) sr cs v = run_unpack ops (drop_bit n sr) cs (v(f := sr AND m))"
| "run_unpack (Assign f r m l # ops) sr (c # cs) v =
     run_unpack ops sr (c # cs) (v(f := push_bit l (drop_bit r (ucast c) AND m)))"
| "run_unpack (OrIn f r m l # ops) sr (c # cs) v =
     run_unpack ops sr (c # cs) (v(f := v f OR push_bit l (drop_bit r (ucast c) AND m)))"
| "run_unpack (Next # ops) sr (c # cs) v = run_unpack ops sr cs v"
| "run_unpack (_ # ops) sr [] v = None"

section \<open>Symbolic bits\<close>

text \<open>
  A symbolic bit is a list of bits, the disjunction of them; a symbolic word is a list of symbolic bits, from the lowest.
  \<open>rep rho x w\<close> says that \<open>x\<close> stands for the word \<open>w\<close> when the bits have the values \<open>rho\<close>.
\<close>

type_synonym 's sword = "'s list list"

definition rep :: "('s \<Rightarrow> bool) \<Rightarrow> 's sword \<Rightarrow> 'a::len word \<Rightarrow> bool" where
  "rep rho x w \<longleftrightarrow> length x = LENGTH('a) \<and> (\<forall>i < LENGTH('a). bit w i = (\<exists>s \<in> set (x ! i). rho s))"

definition s_right :: "nat \<Rightarrow> 's sword \<Rightarrow> 's sword" where
  "s_right n x = drop n x @ replicate (min n (length x)) []"

definition s_left :: "nat \<Rightarrow> 's sword \<Rightarrow> 's sword" where
  "s_left n x = take (length x) (replicate n [] @ x)"

definition s_or :: "'s sword \<Rightarrow> 's sword \<Rightarrow> 's sword" where
  "s_or x y = map2 (@) x y"

definition s_mask :: "u16 \<Rightarrow> 's sword \<Rightarrow> 's sword" where
  "s_mask m x = map (\<lambda>(i, b). if bit m i then b else []) (enumerate 0 x)"

definition s_wide :: "'s sword \<Rightarrow> 's sword" where
  "s_wide x = x @ replicate 8 []"

lemma rep_zero [intro]: "rep rho (replicate LENGTH('a) []) (0 :: 'a::len word)"
  by (simp add: rep_def)

lemma rep_right [intro]: "rep rho x w \<Longrightarrow> rep rho (s_right n x) (drop_bit n w)"
  by (auto simp: rep_def s_right_def bit_drop_bit_eq nth_append min_def bit_simps dest: bit_imp_le_length)

lemma rep_left [intro]: "rep rho x w \<Longrightarrow> rep rho (s_left n x) (push_bit n w)"
  by (auto simp: rep_def s_left_def bit_push_bit_iff nth_append)

lemma rep_or [intro]: "rep rho x v \<Longrightarrow> rep rho y w \<Longrightarrow> rep rho (s_or x y) (v OR w)"
  by (auto simp: rep_def s_or_def bit_or_iff)

lemma rep_mask [intro]: "rep rho x (w :: u16) \<Longrightarrow> rep rho (s_mask m x) (w AND m)"
  by (auto simp: rep_def s_mask_def bit_and_iff nth_enumerate_eq)

lemma rep_byte [intro]: "rep rho x (w :: u16) \<Longrightarrow> rep rho (take 8 x) (ucast w :: u8)"
  by (auto simp: rep_def bit_ucast_iff)

lemma rep_wide [intro]: "rep rho x (w :: u8) \<Longrightarrow> rep rho (s_wide x) (ucast w :: u16)"
  by (auto simp: rep_def s_wide_def bit_ucast_iff nth_append dest: bit_imp_le_length)

lemma rep_unique: "rep rho x v \<Longrightarrow> rep rho x w \<Longrightarrow> v = w"
  by (rule bit_word_eqI) (simp add: rep_def)

lemma rep_list_unique:
  assumes "list_all2 (rep rho) xs vs" and "list_all2 (rep rho) xs ws"
  shows "vs = ws"
  using assms
proof (induction xs vs arbitrary: ws rule: list_all2_induct)
  case (Cons x xs v vs)
  then obtain w ws' where "ws = w # ws'" "rep rho x w" "list_all2 (rep rho) xs ws'" by (auto simp: list_all2_Cons1)
  with Cons rep_unique [of rho x v w] show ?case by simp
qed simp

section \<open>The symbolic meaning, and its soundness\<close>

fun sym_pack :: "(field \<Rightarrow> 's sword) \<Rightarrow> pack_op list \<Rightarrow> 's sword \<Rightarrow> 's sword \<times> 's sword list" where
  "sym_pack v [] sr = (sr, [])"
| "sym_pack v (Put n f m # ops) sr = sym_pack v ops (s_or (s_right n sr) (s_left m (v f)))"
| "sym_pack v (Emit k # ops) sr = (let (sr', bs) = sym_pack v ops sr in (sr', take 8 (s_right k sr) # bs))"
| "sym_pack v (Shift n # ops) sr = sym_pack v ops (s_right n sr)"

fun sym_byte :: "(field \<Rightarrow> 's sword) \<Rightarrow> pack_term list \<Rightarrow> 's sword" where
  "sym_byte v [] = replicate 16 []"
| "sym_byte v ((f, r, m, l) # ts) = s_or (s_left l (s_mask m (s_right r (v f)))) (sym_byte v ts)"

fun sym_unpack :: "unpack_op list \<Rightarrow> 's sword \<Rightarrow> 's sword list \<Rightarrow> (field \<Rightarrow> 's sword) \<Rightarrow> (field \<Rightarrow> 's sword) option" where
  "sym_unpack [] sr cs v = Some v"
| "sym_unpack (Load # ops) sr (c # cs) v = sym_unpack ops (s_wide c) cs v"
| "sym_unpack (LoadChain # ops) sr cs v = sym_unpack ops (v Chain) cs v"
| "sym_unpack (Fill k # ops) sr (c # cs) v = sym_unpack ops (s_or sr (s_left k (s_wide c))) cs v"
| "sym_unpack (Get f m n # ops) sr cs v = sym_unpack ops (s_right n sr) cs (v(f := s_mask m sr))"
| "sym_unpack (Assign f r m l # ops) sr (c # cs) v =
     sym_unpack ops sr (c # cs) (v(f := s_left l (s_mask m (s_right r (s_wide c)))))"
| "sym_unpack (OrIn f r m l # ops) sr (c # cs) v =
     sym_unpack ops sr (c # cs) (v(f := s_or (v f) (s_left l (s_mask m (s_right r (s_wide c))))))"
| "sym_unpack (Next # ops) sr (c # cs) v = sym_unpack ops sr cs v"
| "sym_unpack (_ # ops) sr [] v = None"

lemma run_pack_sound:
  assumes "\<And>f. rep rho (sv f) (v f)" and "rep rho ssr sr"
  shows "rep rho (fst (sym_pack sv ops ssr)) (fst (run_pack v ops sr)) \<and>
    list_all2 (rep rho) (snd (sym_pack sv ops ssr)) (snd (run_pack v ops sr))"
  using assms(2)
proof (induction ops arbitrary: sr ssr)
  case (Cons x ops)
  show ?case
  proof (cases x)
    case (Put n f m)
    have "rep rho (s_or (s_right n ssr) (s_left m (sv f))) (drop_bit n sr OR push_bit m (v f))"
      by (intro rep_or rep_right rep_left assms Cons.prems)
    from Cons.IH [OF this] show ?thesis by (simp add: Put)
  next
    case (Emit k)
    have "rep rho (take 8 (s_right k ssr)) (ucast (drop_bit k sr) :: u8)"
      by (intro rep_byte rep_right Cons.prems)
    with Cons.IH [OF Cons.prems] show ?thesis by (simp add: Emit split_beta Let_def)
  next
    case (Shift n)
    from Cons.IH [OF rep_right [OF Cons.prems]] show ?thesis by (simp add: Shift)
  qed
qed simp

lemma pack_byte_sound:
  assumes "\<And>f. rep rho (sv f) (v f)"
  shows "rep rho (sym_byte sv ts) (pack_byte v ts)"
proof (induction ts)
  case Nil
  then show ?case using rep_zero [where 'a = 16] by simp
next
  case (Cons t ts)
  obtain f r m l where t: "t = (f, r, m, l)" by (cases t)
  have "rep rho (s_left l (s_mask m (s_right r (sv f)))) (push_bit l (drop_bit r (v f) AND m))"
    by (intro rep_left rep_mask rep_right assms)
  from rep_or [OF this Cons.IH] show ?case by (simp only: t sym_byte.simps pack_byte.simps)
qed

lemma pack_bytes_sound:
  assumes "\<And>f. rep rho (sv f) (v f)"
  shows "list_all2 (rep rho) (map (\<lambda>ts. take 8 (sym_byte sv ts)) tss) (pack_bytes v tss)"
  using pack_byte_sound [OF assms] by (auto simp: pack_bytes_def list_all2_conv_all_nth intro!: rep_byte)

lemma run_unpack_sound:
  assumes "\<And>f. rep rho (sv f) (v f)" and "rep rho ssr sr" and "list_all2 (rep rho) scs cs"
  shows "rel_option (\<lambda>sv v. \<forall>f. rep rho (sv f) (v f)) (sym_unpack ops ssr scs sv) (run_unpack ops sr cs v)"
  using assms
proof (induction ops arbitrary: sr ssr scs cs v sv)
  case (Cons x ops)
  note IH = Cons.IH and prems = Cons.prems
  show ?case
  proof (cases "x = LoadChain \<or> (\<exists>f m n. x = Get f m n)")
    case True
    then show ?thesis
    proof (elim disjE exE)
      assume "x = LoadChain"
      with IH [OF prems(1,1,3)] show ?thesis by simp
    next
      fix f m n assume x: "x = Get f m n"
      have "rep rho ((sv(f := s_mask m ssr)) g) ((v(f := sr AND m)) g)" for g
        using prems(1) rep_mask [OF prems(2)] by simp
      from IH [where sv = "sv(f := s_mask m ssr)" and v = "v(f := sr AND m)", OF this rep_right [OF prems(2)] prems(3)]
      show ?thesis by (simp only: x sym_unpack.simps run_unpack.simps)
    qed
  next
    case no: False
    show ?thesis
    proof (cases cs)
      case Nil
      then show ?thesis using no prems(3) by (cases x) auto
    next
      case (Cons c cs')
      then obtain sc scs' where c: "cs = c # cs'" "scs = sc # scs'" "rep rho sc c" "list_all2 (rep rho) scs' cs'"
        using prems(3) by (auto simp: list_all2_Cons2)
      have wide: "rep rho (s_wide sc) (ucast c :: u16)" by (rule rep_wide) (rule c(3))
      have tm: "rep rho (s_left l (s_mask m (s_right r (s_wide sc)))) (push_bit l (drop_bit r (ucast c) AND m) :: u16)"
        for l m r by (intro rep_left rep_mask rep_right wide)
      show ?thesis
      proof (cases x)
        case Load
        with IH [OF prems(1) wide c(4)] c show ?thesis by simp
      next
        case (Fill k)
        with IH [OF prems(1) rep_or [OF prems(2) rep_left [OF wide]] c(4)] c show ?thesis by simp
      next
        case (Assign f r m l)
        have "rep rho ((sv(f := s_left l (s_mask m (s_right r (s_wide sc))))) g)
            ((v(f := push_bit l (drop_bit r (ucast c) AND m))) g)" for g
          using prems(1) tm by (simp only: fun_upd_apply split: if_split) simp
        from IH [where sv = "sv(f := s_left l (s_mask m (s_right r (s_wide sc))))"
            and v = "v(f := push_bit l (drop_bit r (ucast c) AND m))", OF this prems(2,3)]
        show ?thesis by (simp only: Assign c sym_unpack.simps run_unpack.simps)
      next
        case (OrIn f r m l)
        have "rep rho ((sv(f := s_or (sv f) (s_left l (s_mask m (s_right r (s_wide sc)))))) g)
            ((v(f := v f OR push_bit l (drop_bit r (ucast c) AND m))) g)" for g
          using prems(1) rep_or [OF prems(1) tm] by (simp only: fun_upd_apply split: if_split) simp
        from IH [where sv = "sv(f := s_or (sv f) (s_left l (s_mask m (s_right r (s_wide sc)))))"
            and v = "v(f := v f OR push_bit l (drop_bit r (ucast c) AND m))", OF this prems(2,3)]
        show ?thesis by (simp only: OrIn c sym_unpack.simps run_unpack.simps)
      next
        case Next
        with IH [OF prems(1,2) c(4)] c show ?thesis by simp
      qed (use no in auto)
    qed
  qed
qed simp

end
