(* ===== verification/GsmFrames.thy ===== *)
theory GsmFrames
  imports GsmPack GsmArith
begin

unbundle bit_operations_syntax

text \<open>
  The frame formats of GSM 06.10: \<open>implode\<close> and \<open>explode\<close> convert an array of 76 parameters to a packed frame and back,
  \<open>encode\<close> and \<open>decode\<close> do the same inside of the codec.  There are three formats: the frame of 33 bytes with its magic
  nibble, and the first and the second frame of a pair of 65 bytes (\<open>WAV49\<close>).  The statement lists follow the code
  line by line.
\<close>

section \<open>The parameters\<close>

definition GSM_MAGIC :: u16 where "GSM_MAGIC = 0xD"

text \<open>The number of bits of each parameter, and its place in the array of \<open>gsm_implode\<close>.\<close>

fun field_width :: "field \<Rightarrow> nat" where
  "field_width (LARc i) = (if i < 2 then 6 else if i < 4 then 5 else if i < 6 then 4 else 3)"
| "field_width (Nc i) = 7"
| "field_width (bc i) = 2"
| "field_width (Mc i) = 2"
| "field_width (xmaxc i) = 6"
| "field_width (xmc i) = 3"
| "field_width Chain = 4"
| "field_width Magic = 4"

fun source_index :: "field \<Rightarrow> nat" where
  "source_index (LARc i) = i"
| "source_index (Nc i) = 8 + 17 * i"
| "source_index (bc i) = 9 + 17 * i"
| "source_index (Mc i) = 10 + 17 * i"
| "source_index (xmaxc i) = 11 + 17 * i"
| "source_index (xmc i) = 12 + 17 * (i div 13) + i mod 13"
| "source_index _ = 76"

text \<open>The parameters in the order of the array.\<close>

definition frame_fields :: "field list" where
  "frame_fields = map LARc [0..<8] @
     concat (map (\<lambda>k. [Nc k, bc k, Mc k, xmaxc k] @ map xmc [13 * k..<13 * k + 13]) [0..<4])"

section \<open>The statements that pack\<close>

definition encode_wav_first :: "pack_op list" where
  "encode_wav_first = [
    Put 6 (LARc 0) 10, Put 6 (LARc 1) 10, Emit 4, Put 5 (LARc 2) 11, Emit 7, Put 5 (LARc 3) 11,
    Put 4 (LARc 4) 12, Emit 6, Put 4 (LARc 5) 12, Put 3 (LARc 6) 13, Emit 7, Put 3 (LARc 7) 13,
    Put 7 (Nc 0) 9, Emit 5, Put 2 (bc 0) 14, Put 2 (Mc 0) 14, Put 6 (xmaxc 0) 10, Emit 3, Put 3 (xmc 0) 13,
    Emit 8, Put 3 (xmc 1) 13, Put 3 (xmc 2) 13, Put 3 (xmc 3) 13, Emit 7, Put 3 (xmc 4) 13, Put 3 (xmc 5) 13,
    Put 3 (xmc 6) 13, Emit 6, Put 3 (xmc 7) 13, Put 3 (xmc 8) 13, Emit 8, Put 3 (xmc 9) 13,
    Put 3 (xmc 10) 13, Put 3 (xmc 11) 13, Emit 7, Put 3 (xmc 12) 13, Put 7 (Nc 1) 9, Emit 5, Put 2 (bc 1) 14,
    Put 2 (Mc 1) 14, Put 6 (xmaxc 1) 10, Emit 3, Put 3 (xmc 13) 13, Emit 8, Put 3 (xmc 14) 13,
    Put 3 (xmc 15) 13, Put 3 (xmc 16) 13, Emit 7, Put 3 (xmc 17) 13, Put 3 (xmc 18) 13, Put 3 (xmc 19) 13,
    Emit 6, Put 3 (xmc 20) 13, Put 3 (xmc 21) 13, Emit 8, Put 3 (xmc 22) 13, Put 3 (xmc 23) 13,
    Put 3 (xmc 24) 13, Emit 7, Put 3 (xmc 25) 13, Put 7 (Nc 2) 9, Emit 5, Put 2 (bc 2) 14, Put 2 (Mc 2) 14,
    Put 6 (xmaxc 2) 10, Emit 3, Put 3 (xmc 26) 13, Emit 8, Put 3 (xmc 27) 13, Put 3 (xmc 28) 13,
    Put 3 (xmc 29) 13, Emit 7, Put 3 (xmc 30) 13, Put 3 (xmc 31) 13, Put 3 (xmc 32) 13, Emit 6,
    Put 3 (xmc 33) 13, Put 3 (xmc 34) 13, Emit 8, Put 3 (xmc 35) 13, Put 3 (xmc 36) 13, Put 3 (xmc 37) 13,
    Emit 7, Put 3 (xmc 38) 13, Put 7 (Nc 3) 9, Emit 5, Put 2 (bc 3) 14, Put 2 (Mc 3) 14, Put 6 (xmaxc 3) 10,
    Emit 3, Put 3 (xmc 39) 13, Emit 8, Put 3 (xmc 40) 13, Put 3 (xmc 41) 13, Put 3 (xmc 42) 13, Emit 7,
    Put 3 (xmc 43) 13, Put 3 (xmc 44) 13, Put 3 (xmc 45) 13, Emit 6, Put 3 (xmc 46) 13, Put 3 (xmc 47) 13,
    Emit 8, Put 3 (xmc 48) 13, Put 3 (xmc 49) 13, Put 3 (xmc 50) 13, Emit 7, Put 3 (xmc 51) 13, Shift 4,
    Emit 8]"

definition encode_wav_second :: "pack_op list" where
  "encode_wav_second = [
    Put 4 Chain 12, Put 6 (LARc 0) 10, Emit 6, Put 6 (LARc 1) 10, Emit 8, Put 5 (LARc 2) 11,
    Put 5 (LARc 3) 11, Emit 6, Put 4 (LARc 4) 12, Put 4 (LARc 5) 12, Emit 6, Put 3 (LARc 6) 13,
    Put 3 (LARc 7) 13, Emit 8, Put 7 (Nc 0) 9, Put 2 (bc 0) 14, Emit 7, Put 2 (Mc 0) 14, Put 6 (xmaxc 0) 10,
    Emit 7, Put 3 (xmc 0) 13, Put 3 (xmc 1) 13, Put 3 (xmc 2) 13, Emit 6, Put 3 (xmc 3) 13, Put 3 (xmc 4) 13,
    Emit 8, Put 3 (xmc 5) 13, Put 3 (xmc 6) 13, Put 3 (xmc 7) 13, Emit 7, Put 3 (xmc 8) 13, Put 3 (xmc 9) 13,
    Put 3 (xmc 10) 13, Emit 6, Put 3 (xmc 11) 13, Put 3 (xmc 12) 13, Emit 8, Put 7 (Nc 1) 9, Put 2 (bc 1) 14,
    Emit 7, Put 2 (Mc 1) 14, Put 6 (xmaxc 1) 10, Emit 7, Put 3 (xmc 13) 13, Put 3 (xmc 14) 13,
    Put 3 (xmc 15) 13, Emit 6, Put 3 (xmc 16) 13, Put 3 (xmc 17) 13, Emit 8, Put 3 (xmc 18) 13,
    Put 3 (xmc 19) 13, Put 3 (xmc 20) 13, Emit 7, Put 3 (xmc 21) 13, Put 3 (xmc 22) 13, Put 3 (xmc 23) 13,
    Emit 6, Put 3 (xmc 24) 13, Put 3 (xmc 25) 13, Emit 8, Put 7 (Nc 2) 9, Put 2 (bc 2) 14, Emit 7,
    Put 2 (Mc 2) 14, Put 6 (xmaxc 2) 10, Emit 7, Put 3 (xmc 26) 13, Put 3 (xmc 27) 13, Put 3 (xmc 28) 13,
    Emit 6, Put 3 (xmc 29) 13, Put 3 (xmc 30) 13, Emit 8, Put 3 (xmc 31) 13, Put 3 (xmc 32) 13,
    Put 3 (xmc 33) 13, Emit 7, Put 3 (xmc 34) 13, Put 3 (xmc 35) 13, Put 3 (xmc 36) 13, Emit 6,
    Put 3 (xmc 37) 13, Put 3 (xmc 38) 13, Emit 8, Put 7 (Nc 3) 9, Put 2 (bc 3) 14, Emit 7, Put 2 (Mc 3) 14,
    Put 6 (xmaxc 3) 10, Emit 7, Put 3 (xmc 39) 13, Put 3 (xmc 40) 13, Put 3 (xmc 41) 13, Emit 6,
    Put 3 (xmc 42) 13, Put 3 (xmc 43) 13, Emit 8, Put 3 (xmc 44) 13, Put 3 (xmc 45) 13, Put 3 (xmc 46) 13,
    Emit 7, Put 3 (xmc 47) 13, Put 3 (xmc 48) 13, Put 3 (xmc 49) 13, Emit 6, Put 3 (xmc 50) 13,
    Put 3 (xmc 51) 13, Emit 8]"

definition encode_rfc :: "pack_term list list" where
  "encode_rfc = [
    [(Magic, 0, 0xF, 4), (LARc 0, 2, 0xF, 0)], [(LARc 0, 0, 0x3, 6), (LARc 1, 0, 0x3F, 0)],
    [(LARc 2, 0, 0x1F, 3), (LARc 3, 2, 0x7, 0)],
    [(LARc 3, 0, 0x3, 6), (LARc 4, 0, 0xF, 2), (LARc 5, 2, 0x3, 0)],
    [(LARc 5, 0, 0x3, 6), (LARc 6, 0, 0x7, 3), (LARc 7, 0, 0x7, 0)], [(Nc 0, 0, 0x7F, 1), (bc 0, 1, 0x1, 0)],
    [(bc 0, 0, 0x1, 7), (Mc 0, 0, 0x3, 5), (xmaxc 0, 1, 0x1F, 0)],
    [(xmaxc 0, 0, 0x1, 7), (xmc 0, 0, 0x7, 4), (xmc 1, 0, 0x7, 1), (xmc 2, 2, 0x1, 0)],
    [(xmc 2, 0, 0x3, 6), (xmc 3, 0, 0x7, 3), (xmc 4, 0, 0x7, 0)],
    [(xmc 5, 0, 0x7, 5), (xmc 6, 0, 0x7, 2), (xmc 7, 1, 0x3, 0)],
    [(xmc 7, 0, 0x1, 7), (xmc 8, 0, 0x7, 4), (xmc 9, 0, 0x7, 1), (xmc 10, 2, 0x1, 0)],
    [(xmc 10, 0, 0x3, 6), (xmc 11, 0, 0x7, 3), (xmc 12, 0, 0x7, 0)], [(Nc 1, 0, 0x7F, 1), (bc 1, 1, 0x1, 0)],
    [(bc 1, 0, 0x1, 7), (Mc 1, 0, 0x3, 5), (xmaxc 1, 1, 0x1F, 0)],
    [(xmaxc 1, 0, 0x1, 7), (xmc 13, 0, 0x7, 4), (xmc 14, 0, 0x7, 1), (xmc 15, 2, 0x1, 0)],
    [(xmc 15, 0, 0x3, 6), (xmc 16, 0, 0x7, 3), (xmc 17, 0, 0x7, 0)],
    [(xmc 18, 0, 0x7, 5), (xmc 19, 0, 0x7, 2), (xmc 20, 1, 0x3, 0)],
    [(xmc 20, 0, 0x1, 7), (xmc 21, 0, 0x7, 4), (xmc 22, 0, 0x7, 1), (xmc 23, 2, 0x1, 0)],
    [(xmc 23, 0, 0x3, 6), (xmc 24, 0, 0x7, 3), (xmc 25, 0, 0x7, 0)], [(Nc 2, 0, 0x7F, 1), (bc 2, 1, 0x1, 0)],
    [(bc 2, 0, 0x1, 7), (Mc 2, 0, 0x3, 5), (xmaxc 2, 1, 0x1F, 0)],
    [(xmaxc 2, 0, 0x1, 7), (xmc 26, 0, 0x7, 4), (xmc 27, 0, 0x7, 1), (xmc 28, 2, 0x1, 0)],
    [(xmc 28, 0, 0x3, 6), (xmc 29, 0, 0x7, 3), (xmc 30, 0, 0x7, 0)],
    [(xmc 31, 0, 0x7, 5), (xmc 32, 0, 0x7, 2), (xmc 33, 1, 0x3, 0)],
    [(xmc 33, 0, 0x1, 7), (xmc 34, 0, 0x7, 4), (xmc 35, 0, 0x7, 1), (xmc 36, 2, 0x1, 0)],
    [(xmc 36, 0, 0x3, 6), (xmc 37, 0, 0x7, 3), (xmc 38, 0, 0x7, 0)], [(Nc 3, 0, 0x7F, 1), (bc 3, 1, 0x1, 0)],
    [(bc 3, 0, 0x1, 7), (Mc 3, 0, 0x3, 5), (xmaxc 3, 1, 0x1F, 0)],
    [(xmaxc 3, 0, 0x1, 7), (xmc 39, 0, 0x7, 4), (xmc 40, 0, 0x7, 1), (xmc 41, 2, 0x1, 0)],
    [(xmc 41, 0, 0x3, 6), (xmc 42, 0, 0x7, 3), (xmc 43, 0, 0x7, 0)],
    [(xmc 44, 0, 0x7, 5), (xmc 45, 0, 0x7, 2), (xmc 46, 1, 0x3, 0)],
    [(xmc 46, 0, 0x1, 7), (xmc 47, 0, 0x7, 4), (xmc 48, 0, 0x7, 1), (xmc 49, 2, 0x1, 0)],
    [(xmc 49, 0, 0x3, 6), (xmc 50, 0, 0x7, 3), (xmc 51, 0, 0x7, 0)]]"

definition implode_wav_first :: "pack_op list" where
  "implode_wav_first = [
    Put 6 (LARc 0) 10, Put 6 (LARc 1) 10, Emit 4, Put 5 (LARc 2) 11, Emit 7, Put 5 (LARc 3) 11,
    Put 4 (LARc 4) 12, Emit 6, Put 4 (LARc 5) 12, Put 3 (LARc 6) 13, Emit 7, Put 3 (LARc 7) 13,
    Put 7 (Nc 0) 9, Emit 5, Put 2 (bc 0) 14, Put 2 (Mc 0) 14, Put 6 (xmaxc 0) 10, Emit 3, Put 3 (xmc 0) 13,
    Emit 8, Put 3 (xmc 1) 13, Put 3 (xmc 2) 13, Put 3 (xmc 3) 13, Emit 7, Put 3 (xmc 4) 13, Put 3 (xmc 5) 13,
    Put 3 (xmc 6) 13, Emit 6, Put 3 (xmc 7) 13, Put 3 (xmc 8) 13, Emit 8, Put 3 (xmc 9) 13,
    Put 3 (xmc 10) 13, Put 3 (xmc 11) 13, Emit 7, Put 3 (xmc 12) 13, Put 7 (Nc 1) 9, Emit 5, Put 2 (bc 1) 14,
    Put 2 (Mc 1) 14, Put 6 (xmaxc 1) 10, Emit 3, Put 3 (xmc 13) 13, Emit 8, Put 3 (xmc 14) 13,
    Put 3 (xmc 15) 13, Put 3 (xmc 16) 13, Emit 7, Put 3 (xmc 17) 13, Put 3 (xmc 18) 13, Put 3 (xmc 19) 13,
    Emit 6, Put 3 (xmc 20) 13, Put 3 (xmc 21) 13, Emit 8, Put 3 (xmc 22) 13, Put 3 (xmc 23) 13,
    Put 3 (xmc 24) 13, Emit 7, Put 3 (xmc 25) 13, Put 7 (Nc 2) 9, Emit 5, Put 2 (bc 2) 14, Put 2 (Mc 2) 14,
    Put 6 (xmaxc 2) 10, Emit 3, Put 3 (xmc 26) 13, Emit 8, Put 3 (xmc 27) 13, Put 3 (xmc 28) 13,
    Put 3 (xmc 29) 13, Emit 7, Put 3 (xmc 30) 13, Put 3 (xmc 31) 13, Put 3 (xmc 32) 13, Emit 6,
    Put 3 (xmc 33) 13, Put 3 (xmc 34) 13, Emit 8, Put 3 (xmc 35) 13, Put 3 (xmc 36) 13, Put 3 (xmc 37) 13,
    Emit 7, Put 3 (xmc 38) 13, Put 7 (Nc 3) 9, Emit 5, Put 2 (bc 3) 14, Put 2 (Mc 3) 14, Put 6 (xmaxc 3) 10,
    Emit 3, Put 3 (xmc 39) 13, Emit 8, Put 3 (xmc 40) 13, Put 3 (xmc 41) 13, Put 3 (xmc 42) 13, Emit 7,
    Put 3 (xmc 43) 13, Put 3 (xmc 44) 13, Put 3 (xmc 45) 13, Emit 6, Put 3 (xmc 46) 13, Put 3 (xmc 47) 13,
    Emit 8, Put 3 (xmc 48) 13, Put 3 (xmc 49) 13, Put 3 (xmc 50) 13, Emit 7, Put 3 (xmc 51) 13, Shift 4,
    Emit 8]"

definition implode_wav_second :: "pack_op list" where
  "implode_wav_second = [
    Put 4 Chain 12, Put 6 (LARc 0) 10, Emit 6, Put 6 (LARc 1) 10, Emit 8, Put 5 (LARc 2) 11,
    Put 5 (LARc 3) 11, Emit 6, Put 4 (LARc 4) 12, Put 4 (LARc 5) 12, Emit 6, Put 3 (LARc 6) 13,
    Put 3 (LARc 7) 13, Emit 8, Put 7 (Nc 0) 9, Put 2 (bc 0) 14, Emit 7, Put 2 (Mc 0) 14, Put 6 (xmaxc 0) 10,
    Emit 7, Put 3 (xmc 0) 13, Put 3 (xmc 1) 13, Put 3 (xmc 2) 13, Emit 6, Put 3 (xmc 3) 13, Put 3 (xmc 4) 13,
    Emit 8, Put 3 (xmc 5) 13, Put 3 (xmc 6) 13, Put 3 (xmc 7) 13, Emit 7, Put 3 (xmc 8) 13, Put 3 (xmc 9) 13,
    Put 3 (xmc 10) 13, Emit 6, Put 3 (xmc 11) 13, Put 3 (xmc 12) 13, Emit 8, Put 7 (Nc 1) 9, Put 2 (bc 1) 14,
    Emit 7, Put 2 (Mc 1) 14, Put 6 (xmaxc 1) 10, Emit 7, Put 3 (xmc 13) 13, Put 3 (xmc 14) 13,
    Put 3 (xmc 15) 13, Emit 6, Put 3 (xmc 16) 13, Put 3 (xmc 17) 13, Emit 8, Put 3 (xmc 18) 13,
    Put 3 (xmc 19) 13, Put 3 (xmc 20) 13, Emit 7, Put 3 (xmc 21) 13, Put 3 (xmc 22) 13, Put 3 (xmc 23) 13,
    Emit 6, Put 3 (xmc 24) 13, Put 3 (xmc 25) 13, Emit 8, Put 7 (Nc 2) 9, Put 2 (bc 2) 14, Emit 7,
    Put 2 (Mc 2) 14, Put 6 (xmaxc 2) 10, Emit 7, Put 3 (xmc 26) 13, Put 3 (xmc 27) 13, Put 3 (xmc 28) 13,
    Emit 6, Put 3 (xmc 29) 13, Put 3 (xmc 30) 13, Emit 8, Put 3 (xmc 31) 13, Put 3 (xmc 32) 13,
    Put 3 (xmc 33) 13, Emit 7, Put 3 (xmc 34) 13, Put 3 (xmc 35) 13, Put 3 (xmc 36) 13, Emit 6,
    Put 3 (xmc 37) 13, Put 3 (xmc 38) 13, Emit 8, Put 7 (Nc 3) 9, Put 2 (bc 3) 14, Emit 7, Put 2 (Mc 3) 14,
    Put 6 (xmaxc 3) 10, Emit 7, Put 3 (xmc 39) 13, Put 3 (xmc 40) 13, Put 3 (xmc 41) 13, Emit 6,
    Put 3 (xmc 42) 13, Put 3 (xmc 43) 13, Emit 8, Put 3 (xmc 44) 13, Put 3 (xmc 45) 13, Put 3 (xmc 46) 13,
    Emit 7, Put 3 (xmc 47) 13, Put 3 (xmc 48) 13, Put 3 (xmc 49) 13, Emit 6, Put 3 (xmc 50) 13,
    Put 3 (xmc 51) 13, Emit 8]"

definition implode_rfc :: "pack_term list list" where
  "implode_rfc = [
    [(Magic, 0, 0xF, 4), (LARc 0, 2, 0xF, 0)], [(LARc 0, 0, 0x3, 6), (LARc 1, 0, 0x3F, 0)],
    [(LARc 2, 0, 0x1F, 3), (LARc 3, 2, 0x7, 0)],
    [(LARc 3, 0, 0x3, 6), (LARc 4, 0, 0xF, 2), (LARc 5, 2, 0x3, 0)],
    [(LARc 5, 0, 0x3, 6), (LARc 6, 0, 0x7, 3), (LARc 7, 0, 0x7, 0)], [(Nc 0, 0, 0x7F, 1), (bc 0, 1, 0x1, 0)],
    [(bc 0, 0, 0x1, 7), (Mc 0, 0, 0x3, 5), (xmaxc 0, 1, 0x1F, 0)],
    [(xmaxc 0, 0, 0x1, 7), (xmc 0, 0, 0x7, 4), (xmc 1, 0, 0x7, 1), (xmc 2, 2, 0x1, 0)],
    [(xmc 2, 0, 0x3, 6), (xmc 3, 0, 0x7, 3), (xmc 4, 0, 0x7, 0)],
    [(xmc 5, 0, 0x7, 5), (xmc 6, 0, 0x7, 2), (xmc 7, 1, 0x3, 0)],
    [(xmc 7, 0, 0x1, 7), (xmc 8, 0, 0x7, 4), (xmc 9, 0, 0x7, 1), (xmc 10, 2, 0x1, 0)],
    [(xmc 10, 0, 0x3, 6), (xmc 11, 0, 0x7, 3), (xmc 12, 0, 0x7, 0)], [(Nc 1, 0, 0x7F, 1), (bc 1, 1, 0x1, 0)],
    [(bc 1, 0, 0x1, 7), (Mc 1, 0, 0x3, 5), (xmaxc 1, 1, 0x1F, 0)],
    [(xmaxc 1, 0, 0x1, 7), (xmc 13, 0, 0x7, 4), (xmc 14, 0, 0x7, 1), (xmc 15, 2, 0x1, 0)],
    [(xmc 15, 0, 0x3, 6), (xmc 16, 0, 0x7, 3), (xmc 17, 0, 0x7, 0)],
    [(xmc 18, 0, 0x7, 5), (xmc 19, 0, 0x7, 2), (xmc 20, 1, 0x3, 0)],
    [(xmc 20, 0, 0x1, 7), (xmc 21, 0, 0x7, 4), (xmc 22, 0, 0x7, 1), (xmc 23, 2, 0x1, 0)],
    [(xmc 23, 0, 0x3, 6), (xmc 24, 0, 0x7, 3), (xmc 25, 0, 0x7, 0)], [(Nc 2, 0, 0x7F, 1), (bc 2, 1, 0x1, 0)],
    [(bc 2, 0, 0x1, 7), (Mc 2, 0, 0x3, 5), (xmaxc 2, 1, 0x1F, 0)],
    [(xmaxc 2, 0, 0x1, 7), (xmc 26, 0, 0x7, 4), (xmc 27, 0, 0x7, 1), (xmc 28, 2, 0x1, 0)],
    [(xmc 28, 0, 0x3, 6), (xmc 29, 0, 0x7, 3), (xmc 30, 0, 0x7, 0)],
    [(xmc 31, 0, 0x7, 5), (xmc 32, 0, 0x7, 2), (xmc 33, 1, 0x3, 0)],
    [(xmc 33, 0, 0x1, 7), (xmc 34, 0, 0x7, 4), (xmc 35, 0, 0x7, 1), (xmc 36, 2, 0x1, 0)],
    [(xmc 36, 0, 0x3, 6), (xmc 37, 0, 0x7, 3), (xmc 38, 0, 0x7, 0)], [(Nc 3, 0, 0x7F, 1), (bc 3, 1, 0x1, 0)],
    [(bc 3, 0, 0x1, 7), (Mc 3, 0, 0x3, 5), (xmaxc 3, 1, 0x1F, 0)],
    [(xmaxc 3, 0, 0x1, 7), (xmc 39, 0, 0x7, 4), (xmc 40, 0, 0x7, 1), (xmc 41, 2, 0x1, 0)],
    [(xmc 41, 0, 0x3, 6), (xmc 42, 0, 0x7, 3), (xmc 43, 0, 0x7, 0)],
    [(xmc 44, 0, 0x7, 5), (xmc 45, 0, 0x7, 2), (xmc 46, 1, 0x3, 0)],
    [(xmc 46, 0, 0x1, 7), (xmc 47, 0, 0x7, 4), (xmc 48, 0, 0x7, 1), (xmc 49, 2, 0x1, 0)],
    [(xmc 49, 0, 0x3, 6), (xmc 50, 0, 0x7, 3), (xmc 51, 0, 0x7, 0)]]"

section \<open>The statements that unpack\<close>

definition decode_wav_first :: "unpack_op list" where
  "decode_wav_first = [
    Load, Get (LARc 0) 0x3f 6, Fill 2, Get (LARc 1) 0x3f 6, Fill 4, Get (LARc 2) 0x1f 5,
    Get (LARc 3) 0x1f 5, Fill 2, Get (LARc 4) 0xF 4, Get (LARc 5) 0xF 4, Fill 2, Get (LARc 6) 0x7 3,
    Get (LARc 7) 0x7 3, Fill 4, Get (Nc 0) 0x7f 7, Get (bc 0) 0x3 2, Get (Mc 0) 0x3 2, Fill 1,
    Get (xmaxc 0) 0x3f 6, Get (xmc 0) 0x7 3, Load, Get (xmc 1) 0x7 3, Get (xmc 2) 0x7 3, Fill 2,
    Get (xmc 3) 0x7 3, Get (xmc 4) 0x7 3, Get (xmc 5) 0x7 3, Fill 1, Get (xmc 6) 0x7 3, Get (xmc 7) 0x7 3,
    Get (xmc 8) 0x7 3, Load, Get (xmc 9) 0x7 3, Get (xmc 10) 0x7 3, Fill 2, Get (xmc 11) 0x7 3,
    Get (xmc 12) 0x7 3, Fill 4, Get (Nc 1) 0x7f 7, Get (bc 1) 0x3 2, Get (Mc 1) 0x3 2, Fill 1,
    Get (xmaxc 1) 0x3f 6, Get (xmc 13) 0x7 3, Load, Get (xmc 14) 0x7 3, Get (xmc 15) 0x7 3, Fill 2,
    Get (xmc 16) 0x7 3, Get (xmc 17) 0x7 3, Get (xmc 18) 0x7 3, Fill 1, Get (xmc 19) 0x7 3,
    Get (xmc 20) 0x7 3, Get (xmc 21) 0x7 3, Load, Get (xmc 22) 0x7 3, Get (xmc 23) 0x7 3, Fill 2,
    Get (xmc 24) 0x7 3, Get (xmc 25) 0x7 3, Fill 4, Get (Nc 2) 0x7f 7, Get (bc 2) 0x3 2, Get (Mc 2) 0x3 2,
    Fill 1, Get (xmaxc 2) 0x3f 6, Get (xmc 26) 0x7 3, Load, Get (xmc 27) 0x7 3, Get (xmc 28) 0x7 3, Fill 2,
    Get (xmc 29) 0x7 3, Get (xmc 30) 0x7 3, Get (xmc 31) 0x7 3, Fill 1, Get (xmc 32) 0x7 3,
    Get (xmc 33) 0x7 3, Get (xmc 34) 0x7 3, Load, Get (xmc 35) 0x7 3, Get (xmc 36) 0x7 3, Fill 2,
    Get (xmc 37) 0x7 3, Get (xmc 38) 0x7 3, Fill 4, Get (Nc 3) 0x7f 7, Get (bc 3) 0x3 2, Get (Mc 3) 0x3 2,
    Fill 1, Get (xmaxc 3) 0x3f 6, Get (xmc 39) 0x7 3, Load, Get (xmc 40) 0x7 3, Get (xmc 41) 0x7 3, Fill 2,
    Get (xmc 42) 0x7 3, Get (xmc 43) 0x7 3, Get (xmc 44) 0x7 3, Fill 1, Get (xmc 45) 0x7 3,
    Get (xmc 46) 0x7 3, Get (xmc 47) 0x7 3, Load, Get (xmc 48) 0x7 3, Get (xmc 49) 0x7 3, Fill 2,
    Get (xmc 50) 0x7 3, Get (xmc 51) 0x7 3, Get Chain 0xF 0]"

definition decode_wav_second :: "unpack_op list" where
  "decode_wav_second = [
    LoadChain, Fill 4, Get (LARc 0) 0x3f 6, Get (LARc 1) 0x3f 6, Load, Get (LARc 2) 0x1f 5, Fill 3,
    Get (LARc 3) 0x1f 5, Get (LARc 4) 0xF 4, Fill 2, Get (LARc 5) 0xF 4, Get (LARc 6) 0x7 3,
    Get (LARc 7) 0x7 3, Load, Get (Nc 0) 0x7f 7, Fill 1, Get (bc 0) 0x3 2, Get (Mc 0) 0x3 2, Fill 5,
    Get (xmaxc 0) 0x3f 6, Get (xmc 0) 0x7 3, Get (xmc 1) 0x7 3, Fill 1, Get (xmc 2) 0x7 3, Get (xmc 3) 0x7 3,
    Get (xmc 4) 0x7 3, Load, Get (xmc 5) 0x7 3, Get (xmc 6) 0x7 3, Fill 2, Get (xmc 7) 0x7 3,
    Get (xmc 8) 0x7 3, Get (xmc 9) 0x7 3, Fill 1, Get (xmc 10) 0x7 3, Get (xmc 11) 0x7 3, Get (xmc 12) 0x7 3,
    Load, Get (Nc 1) 0x7f 7, Fill 1, Get (bc 1) 0x3 2, Get (Mc 1) 0x3 2, Fill 5, Get (xmaxc 1) 0x3f 6,
    Get (xmc 13) 0x7 3, Get (xmc 14) 0x7 3, Fill 1, Get (xmc 15) 0x7 3, Get (xmc 16) 0x7 3,
    Get (xmc 17) 0x7 3, Load, Get (xmc 18) 0x7 3, Get (xmc 19) 0x7 3, Fill 2, Get (xmc 20) 0x7 3,
    Get (xmc 21) 0x7 3, Get (xmc 22) 0x7 3, Fill 1, Get (xmc 23) 0x7 3, Get (xmc 24) 0x7 3,
    Get (xmc 25) 0x7 3, Load, Get (Nc 2) 0x7f 7, Fill 1, Get (bc 2) 0x3 2, Get (Mc 2) 0x3 2, Fill 5,
    Get (xmaxc 2) 0x3f 6, Get (xmc 26) 0x7 3, Get (xmc 27) 0x7 3, Fill 1, Get (xmc 28) 0x7 3,
    Get (xmc 29) 0x7 3, Get (xmc 30) 0x7 3, Load, Get (xmc 31) 0x7 3, Get (xmc 32) 0x7 3, Fill 2,
    Get (xmc 33) 0x7 3, Get (xmc 34) 0x7 3, Get (xmc 35) 0x7 3, Fill 1, Get (xmc 36) 0x7 3,
    Get (xmc 37) 0x7 3, Get (xmc 38) 0x7 3, Load, Get (Nc 3) 0x7f 7, Fill 1, Get (bc 3) 0x3 2,
    Get (Mc 3) 0x3 2, Fill 5, Get (xmaxc 3) 0x3f 6, Get (xmc 39) 0x7 3, Get (xmc 40) 0x7 3, Fill 1,
    Get (xmc 41) 0x7 3, Get (xmc 42) 0x7 3, Get (xmc 43) 0x7 3, Load, Get (xmc 44) 0x7 3, Get (xmc 45) 0x7 3,
    Fill 2, Get (xmc 46) 0x7 3, Get (xmc 47) 0x7 3, Get (xmc 48) 0x7 3, Fill 1, Get (xmc 49) 0x7 3,
    Get (xmc 50) 0x7 3, Get (xmc 51) 0x7 3]"

definition decode_rfc :: "unpack_op list" where
  "decode_rfc = [
    Assign (LARc 0) 0 0xF 2, Next, OrIn (LARc 0) 6 0x3 0, Assign (LARc 1) 0 0x3F 0, Next,
    Assign (LARc 2) 3 0x1F 0, Assign (LARc 3) 0 0x7 2, Next, OrIn (LARc 3) 6 0x3 0, Assign (LARc 4) 2 0xF 0,
    Assign (LARc 5) 0 0x3 2, Next, OrIn (LARc 5) 6 0x3 0, Assign (LARc 6) 3 0x7 0, Assign (LARc 7) 0 0x7 0,
    Next, Assign (Nc 0) 1 0x7F 0, Assign (bc 0) 0 0x1 1, Next, OrIn (bc 0) 7 0x1 0, Assign (Mc 0) 5 0x3 0,
    Assign (xmaxc 0) 0 0x1F 1, Next, OrIn (xmaxc 0) 7 0x1 0, Assign (xmc 0) 4 0x7 0, Assign (xmc 1) 1 0x7 0,
    Assign (xmc 2) 0 0x1 2, Next, OrIn (xmc 2) 6 0x3 0, Assign (xmc 3) 3 0x7 0, Assign (xmc 4) 0 0x7 0, Next,
    Assign (xmc 5) 5 0x7 0, Assign (xmc 6) 2 0x7 0, Assign (xmc 7) 0 0x3 1, Next, OrIn (xmc 7) 7 0x1 0,
    Assign (xmc 8) 4 0x7 0, Assign (xmc 9) 1 0x7 0, Assign (xmc 10) 0 0x1 2, Next, OrIn (xmc 10) 6 0x3 0,
    Assign (xmc 11) 3 0x7 0, Assign (xmc 12) 0 0x7 0, Next, Assign (Nc 1) 1 0x7F 0, Assign (bc 1) 0 0x1 1,
    Next, OrIn (bc 1) 7 0x1 0, Assign (Mc 1) 5 0x3 0, Assign (xmaxc 1) 0 0x1F 1, Next,
    OrIn (xmaxc 1) 7 0x1 0, Assign (xmc 13) 4 0x7 0, Assign (xmc 14) 1 0x7 0, Assign (xmc 15) 0 0x1 2, Next,
    OrIn (xmc 15) 6 0x3 0, Assign (xmc 16) 3 0x7 0, Assign (xmc 17) 0 0x7 0, Next, Assign (xmc 18) 5 0x7 0,
    Assign (xmc 19) 2 0x7 0, Assign (xmc 20) 0 0x3 1, Next, OrIn (xmc 20) 7 0x1 0, Assign (xmc 21) 4 0x7 0,
    Assign (xmc 22) 1 0x7 0, Assign (xmc 23) 0 0x1 2, Next, OrIn (xmc 23) 6 0x3 0, Assign (xmc 24) 3 0x7 0,
    Assign (xmc 25) 0 0x7 0, Next, Assign (Nc 2) 1 0x7F 0, Assign (bc 2) 0 0x1 1, Next, OrIn (bc 2) 7 0x1 0,
    Assign (Mc 2) 5 0x3 0, Assign (xmaxc 2) 0 0x1F 1, Next, OrIn (xmaxc 2) 7 0x1 0, Assign (xmc 26) 4 0x7 0,
    Assign (xmc 27) 1 0x7 0, Assign (xmc 28) 0 0x1 2, Next, OrIn (xmc 28) 6 0x3 0, Assign (xmc 29) 3 0x7 0,
    Assign (xmc 30) 0 0x7 0, Next, Assign (xmc 31) 5 0x7 0, Assign (xmc 32) 2 0x7 0, Assign (xmc 33) 0 0x3 1,
    Next, OrIn (xmc 33) 7 0x1 0, Assign (xmc 34) 4 0x7 0, Assign (xmc 35) 1 0x7 0, Assign (xmc 36) 0 0x1 2,
    Next, OrIn (xmc 36) 6 0x3 0, Assign (xmc 37) 3 0x7 0, Assign (xmc 38) 0 0x7 0, Next,
    Assign (Nc 3) 1 0x7F 0, Assign (bc 3) 0 0x1 1, Next, OrIn (bc 3) 7 0x1 0, Assign (Mc 3) 5 0x3 0,
    Assign (xmaxc 3) 0 0x1F 1, Next, OrIn (xmaxc 3) 7 0x1 0, Assign (xmc 39) 4 0x7 0,
    Assign (xmc 40) 1 0x7 0, Assign (xmc 41) 0 0x1 2, Next, OrIn (xmc 41) 6 0x3 0, Assign (xmc 42) 3 0x7 0,
    Assign (xmc 43) 0 0x7 0, Next, Assign (xmc 44) 5 0x7 0, Assign (xmc 45) 2 0x7 0, Assign (xmc 46) 0 0x3 1,
    Next, OrIn (xmc 46) 7 0x1 0, Assign (xmc 47) 4 0x7 0, Assign (xmc 48) 1 0x7 0, Assign (xmc 49) 0 0x1 2,
    Next, OrIn (xmc 49) 6 0x3 0, Assign (xmc 50) 3 0x7 0, Assign (xmc 51) 0 0x7 0]"

definition explode_wav_first :: "unpack_op list" where
  "explode_wav_first = [
    Load, Get (LARc 0) 0x3f 6, Fill 2, Get (LARc 1) 0x3f 6, Fill 4, Get (LARc 2) 0x1f 5,
    Get (LARc 3) 0x1f 5, Fill 2, Get (LARc 4) 0xF 4, Get (LARc 5) 0xF 4, Fill 2, Get (LARc 6) 0x7 3,
    Get (LARc 7) 0x7 3, Fill 4, Get (Nc 0) 0x7f 7, Get (bc 0) 0x3 2, Get (Mc 0) 0x3 2, Fill 1,
    Get (xmaxc 0) 0x3f 6, Get (xmc 0) 0x7 3, Load, Get (xmc 1) 0x7 3, Get (xmc 2) 0x7 3, Fill 2,
    Get (xmc 3) 0x7 3, Get (xmc 4) 0x7 3, Get (xmc 5) 0x7 3, Fill 1, Get (xmc 6) 0x7 3, Get (xmc 7) 0x7 3,
    Get (xmc 8) 0x7 3, Load, Get (xmc 9) 0x7 3, Get (xmc 10) 0x7 3, Fill 2, Get (xmc 11) 0x7 3,
    Get (xmc 12) 0x7 3, Fill 4, Get (Nc 1) 0x7f 7, Get (bc 1) 0x3 2, Get (Mc 1) 0x3 2, Fill 1,
    Get (xmaxc 1) 0x3f 6, Get (xmc 13) 0x7 3, Load, Get (xmc 14) 0x7 3, Get (xmc 15) 0x7 3, Fill 2,
    Get (xmc 16) 0x7 3, Get (xmc 17) 0x7 3, Get (xmc 18) 0x7 3, Fill 1, Get (xmc 19) 0x7 3,
    Get (xmc 20) 0x7 3, Get (xmc 21) 0x7 3, Load, Get (xmc 22) 0x7 3, Get (xmc 23) 0x7 3, Fill 2,
    Get (xmc 24) 0x7 3, Get (xmc 25) 0x7 3, Fill 4, Get (Nc 2) 0x7f 7, Get (bc 2) 0x3 2, Get (Mc 2) 0x3 2,
    Fill 1, Get (xmaxc 2) 0x3f 6, Get (xmc 26) 0x7 3, Load, Get (xmc 27) 0x7 3, Get (xmc 28) 0x7 3, Fill 2,
    Get (xmc 29) 0x7 3, Get (xmc 30) 0x7 3, Get (xmc 31) 0x7 3, Fill 1, Get (xmc 32) 0x7 3,
    Get (xmc 33) 0x7 3, Get (xmc 34) 0x7 3, Load, Get (xmc 35) 0x7 3, Get (xmc 36) 0x7 3, Fill 2,
    Get (xmc 37) 0x7 3, Get (xmc 38) 0x7 3, Fill 4, Get (Nc 3) 0x7f 7, Get (bc 3) 0x3 2, Get (Mc 3) 0x3 2,
    Fill 1, Get (xmaxc 3) 0x3f 6, Get (xmc 39) 0x7 3, Load, Get (xmc 40) 0x7 3, Get (xmc 41) 0x7 3, Fill 2,
    Get (xmc 42) 0x7 3, Get (xmc 43) 0x7 3, Get (xmc 44) 0x7 3, Fill 1, Get (xmc 45) 0x7 3,
    Get (xmc 46) 0x7 3, Get (xmc 47) 0x7 3, Load, Get (xmc 48) 0x7 3, Get (xmc 49) 0x7 3, Fill 2,
    Get (xmc 50) 0x7 3, Get (xmc 51) 0x7 3, Get Chain 0xF 0]"

definition explode_wav_second :: "unpack_op list" where
  "explode_wav_second = [
    LoadChain, Fill 4, Get (LARc 0) 0x3f 6, Get (LARc 1) 0x3f 6, Load, Get (LARc 2) 0x1f 5, Fill 3,
    Get (LARc 3) 0x1f 5, Get (LARc 4) 0xF 4, Fill 2, Get (LARc 5) 0xF 4, Get (LARc 6) 0x7 3,
    Get (LARc 7) 0x7 3, Load, Get (Nc 0) 0x7f 7, Fill 1, Get (bc 0) 0x3 2, Get (Mc 0) 0x3 2, Fill 5,
    Get (xmaxc 0) 0x3f 6, Get (xmc 0) 0x7 3, Get (xmc 1) 0x7 3, Fill 1, Get (xmc 2) 0x7 3, Get (xmc 3) 0x7 3,
    Get (xmc 4) 0x7 3, Load, Get (xmc 5) 0x7 3, Get (xmc 6) 0x7 3, Fill 2, Get (xmc 7) 0x7 3,
    Get (xmc 8) 0x7 3, Get (xmc 9) 0x7 3, Fill 1, Get (xmc 10) 0x7 3, Get (xmc 11) 0x7 3, Get (xmc 12) 0x7 3,
    Load, Get (Nc 1) 0x7f 7, Fill 1, Get (bc 1) 0x3 2, Get (Mc 1) 0x3 2, Fill 5, Get (xmaxc 1) 0x3f 6,
    Get (xmc 13) 0x7 3, Get (xmc 14) 0x7 3, Fill 1, Get (xmc 15) 0x7 3, Get (xmc 16) 0x7 3,
    Get (xmc 17) 0x7 3, Load, Get (xmc 18) 0x7 3, Get (xmc 19) 0x7 3, Fill 2, Get (xmc 20) 0x7 3,
    Get (xmc 21) 0x7 3, Get (xmc 22) 0x7 3, Fill 1, Get (xmc 23) 0x7 3, Get (xmc 24) 0x7 3,
    Get (xmc 25) 0x7 3, Load, Get (Nc 2) 0x7f 7, Fill 1, Get (bc 2) 0x3 2, Get (Mc 2) 0x3 2, Fill 5,
    Get (xmaxc 2) 0x3f 6, Get (xmc 26) 0x7 3, Get (xmc 27) 0x7 3, Fill 1, Get (xmc 28) 0x7 3,
    Get (xmc 29) 0x7 3, Get (xmc 30) 0x7 3, Load, Get (xmc 31) 0x7 3, Get (xmc 32) 0x7 3, Fill 2,
    Get (xmc 33) 0x7 3, Get (xmc 34) 0x7 3, Get (xmc 35) 0x7 3, Fill 1, Get (xmc 36) 0x7 3,
    Get (xmc 37) 0x7 3, Get (xmc 38) 0x7 3, Load, Get (Nc 3) 0x7f 7, Fill 1, Get (bc 3) 0x3 2,
    Get (Mc 3) 0x3 2, Fill 5, Get (xmaxc 3) 0x3f 6, Get (xmc 39) 0x7 3, Get (xmc 40) 0x7 3, Fill 1,
    Get (xmc 41) 0x7 3, Get (xmc 42) 0x7 3, Get (xmc 43) 0x7 3, Load, Get (xmc 44) 0x7 3, Get (xmc 45) 0x7 3,
    Fill 2, Get (xmc 46) 0x7 3, Get (xmc 47) 0x7 3, Get (xmc 48) 0x7 3, Fill 1, Get (xmc 49) 0x7 3,
    Get (xmc 50) 0x7 3, Get (xmc 51) 0x7 3]"

definition explode_rfc :: "unpack_op list" where
  "explode_rfc = [
    Assign (LARc 0) 0 0xF 2, Next, OrIn (LARc 0) 6 0x3 0, Assign (LARc 1) 0 0x3F 0, Next,
    Assign (LARc 2) 3 0x1F 0, Assign (LARc 3) 0 0x7 2, Next, OrIn (LARc 3) 6 0x3 0, Assign (LARc 4) 2 0xF 0,
    Assign (LARc 5) 0 0x3 2, Next, OrIn (LARc 5) 6 0x3 0, Assign (LARc 6) 3 0x7 0, Assign (LARc 7) 0 0x7 0,
    Next, Assign (Nc 0) 1 0x7F 0, Assign (bc 0) 0 0x1 1, Next, OrIn (bc 0) 7 0x1 0, Assign (Mc 0) 5 0x3 0,
    Assign (xmaxc 0) 0 0x1F 1, Next, OrIn (xmaxc 0) 7 0x1 0, Assign (xmc 0) 4 0x7 0, Assign (xmc 1) 1 0x7 0,
    Assign (xmc 2) 0 0x1 2, Next, OrIn (xmc 2) 6 0x3 0, Assign (xmc 3) 3 0x7 0, Assign (xmc 4) 0 0x7 0, Next,
    Assign (xmc 5) 5 0x7 0, Assign (xmc 6) 2 0x7 0, Assign (xmc 7) 0 0x3 1, Next, OrIn (xmc 7) 7 0x1 0,
    Assign (xmc 8) 4 0x7 0, Assign (xmc 9) 1 0x7 0, Assign (xmc 10) 0 0x1 2, Next, OrIn (xmc 10) 6 0x3 0,
    Assign (xmc 11) 3 0x7 0, Assign (xmc 12) 0 0x7 0, Next, Assign (Nc 1) 1 0x7F 0, Assign (bc 1) 0 0x1 1,
    Next, OrIn (bc 1) 7 0x1 0, Assign (Mc 1) 5 0x3 0, Assign (xmaxc 1) 0 0x1F 1, Next,
    OrIn (xmaxc 1) 7 0x1 0, Assign (xmc 13) 4 0x7 0, Assign (xmc 14) 1 0x7 0, Assign (xmc 15) 0 0x1 2, Next,
    OrIn (xmc 15) 6 0x3 0, Assign (xmc 16) 3 0x7 0, Assign (xmc 17) 0 0x7 0, Next, Assign (xmc 18) 5 0x7 0,
    Assign (xmc 19) 2 0x7 0, Assign (xmc 20) 0 0x3 1, Next, OrIn (xmc 20) 7 0x1 0, Assign (xmc 21) 4 0x7 0,
    Assign (xmc 22) 1 0x7 0, Assign (xmc 23) 0 0x1 2, Next, OrIn (xmc 23) 6 0x3 0, Assign (xmc 24) 3 0x7 0,
    Assign (xmc 25) 0 0x7 0, Next, Assign (Nc 2) 1 0x7F 0, Assign (bc 2) 0 0x1 1, Next, OrIn (bc 2) 7 0x1 0,
    Assign (Mc 2) 5 0x3 0, Assign (xmaxc 2) 0 0x1F 1, Next, OrIn (xmaxc 2) 7 0x1 0, Assign (xmc 26) 4 0x7 0,
    Assign (xmc 27) 1 0x7 0, Assign (xmc 28) 0 0x1 2, Next, OrIn (xmc 28) 6 0x3 0, Assign (xmc 29) 3 0x7 0,
    Assign (xmc 30) 0 0x7 0, Next, Assign (xmc 31) 5 0x7 0, Assign (xmc 32) 2 0x7 0, Assign (xmc 33) 0 0x3 1,
    Next, OrIn (xmc 33) 7 0x1 0, Assign (xmc 34) 4 0x7 0, Assign (xmc 35) 1 0x7 0, Assign (xmc 36) 0 0x1 2,
    Next, OrIn (xmc 36) 6 0x3 0, Assign (xmc 37) 3 0x7 0, Assign (xmc 38) 0 0x7 0, Next,
    Assign (Nc 3) 1 0x7F 0, Assign (bc 3) 0 0x1 1, Next, OrIn (bc 3) 7 0x1 0, Assign (Mc 3) 5 0x3 0,
    Assign (xmaxc 3) 0 0x1F 1, Next, OrIn (xmaxc 3) 7 0x1 0, Assign (xmc 39) 4 0x7 0,
    Assign (xmc 40) 1 0x7 0, Assign (xmc 41) 0 0x1 2, Next, OrIn (xmc 41) 6 0x3 0, Assign (xmc 42) 3 0x7 0,
    Assign (xmc 43) 0 0x7 0, Next, Assign (xmc 44) 5 0x7 0, Assign (xmc 45) 2 0x7 0, Assign (xmc 46) 0 0x3 1,
    Next, OrIn (xmc 46) 7 0x1 0, Assign (xmc 47) 4 0x7 0, Assign (xmc 48) 1 0x7 0, Assign (xmc 49) 0 0x1 2,
    Next, OrIn (xmc 49) 6 0x3 0, Assign (xmc 50) 3 0x7 0, Assign (xmc 51) 0 0x7 0]"

section \<open>Implode and explode\<close>

text \<open>The parameters an array of \<open>gsm_signal\<close> stands for, and the array that is filled.\<close>

definition params_of :: "gsm_state \<Rightarrow> int list \<Rightarrow> params" where
  "params_of S source f = (case f of
       Chain \<Rightarrow> ucast (frame_chain S) | Magic \<Rightarrow> GSM_MAGIC | _ \<Rightarrow> word_of_int (source ! source_index f))"

definition array_of :: "params \<Rightarrow> int list" where
  "array_of v = map (\<lambda>f. sint (v f)) frame_fields"

definition blank_params :: "gsm_state \<Rightarrow> params" where
  "blank_params S f = (if f = Chain then ucast (frame_chain S) else 0)"

datatype gsm_error = NoGsmMagic | InputTooShort

text \<open>The packed bytes; in the first frame of a pair the last one is carried over.\<close>

definition gsm_implode :: "gsm_state \<Rightarrow> int list \<Rightarrow> mem \<times> gsm_state" where
  "gsm_implode S source =
     (let v = params_of S source in
      if wav_fmt S \<noteq> 0 then
        if frame_index S \<noteq> 0 then
          let bs = snd (run_pack v implode_wav_first 0) in (bs, S\<lparr>frame_chain := last bs\<rparr>)
        else (snd (run_pack v implode_wav_second 0), S)
      else (pack_bytes v implode_rfc, S))"

definition read_frame :: "unpack_op list \<Rightarrow> gsm_state \<Rightarrow> mem \<Rightarrow> gsm_error + params" where
  "read_frame ops S c = (case run_unpack ops 0 c (blank_params S) of None \<Rightarrow> Inl InputTooShort | Some v \<Rightarrow> Inr v)"

definition check_magic :: "mem \<Rightarrow> gsm_error option" where
  "check_magic c = (case c of
       [] \<Rightarrow> Some InputTooShort
     | b # _ \<Rightarrow> if (drop_bit 4 (ucast b) AND 0x0F) \<noteq> GSM_MAGIC then Some NoGsmMagic else None)"

definition gsm_explode :: "gsm_state \<Rightarrow> mem \<Rightarrow> gsm_error + (int list \<times> gsm_state)" where
  "gsm_explode S c =
     (if wav_fmt S \<noteq> 0 then
        if frame_index S = 1 then
          map_sum id (\<lambda>v. (array_of v, S\<lparr>frame_chain := ucast (v Chain)\<rparr>)) (read_frame explode_wav_first S c)
        else map_sum id (\<lambda>v. (array_of v, S)) (read_frame explode_wav_second S c)
      else case check_magic c of
          Some err \<Rightarrow> Inl err
        | None \<Rightarrow> map_sum id (\<lambda>v. (array_of v, S)) (read_frame explode_rfc S c))"

section \<open>The round trips, computed on symbolic bits\<close>

text \<open>The bits of several assignments of parameters: bit \<open>i\<close> of parameter \<open>f\<close> in assignment \<open>k\<close>.\<close>

type_synonym bit_name = "nat \<times> field \<times> nat"

definition sym :: "nat \<Rightarrow> field \<Rightarrow> bit_name sword" where
  "sym k f = map (\<lambda>i. [(k, f, i)]) [0..<16]"

definition sym_low :: "nat \<Rightarrow> field \<Rightarrow> bit_name sword" where
  "sym_low k f = map (\<lambda>i. if i < field_width f then [(k, f, i)] else []) [0..<16]"

definition bit_of :: "(nat \<Rightarrow> params) \<Rightarrow> bit_name \<Rightarrow> bool" where
  "bit_of vs s = (case s of (k, f, i) \<Rightarrow> bit (vs k f) i)"

lemma rep_sym: "rep (bit_of vs) (sym k f) (vs k f)"
  by (simp add: rep_def sym_def bit_of_def)

lemma rep_sym_low: "rep (bit_of vs) (sym_low k f) (take_bit (field_width f) (vs k f))"
  by (auto simp: rep_def sym_low_def bit_of_def bit_take_bit_iff)

lemma rep_low_unique:
  assumes "rep (bit_of vs) x w" and "x = sym_low k f"
  shows "w = take_bit (field_width f) (vs k f)"
  using rep_unique [OF assms(1) [unfolded assms(2)] rep_sym_low] .

lemma rep_zero16: "rep rho (replicate 16 []) (0 :: u16)"
  using rep_zero [where 'a = 16] by simp

text \<open>A check on the symbolic bits gives the parameters that are read.\<close>

lemma unpack_check:
  assumes "case sym_unpack ops (replicate 16 []) scs (sym 0) of
      None \<Rightarrow> False | Some sv \<Rightarrow> list_all (\<lambda>f. sv f = sym_low k f) fs"
    and "list_all2 (rep (bit_of vs)) scs cs"
  shows "\<exists>v. run_unpack ops 0 cs (vs 0) = Some v \<and> (\<forall>f \<in> set fs. v f = take_bit (field_width f) (vs k f))"
proof -
  have rel: "rel_option (\<lambda>sv v. \<forall>f. rep (bit_of vs) (sv f) (v f)) (sym_unpack ops (replicate 16 []) scs (sym 0))
      (run_unpack ops 0 cs (vs 0))"
    by (rule run_unpack_sound [OF rep_sym rep_zero16 assms(2)])
  obtain sv where sv: "sym_unpack ops (replicate 16 []) scs (sym 0) = Some sv" "list_all (\<lambda>f. sv f = sym_low k f) fs"
    using assms(1) by (cases "sym_unpack ops (replicate 16 []) scs (sym 0)") simp_all
  obtain v where v: "run_unpack ops 0 cs (vs 0) = Some v" "\<forall>f. rep (bit_of vs) (sv f) (v f)"
    using rel by (cases "run_unpack ops 0 cs (vs 0)") (simp_all add: sv(1))
  have "v f = take_bit (field_width f) (vs k f)" if "f \<in> set fs" for f
  proof (rule rep_unique)
    show "rep (bit_of vs) (sv f) (v f)" using v(2) by blast
    show "rep (bit_of vs) (sv f) (take_bit (field_width f) (vs k f))"
      using sv(2) that rep_sym_low [of vs k f] by (simp add: list_all_iff)
  qed
  with v(1) show ?thesis by blast
qed

lemma check_rfc: "case sym_unpack explode_rfc (replicate 16 []) (map (\<lambda>ts. take 8 (sym_byte (sym 1) ts)) implode_rfc) (sym 0) of
    None \<Rightarrow> False | Some sv \<Rightarrow> list_all (\<lambda>f. sv f = sym_low 1 f) frame_fields"
  by code_simp

lemma rfc_roundtrip:
  "\<exists>v'. run_unpack explode_rfc 0 (pack_bytes v implode_rfc) v0 = Some v' \<and>
    (\<forall>f \<in> set frame_fields. v' f = take_bit (field_width f) (v f))"
  using unpack_check [OF check_rfc, of "\<lambda>k. if k = 0 then v0 else v"]
    pack_bytes_sound [of "bit_of (\<lambda>k. if k = 0 then v0 else v)" "sym 1" v implode_rfc]
    rep_sym [of "\<lambda>k. if k = 0 then v0 else v" 1] by simp

lemma check_wav:
  "let z = replicate 16 []; sb1 = snd (sym_pack (sym 1) implode_wav_first z);
       sb2 = snd (sym_pack ((sym 2)(Chain := s_wide (last sb1))) implode_wav_second z);
       stream = take 32 sb1 @ sb2
   in length sb1 = 33 \<and> length sb2 = 33 \<and>
     (case sym_unpack explode_wav_first z stream (sym 0) of None \<Rightarrow> False | Some r1 \<Rightarrow>
        list_all (\<lambda>f. r1 f = sym_low 1 f) frame_fields \<and>
        (case sym_unpack explode_wav_second z (drop 33 stream) ((sym 0)(Chain := s_wide (take 8 (r1 Chain)))) of
          None \<Rightarrow> False | Some r2 \<Rightarrow> list_all (\<lambda>f. r2 f = sym_low 2 f) frame_fields))"
  by code_simp

text \<open>The bytes of a frame, as symbolic bits.\<close>

definition sym_frame :: "bit_name sword list" where
  "sym_frame = map (\<lambda>j. take 8 (sym 1 (xmc j))) [0..<33]"

lemma check_canonical:
  "case sym_unpack explode_rfc (replicate 16 []) sym_frame (sym 0) of None \<Rightarrow> False | Some sv \<Rightarrow>
     map (\<lambda>ts. take 8 (sym_byte (sv(Magic := s_mask 0xF (s_right 4 (s_wide (hd sym_frame))))) ts)) implode_rfc = sym_frame"
  by code_simp

lemma frame_symbolic:
  assumes "length (c :: mem) = 33"
  shows "\<exists>vs. vs 0 = v0 \<and> list_all2 (rep (bit_of vs)) sym_frame c"
proof -
  define vs :: "nat \<Rightarrow> params" where
    "vs k = (if k = 1 then (\<lambda>f. case f of xmc j \<Rightarrow> ucast (c ! j) | _ \<Rightarrow> 0) else v0)" for k
  have "rep (bit_of vs) (take 8 (sym 1 (xmc j))) (c ! j)" for j
  proof -
    have "ucast (ucast b :: u16) = b" for b :: u8 by (rule bit_word_eqI) (simp add: bit_ucast_iff)
    then have "ucast (vs 1 (xmc j)) = c ! j" by (simp add: vs_def)
    then show ?thesis using rep_byte [OF rep_sym [of vs 1 "xmc j"]] by simp
  qed
  then have "list_all2 (rep (bit_of vs)) sym_frame c"
    using assms by (simp add: sym_frame_def list_all2_conv_all_nth)
  moreover have "vs 0 = v0" by (simp add: vs_def)
  ultimately show ?thesis by blast
qed

text \<open>Every frame of 33 bytes unpacks, to parameters that fit their fields.\<close>

lemma check_widths:
  "case sym_unpack explode_rfc (replicate 16 []) sym_frame (sym 0) of None \<Rightarrow> False | Some sv \<Rightarrow>
     list_all (\<lambda>f. list_all (\<lambda>x. x = []) (drop (field_width f) (sv f))) frame_fields"
  by code_simp

lemma rep_narrow:
  assumes "rep rho x (w :: u16)" and "list_all (\<lambda>x. x = []) (drop n x)"
  shows "take_bit n w = w"
proof (rule bit_word_eqI)
  fix i assume i: "i < LENGTH(16)"
  have "\<not> bit w i" if "n \<le> i"
  proof -
    have "i < length x" using i assms(1) by (simp add: rep_def)
    then have "x ! i \<in> set (drop n x)" using that nth_mem [of "i - n" "drop n x"] by (simp del: nth_mem)
    then have "x ! i = []" using assms(2) by (simp add: list_all_iff)
    then show ?thesis using assms(1) i by (simp add: rep_def)
  qed
  then show "bit (take_bit n w) i = bit w i" by (metis bit_take_bit_iff linorder_not_less)
qed

lemma frame_unpacks:
  assumes "length c = 33"
  shows "\<exists>w. run_unpack explode_rfc 0 c v0 = Some w \<and> (\<forall>f \<in> set frame_fields. take_bit (field_width f) (w f) = w f)"
proof -
  obtain vs where vs: "vs 0 = v0" and frame: "list_all2 (rep (bit_of vs)) sym_frame c"
    using frame_symbolic [OF assms] by blast
  obtain sv where sv: "sym_unpack explode_rfc (replicate 16 []) sym_frame (sym 0) = Some sv"
      "list_all (\<lambda>f. list_all (\<lambda>x. x = []) (drop (field_width f) (sv f))) frame_fields"
    using check_widths by (cases "sym_unpack explode_rfc (replicate 16 []) sym_frame (sym 0)") simp_all
  obtain w where w: "run_unpack explode_rfc 0 c v0 = Some w" "\<forall>f. rep (bit_of vs) (sv f) (w f)"
    using run_unpack_sound [where sv = "sym 0" and v = v0 and ops = explode_rfc and rho = "bit_of vs",
        OF _ rep_zero16 frame] rep_sym [of vs 0]
    by (cases "run_unpack explode_rfc 0 c v0") (simp_all add: sv(1) vs)
  then show ?thesis using sv(2) rep_narrow by (fastforce simp: list_all_iff)
qed

lemma low4: "(0xF :: u16) = mask 4"
  by (simp add: mask_eq_exp_minus_1)

lemma fields_index: "map source_index frame_fields = [0..<76]"
  by code_simp

lemma length_fields: "length frame_fields = 76"
  by code_simp

lemma no_chain: "f \<in> set frame_fields \<Longrightarrow> f \<noteq> Chain \<and> f \<noteq> Magic"
  by (auto simp: frame_fields_def)

text \<open>An array of parameters that fit their fields.\<close>

definition fits_fields :: "int list \<Rightarrow> bool" where
  "fits_fields src \<longleftrightarrow> length src = 76 \<and> list_all (\<lambda>f. 0 \<le> src ! source_index f \<and> src ! source_index f < 2 ^ field_width f) frame_fields"

lemma params_field: "f \<in> set frame_fields \<Longrightarrow> params_of S src f = word_of_int (src ! source_index f)"
  by (auto simp: params_of_def frame_fields_def)

lemma field_width_le: "field_width f \<le> 7"
  by (cases f) auto

lemma word_fits:
  assumes "0 \<le> (x :: int)" and "x < 2 ^ n" and "n \<le> 7"
  shows "take_bit n (word_of_int x :: u16) = word_of_int x" and "sint (word_of_int x :: u16) = x"
proof -
  have "(2 :: int) ^ n \<le> 2 ^ 7" using assms(3) by (intro power_increasing) auto
  then have "x < 128" using assms(2) by simp
  show "take_bit n (word_of_int x :: u16) = word_of_int x"
    by (rule bit_word_eqI)
      (use take_bit_int_eq_self [OF assms(1,2)] in \<open>metis bit_take_bit_iff bit_word_of_int_iff\<close>)
  show "sint (word_of_int x :: u16) = x"
    using \<open>x < 128\<close> assms(1) by (simp add: int_word_sint)
qed

lemma array_of_params:
  assumes "fits_fields src" and "\<forall>f \<in> set frame_fields. v f = take_bit (field_width f) (params_of S src f)"
  shows "array_of v = src"
proof -
  have "sint (v f) = src ! source_index f" if "f \<in> set frame_fields" for f
  proof -
    have "0 \<le> src ! source_index f" "src ! source_index f < 2 ^ field_width f"
      using assms(1) that by (auto simp: fits_fields_def list_all_iff)
    from word_fits [OF this field_width_le] show ?thesis using assms(2) that by (simp add: params_field)
  qed
  then have "array_of v = map (\<lambda>f. src ! source_index f) frame_fields" by (simp add: array_of_def)
  also have "\<dots> = map ((!) src) (map source_index frame_fields)" by simp
  also have "\<dots> = src" using assms(1) map_nth [of src] by (simp only: fields_index) (simp add: fits_fields_def)
  finally show ?thesis .
qed

text \<open>The magic nibble of the first byte.\<close>

lemma first_byte: "\<exists>b bs. pack_bytes v implode_rfc = b # bs \<and>
    drop_bit 4 (ucast b :: u16) AND 0x0F = v Magic AND 0x0F"
proof -
  let ?w = "push_bit 4 (v Magic AND 0xF) OR (drop_bit 2 (v (LARc 0)) AND 0xF)"
  have "pack_bytes v implode_rfc ! 0 = ucast ?w" "pack_bytes v implode_rfc \<noteq> []"
    by (simp_all add: pack_bytes_def implode_rfc_def del: push_bit_and)
  moreover have "drop_bit 4 (ucast (ucast ?w :: u8) :: u16) AND mask 4 = v Magic AND mask 4"
    unfolding low4 by (rule bit_word_eqI) (auto simp: bit_simps)
  ultimately show ?thesis by (cases "pack_bytes v implode_rfc") (auto simp: low4)
qed

lemma nibble_of: "drop_bit 4 (ucast (b :: u8) :: u16) AND 0xF = ucast (drop_bit 4 b)"
  unfolding low4 by (rule bit_word_eqI) (auto simp: bit_simps dest: bit_imp_le_length)

lemma magic_of: "ucast (drop_bit 4 (b :: u8)) = (0xD :: u16) \<longleftrightarrow> drop_bit 4 b = 0xD"
proof -
  have "unat (ucast (drop_bit 4 b) :: u16) = unat (drop_bit 4 b)"
    using unsigned_less [of "drop_bit 4 b", where 'a = nat] by (simp add: unsigned_ucast_eq take_bit_nat_eq_self)
  then show ?thesis by (simp add: word_unat_eq_iff)
qed

lemma magic_nibble:
  "length c = 33 \<Longrightarrow> check_magic c = (if drop_bit 4 (c ! 0) = 0xD then None else Some NoGsmMagic)"
  by (cases c) (simp_all add: check_magic_def nibble_of magic_of GSM_MAGIC_def)

lemma implode_rfc_magic:
  assumes "v Magic = GSM_MAGIC"
  shows "check_magic (pack_bytes v implode_rfc) = None"
  using first_byte [of v] assms by (auto simp: check_magic_def GSM_MAGIC_def)

lemma params_magic [simp]: "params_of S src Magic = GSM_MAGIC" "params_of S src Chain = ucast (frame_chain S)"
  by (simp_all add: params_of_def)

section \<open>Properties of the frames\<close>

text \<open>
  C23: A frame of 33 bytes: imploding 76 parameters that fit their fields and exploding the bytes returns the parameters;
  parameters that do not fit are cut to their low bits, and never touch another field.
\<close>

theorem frame_roundtrip:
  assumes "wav_fmt S = 0" and "fits_fields src"
  shows "length (fst (gsm_implode S src)) = 33 \<and> gsm_explode S (fst (gsm_implode S src)) = Inr (src, S)"
proof -
  let ?v = "params_of S src"
  obtain v where v: "run_unpack explode_rfc 0 (pack_bytes ?v implode_rfc) (blank_params S) = Some v"
      "\<forall>f \<in> set frame_fields. v f = take_bit (field_width f) (?v f)"
    using rfc_roundtrip by blast
  have "array_of v = src" by (rule array_of_params [OF assms(2) v(2)])
  moreover have "length (pack_bytes ?v implode_rfc) = 33" by (simp add: pack_bytes_def implode_rfc_def)
  ultimately show ?thesis
    using assms(1) v(1) by (simp add: gsm_implode_def gsm_explode_def implode_rfc_magic read_frame_def)
qed

definition example_params :: "int list" where
  "example_params = [63, 32, 31, 16, 15, 8, 7, 4] @ concat (replicate 4 ([120, 3, 2, 63] @ replicate 13 5))"

lemma example_params_fit: "fits_fields example_params"
  by code_simp

theorem frame_roundtrip_witness:
  "gsm_explode gsm_create (fst (gsm_implode gsm_create example_params)) = Inr (example_params, gsm_create)"
  using frame_roundtrip [OF _ example_params_fit, of gsm_create] by (simp add: gsm_create_def)

text \<open>
  C24: Two frames in 65 bytes: the half byte left by the first frame is carried over by the state, and exploding the pair
  returns the parameters of both frames.
\<close>

theorem wav_pair_roundtrip:
  assumes "wav_fmt S \<noteq> 0" and "frame_index S = 1" and "wav_fmt T \<noteq> 0" and "frame_index T = 1"
    and "fits_fields src1" and "fits_fields src2"
    and "gsm_implode S src1 = (b1, S1)" and "gsm_implode (S1\<lparr>frame_index := 0\<rparr>) src2 = (b2, S2)"
  shows "length (take 32 b1 @ b2) = 65 \<and>
    (\<exists>T1. gsm_explode T (take 32 b1 @ b2) = Inr (src1, T1) \<and>
      gsm_explode (T1\<lparr>frame_index := 0\<rparr>) (drop 33 (take 32 b1 @ b2)) = Inr (src2, T1\<lparr>frame_index := 0\<rparr>))"
proof -
  define v1 where "v1 = params_of S src1"
  define v2 where "v2 = params_of (S1\<lparr>frame_index := 0\<rparr>) src2"
  define vs where "vs k = (if k = 1 then v1 else if k = 2 then v2 else blank_params T)" for k :: nat
  define z where "z = (replicate 16 [] :: bit_name sword)"
  define sb1 where "sb1 = snd (sym_pack (sym 1) implode_wav_first z)"
  define sb2 where "sb2 = snd (sym_pack ((sym 2)(Chain := s_wide (last sb1))) implode_wav_second z)"
  have z: "rep (bit_of vs) z (0 :: u16)" unfolding z_def by (rule rep_zero16)
  have b1: "b1 = snd (run_pack v1 implode_wav_first 0)" "S1 = S\<lparr>frame_chain := last b1\<rparr>"
    using assms(1,2,7) by (auto simp: gsm_implode_def v1_def Let_def)
  then have b2: "b2 = snd (run_pack v2 implode_wav_second 0)"
    using assms(1,8) by (auto simp: gsm_implode_def v2_def Let_def)
  have rep1: "rep (bit_of vs) (sym 1 f) (v1 f)" and rep2: "rep (bit_of vs) (sym 2 f) (v2 f)"
    and rep0: "rep (bit_of vs) (sym 0 f) (blank_params T f)" for f
    using rep_sym [of vs 1 f] rep_sym [of vs 2 f] rep_sym [of vs 0 f] by (simp_all add: vs_def)
  note check = check_wav [folded z_def, unfolded Let_def, folded sb1_def, folded sb2_def]
  have r1: "list_all2 (rep (bit_of vs)) sb1 b1" unfolding sb1_def b1 by (rule conjunct2 [OF run_pack_sound [OF rep1 z]])
  have len: "length sb1 = 33" "length sb2 = 33" using check by simp_all
  then have "length b1 = 33" using r1 by (simp add: list_all2_lengthD)
  then have "rep (bit_of vs) (last sb1) (last b1)"
    using r1 len(1) by (simp add: last_conv_nth list_all2_conv_all_nth flip: length_greater_0_conv)
  then have "rep (bit_of vs) (s_wide (last sb1)) (v2 Chain)"
    using rep_wide by (simp add: v2_def b1(2))
  then have "rep (bit_of vs) (((sym 2)(Chain := s_wide (last sb1))) f) (v2 f)" for f using rep2 by simp
  then have r2: "list_all2 (rep (bit_of vs)) sb2 b2"
    unfolding sb2_def b2 by (intro conjunct2 [OF run_pack_sound [OF _ z]])
  then have "length b2 = 33" using len by (simp add: list_all2_lengthD)
  let ?cs = "take 32 b1 @ b2"
  define ss where "ss = take 32 sb1 @ sb2"
  note check' = check [folded ss_def]
  have stream: "list_all2 (rep (bit_of vs)) ss ?cs" unfolding ss_def by (rule list_all2_appendI [OF list_all2_takeI [OF r1] r2])
  obtain s1 where s1: "sym_unpack explode_wav_first z ss (sym 0) = Some s1" "list_all (\<lambda>f. s1 f = sym_low 1 f) frame_fields"
      "case sym_unpack explode_wav_second z (drop 33 ss) ((sym 0)(Chain := s_wide (take 8 (s1 Chain)))) of
        None \<Rightarrow> False | Some s2 \<Rightarrow> list_all (\<lambda>f. s2 f = sym_low 2 f) frame_fields"
    using check' by (cases "sym_unpack explode_wav_first z ss (sym 0)") simp_all
  obtain s2 where s2: "sym_unpack explode_wav_second z (drop 33 ss) ((sym 0)(Chain := s_wide (take 8 (s1 Chain)))) = Some s2"
      "list_all (\<lambda>f. s2 f = sym_low 2 f) frame_fields"
    using s1(3) by (cases "sym_unpack explode_wav_second z (drop 33 ss) ((sym 0)(Chain := s_wide (take 8 (s1 Chain))))") simp_all
  obtain w1 where w1: "run_unpack explode_wav_first 0 ?cs (blank_params T) = Some w1" "\<forall>f. rep (bit_of vs) (s1 f) (w1 f)"
    using run_unpack_sound [where sv = "sym 0" and v = "blank_params T" and ops = explode_wav_first, OF rep0 z stream]
    by (cases "run_unpack explode_wav_first 0 ?cs (blank_params T)") (simp_all add: s1(1))
  define T1 where "T1 = T\<lparr>frame_chain := ucast (w1 Chain)\<rparr>"
  have "rep (bit_of vs) (s_wide (take 8 (s1 Chain))) (ucast (ucast (w1 Chain) :: u8) :: u16)"
    by (intro rep_wide rep_byte) (use w1(2) in blast)
  then have chain: "rep (bit_of vs) (((sym 0)(Chain := s_wide (take 8 (s1 Chain)))) f) (blank_params (T1\<lparr>frame_index := 0\<rparr>) f)"
    for f using rep0 [of f] by (cases "f = Chain") (simp_all add: blank_params_def T1_def)
  obtain w2 where w2: "run_unpack explode_wav_second 0 (drop 33 ?cs) (blank_params (T1\<lparr>frame_index := 0\<rparr>)) = Some w2"
      "\<forall>f. rep (bit_of vs) (s2 f) (w2 f)"
    using run_unpack_sound [where sv = "(sym 0)(Chain := s_wide (take 8 (s1 Chain)))" and ops = explode_wav_second
        and v = "blank_params (T1\<lparr>frame_index := 0\<rparr>)", OF chain z list_all2_dropI [OF stream, of 33]]
    by (cases "run_unpack explode_wav_second 0 (drop 33 ?cs) (blank_params (T1\<lparr>frame_index := 0\<rparr>))") (simp_all add: s2(1))
  have "array_of w1 = src1"
  proof (rule array_of_params [OF assms(5)], rule ballI)
    fix f assume "f \<in> set frame_fields"
    then have "s1 f = sym_low 1 f" using s1(2) by (simp add: list_all_iff)
    from rep_low_unique [OF spec [OF w1(2)] this] show "w1 f = take_bit (field_width f) (params_of S src1 f)"
      by (simp add: vs_def v1_def)
  qed
  moreover have "array_of w2 = src2"
  proof (rule array_of_params [OF assms(6)], rule ballI)
    fix f assume "f \<in> set frame_fields"
    then have "s2 f = sym_low 2 f" using s2(2) by (simp add: list_all_iff)
    from rep_low_unique [OF spec [OF w2(2)] this]
    show "w2 f = take_bit (field_width f) (params_of (S1\<lparr>frame_index := 0\<rparr>) src2 f)"
      by (simp add: vs_def v2_def)
  qed
  ultimately have "gsm_explode T ?cs = Inr (src1, T1)"
      "gsm_explode (T1\<lparr>frame_index := 0\<rparr>) (drop 33 ?cs) = Inr (src2, T1\<lparr>frame_index := 0\<rparr>)"
    using assms(3,4) w1(1) w2(1) by (simp_all add: gsm_explode_def read_frame_def T1_def)
  moreover have "length ?cs = 65" using \<open>length b1 = 33\<close> \<open>length b2 = 33\<close> by simp
  ultimately show ?thesis by blast
qed

theorem wav_pair_roundtrip_witness:
  "\<exists>b1 S1 b2 S2 T1. gsm_implode (gsm_create\<lparr>wav_fmt := 1, frame_index := 1\<rparr>) example_params = (b1, S1)
    \<and> gsm_implode (S1\<lparr>frame_index := 0\<rparr>) example_params = (b2, S2)
    \<and> gsm_explode (gsm_create\<lparr>wav_fmt := 1, frame_index := 1\<rparr>) (take 32 b1 @ b2) = Inr (example_params, T1)"
proof -
  let ?S = "gsm_create\<lparr>wav_fmt := 1, frame_index := 1\<rparr>"
  obtain b1 S1 where 1: "gsm_implode ?S example_params = (b1, S1)" by (cases "gsm_implode ?S example_params")
  obtain b2 S2 where 2: "gsm_implode (S1\<lparr>frame_index := 0\<rparr>) example_params = (b2, S2)"
    by (cases "gsm_implode (S1\<lparr>frame_index := 0\<rparr>) example_params")
  show ?thesis using wav_pair_roundtrip [OF _ _ _ _ example_params_fit example_params_fit 1 2, of ?S] 1 2 by auto
qed

lemma pack_byte_cong:
  "list_all (\<lambda>(f, _). v f = w f) ts \<Longrightarrow> pack_byte v ts = pack_byte w ts"
  by (induction ts) auto

lemma implode_rfc_fields: "list_all (list_all (\<lambda>(f, _). f \<in> set (Magic # frame_fields))) implode_rfc"
  by code_simp

lemma array_of_nth:
  assumes "f \<in> set frame_fields"
  shows "array_of w ! source_index f = sint (w f)"
proof -
  obtain i where i: "i < 76" "f = frame_fields ! i" using assms by (metis in_set_conv_nth length_fields)
  have "map source_index frame_fields ! i = i" unfolding fields_index using i(1) by simp
  then show ?thesis using i by (simp add: array_of_def length_fields)
qed

lemma implode_array: "pack_bytes (params_of S (array_of w)) implode_rfc = pack_bytes (w(Magic := GSM_MAGIC)) implode_rfc"
proof -
  let ?v = "params_of S (array_of w)" and ?w = "w(Magic := GSM_MAGIC)"
  have eq: "?v f = ?w f" if "f \<in> set (Magic # frame_fields)" for f
    using that no_chain [of f] by (auto simp: params_field array_of_nth)
  have "pack_byte ?v ts = pack_byte ?w ts" if "ts \<in> set implode_rfc" for ts
  proof (rule pack_byte_cong, rule list.pred_mono_strong)
    show "list_all (\<lambda>(f, _). f \<in> set (Magic # frame_fields)) ts"
      by (rule bspec [OF iffD1 [OF list_all_iff implode_rfc_fields] that])
    show "case t of (f, _) \<Rightarrow> ?v f = ?w f" if "case t of (f, _) \<Rightarrow> f \<in> set (Magic # frame_fields)" for t :: pack_term
      using that eq by (cases t) (simp only: prod.case)
  qed
  then show ?thesis by (simp add: pack_bytes_def)
qed

text \<open>
  A frame of 33 bytes with the magic nibble is determined by its parameters: exploding it and imploding the result
  gives back every byte.  A first byte with another nibble is refused, and fewer bytes are not a frame.
\<close>

theorem frame_canonical:
  assumes "wav_fmt S = 0" and "length c = 33"
  shows "if drop_bit 4 (c ! 0) = 0xD then \<exists>src. gsm_explode S c = Inr (src, S) \<and> gsm_implode S src = (c, S)
    else gsm_explode S c = Inl NoGsmMagic"
proof -
  obtain b cs where c: "c = b # cs" using assms(2) by (cases c) auto
  note nibble = nibble_of [of b] and eq = magic_of [of b]
  show ?thesis
  proof (cases "drop_bit 4 b = 0xD")
    case False
    then show ?thesis using assms(1) nibble eq by (simp add: gsm_explode_def check_magic_def c GSM_MAGIC_def)
  next
    case True
    obtain vs where vs: "vs 0 = blank_params S" and frame: "list_all2 (rep (bit_of vs)) sym_frame c"
      using frame_symbolic [OF assms(2)] by blast
    obtain sv where sv: "sym_unpack explode_rfc (replicate 16 []) sym_frame (sym 0) = Some sv"
        "map (\<lambda>ts. take 8 (sym_byte (sv(Magic := s_mask 0xF (s_right 4 (s_wide (hd sym_frame))))) ts)) implode_rfc = sym_frame"
      using check_canonical by (cases "sym_unpack explode_rfc (replicate 16 []) sym_frame (sym 0)") simp_all
    obtain w where w: "run_unpack explode_rfc 0 c (blank_params S) = Some w" "\<forall>f. rep (bit_of vs) (sv f) (w f)"
      using run_unpack_sound [where sv = "sym 0" and v = "blank_params S" and ops = explode_rfc and rho = "bit_of vs",
          OF _ rep_zero16 frame] rep_sym [of vs 0]
      by (cases "run_unpack explode_rfc 0 c (blank_params S)") (simp_all add: sv(1) vs)
    have "sym_frame \<noteq> []" by (simp add: sym_frame_def)
    then have "rep (bit_of vs) (hd sym_frame) b"
      using list_all2_nthD2 [OF frame, of 0] by (simp add: c hd_conv_nth)
    then have "rep (bit_of vs) (s_mask 0xF (s_right 4 (s_wide (hd sym_frame)))) (drop_bit 4 (ucast b :: u16) AND 0xF)"
      by (intro rep_mask rep_right rep_wide)
    then have "rep (bit_of vs) (s_mask 0xF (s_right 4 (s_wide (hd sym_frame)))) GSM_MAGIC"
      using nibble eq True by (simp add: GSM_MAGIC_def)
    then have "rep (bit_of vs) ((sv(Magic := s_mask 0xF (s_right 4 (s_wide (hd sym_frame))))) f) ((w(Magic := GSM_MAGIC)) f)" for f
      using w(2) by simp
    from pack_bytes_sound [where sv = "sv(Magic := s_mask 0xF (s_right 4 (s_wide (hd sym_frame))))"
        and v = "w(Magic := GSM_MAGIC)" and tss = implode_rfc, OF this]
    have "list_all2 (rep (bit_of vs)) sym_frame (pack_bytes (w(Magic := GSM_MAGIC)) implode_rfc)" by (simp only: sv(2))
    with frame have "pack_bytes (w(Magic := GSM_MAGIC)) implode_rfc = c"
      by (intro rep_list_unique [of "bit_of vs" sym_frame])
    then have "gsm_implode S (array_of w) = (c, S)" using assms(1) by (simp add: gsm_implode_def implode_array)
    moreover have "check_magic c = None" using nibble eq True by (simp add: check_magic_def c GSM_MAGIC_def)
    then have "gsm_explode S c = Inr (array_of w, S)" using assms(1) w(1) by (simp add: gsm_explode_def read_frame_def)
    ultimately show ?thesis using True by (auto simp: c)
  qed
qed

theorem frame_canonical_witness:
  "(\<exists>src. gsm_implode gsm_create src = (0xD3 # replicate 32 0x55, gsm_create)) \<and>
   gsm_explode gsm_create (replicate 33 0) = Inl NoGsmMagic"
  using frame_canonical [of gsm_create "0xD3 # replicate 32 0x55"] frame_canonical [of gsm_create "replicate 33 0"]
  by (auto simp: gsm_create_def drop_bit_eq_div)

end
