(* ===== verification/GsmLpc.thy ===== *)
theory GsmLpc
  imports GsmArith
begin

unbundle bit_operations_syntax

text \<open>
  The first half of the analysis of the GSM 06.10 coder: the preprocessing of the samples
  (\<open>src/work/text/gsm/src/preprocess.c\<close>) and the linear prediction (\<open>lpc.c\<close>, without \<open>USE_FLOAT_MUL\<close>).  An array is the list
  of its elements, and a loop over it is a recursion on the list.
\<close>

section \<open>Preprocessing\<close>

text \<open>One sample; the state is \<open>z1\<close>, \<open>L_z2\<close> and \<open>mp\<close>.\<close>

definition preprocess_step :: "int \<Rightarrow> int \<times> int \<times> int \<Rightarrow> int \<times> int \<times> int \<times> int" where
  "preprocess_step s st = (case st of (z, L_z, mp) \<Rightarrow>
     let SO = s16 (push_bit 2 (SASR s 3));
         s1 = s16 (SO - z);
         z = SO;
         L_s2 = s1;
         L_s2 = s32 (push_bit 15 L_s2);
         msp = s16 (SASR L_z 15);
         lsp = s16 (s32 (L_z - s32 (push_bit 15 msp)));
         L_s2 = s32 (L_s2 + GSM_MULT_R lsp 32735);
         L_temp = s32 (msp * 32735);
         L_z = GSM_L_ADD L_temp L_s2;
         L_temp = GSM_L_ADD L_z 16384;
         msp = s16 (GSM_MULT_R mp (- 28180));
         mp = s16 (SASR L_temp 15)
     in (GSM_ADD mp msp, z, L_z, mp))"

fun preprocess_loop :: "int list \<Rightarrow> int \<times> int \<times> int \<Rightarrow> int list \<times> int \<times> int \<times> int" where
  "preprocess_loop [] st = ([], st)"
| "preprocess_loop (s # ss) st =
     (let (so, st) = preprocess_step s st; (sos, st) = preprocess_loop ss st in (so # sos, st))"

definition Gsm_Preprocess :: "gsm_state \<Rightarrow> int list \<Rightarrow> int list \<times> gsm_state" where
  "Gsm_Preprocess S s =
     (let (so, z, L_z, mp) = preprocess_loop s (z1 S, L_z2 S, s16 (gs_mp S))
      in (so, S\<lparr>z1 := z, L_z2 := L_z, gs_mp := mp\<rparr>))"

section \<open>Autocorrelation\<close>

definition max_abs :: "int list \<Rightarrow> int" where
  "max_abs s = fold (\<lambda>x smax. let temp = GSM_ABS x in if temp > smax then temp else smax) s 0"

definition scaling :: "int list \<Rightarrow> int" where
  "scaling s = (let smax = max_abs s in if smax = 0 then 0 else s16 (4 - gsm_norm (s32 (push_bit 16 smax))))"

definition scale_down :: "int \<Rightarrow> int list \<Rightarrow> int list" where
  "scale_down scalauto s =
     (if 1 \<le> scalauto \<and> scalauto \<le> 4 then map (\<lambda>x. s16 (GSM_MULT_R x (drop_bit (nat (scalauto - 1)) 16384))) s else s)"

text \<open>\<open>STEP (k)\<close> at sample \<open>i\<close>; the samples before the ninth have the steps the array has room for.\<close>

definition acf_step :: "int list \<Rightarrow> nat \<Rightarrow> nat \<Rightarrow> int list \<Rightarrow> int list" where
  "acf_step s i k L = L[k := s32 (L ! k + s ! i * s ! (i - k))]"

definition acf_sample :: "int list \<Rightarrow> nat \<Rightarrow> int list \<Rightarrow> int list" where
  "acf_sample s i L = fold (acf_step s i) [0..<min (i + 1) 9] L"

definition Autocorrelation :: "int list \<Rightarrow> int list \<times> int list" where
  "Autocorrelation s =
     (let scalauto = scaling s;
          s = scale_down scalauto s;
          L_ACF = fold (acf_sample s) [0..<160] (replicate 9 0);
          L_ACF = map (\<lambda>x. s32 (push_bit 1 x)) L_ACF;
          s = (if scalauto > 0 then map (\<lambda>x. s16 (push_bit (nat scalauto) x)) s else s)
      in (L_ACF, s))"

section \<open>Reflection coefficients\<close>

text \<open>The inner loop of the Schur recursion, for \<open>m\<close> from 1 on.\<close>

fun schur_loop :: "nat \<Rightarrow> nat \<Rightarrow> int \<Rightarrow> int list \<times> int list \<Rightarrow> int list \<times> int list" where
  "schur_loop 0 m r PK = PK"
| "schur_loop (Suc n) m r (P, K) =
     (let temp = s16 (GSM_MULT_R (K ! m) r);
          P' = P[m := GSM_ADD (P ! (m + 1)) temp];
          temp = s16 (GSM_MULT_R (P' ! (m + 1)) r);
          K' = K[m := GSM_ADD (K ! m) temp]
      in schur_loop n (m + 1) r (P', K'))"

text \<open>The outer loop with \<open>k\<close> coefficients to go, that is \<open>n = 9 - k\<close>.\<close>

fun reflection_loop :: "nat \<Rightarrow> int list \<Rightarrow> int list \<Rightarrow> int list" where
  "reflection_loop 0 P K = []"
| "reflection_loop (Suc k) P K =
     (let temp = GSM_ABS (P ! 1) in
      if P ! 0 < temp then replicate (Suc k) 0
      else
        let r = gsm_div temp (P ! 0);
            r = (if P ! 1 > 0 then s16 (- r) else r) in
        if k = 0 then [r]
        else
          let temp = s16 (GSM_MULT_R (P ! 1) r);
              P = P[0 := GSM_ADD (P ! 0) temp];
              (P, K) = schur_loop k 1 r (P, K)
          in r # reflection_loop k P K)"

definition Reflection_coefficients :: "int list \<Rightarrow> int list" where
  "Reflection_coefficients L_ACF =
     (if L_ACF ! 0 = 0 then replicate 8 0
      else
        let temp = gsm_norm (L_ACF ! 0);
            ACF = map (\<lambda>x. s16 (SASR (s32 (push_bit (nat temp) x)) 16)) L_ACF
        in reflection_loop 8 ACF ACF)"

section \<open>Log area ratios\<close>

definition log_area_ratio :: "int \<Rightarrow> int" where
  "log_area_ratio r =
     (let temp = GSM_ABS r;
          temp = (if temp < 22118 then drop_bit 1 temp
                  else if temp < 31130 then temp - 11059
                  else s16 (push_bit 2 (temp - 26112)))
      in if r < 0 then - temp else temp)"

definition Transformation_to_Log_Area_Ratios :: "int list \<Rightarrow> int list" where
  "Transformation_to_Log_Area_Ratios r = map log_area_ratio r"

definition quantize :: "int \<times> int \<times> int \<times> int \<Rightarrow> int \<Rightarrow> int" where
  "quantize q LAR = (case q of (A, B, MAC, MIC) \<Rightarrow>
     let temp = s16 (GSM_MULT A LAR);
         temp = GSM_ADD temp B;
         temp = GSM_ADD temp 256;
         temp = SASR temp 9
     in if temp > MAC then MAC - MIC else if temp < MIC then 0 else temp - MIC)"

definition quantizers :: "(int \<times> int \<times> int \<times> int) list" where
  "quantizers = [(20480, 0, 31, - 32), (20480, 0, 31, - 32), (20480, 2048, 15, - 16), (20480, - 2560, 15, - 16),
     (13964, 94, 7, - 8), (15360, - 1792, 7, - 8), (8534, - 341, 3, - 4), (9036, - 1144, 3, - 4)]"

definition Quantization_and_coding :: "int list \<Rightarrow> int list" where
  "Quantization_and_coding LAR = map2 quantize quantizers LAR"

definition Gsm_LPC_Analysis :: "int list \<Rightarrow> int list \<times> int list" where
  "Gsm_LPC_Analysis s =
     (let (L_ACF, s) = Autocorrelation s;
          LARc = Reflection_coefficients L_ACF;
          LARc = Transformation_to_Log_Area_Ratios LARc;
          LARc = Quantization_and_coding LARc
      in (LARc, s))"

section \<open>The preprocessing filters do not overflow\<close>

text \<open>
  The filters over the integers, without any conversion: \<open>L\<close> is the state of the high-pass filter in units of
  \<open>2^-15\<close>, and the result is the emphasized sample, limited to a word.
\<close>

definition high_pass :: "int \<Rightarrow> int \<Rightarrow> int \<Rightarrow> int" where
  "high_pass so z L = (so - z) * 32768 + L div 32768 * 32735 + (L mod 32768 * 32735 + 16384) div 32768"

fun ideal_loop :: "int list \<Rightarrow> int \<times> int \<times> int \<Rightarrow> int list \<times> int \<times> int \<times> int" where
  "ideal_loop [] st = ([], st)"
| "ideal_loop (s # ss) (z, L, m) =
     (let so = s div 8 * 4;
          L = high_pass so z L;
          m' = (L + 16384) div 32768;
          out = clamp (- 32768) 32767 (m' + (m * - 28180 + 16384) div 32768);
          (sos, st) = ideal_loop ss (so, L, m')
      in (out # sos, st))"

text \<open>The invariant: \<open>L\<close> follows the last sample at a bounded distance.\<close>

definition filter_ok :: "int \<Rightarrow> int \<Rightarrow> int \<Rightarrow> bool" where
  "filter_ok z L m \<longleftrightarrow> - 16384 \<le> z \<and> z \<le> 16380 \<and> - 16380 * 32768 - 1000 \<le> L - z * 32768 \<and>
     L - z * 32768 \<le> 16384 * 32768 + 1000 \<and> is_word m"

lemma high_pass_bounds:
  assumes "filter_ok z L m" and "- 16384 \<le> so" and "so \<le> 16380"
  shows "- 16380 * 32768 - 1000 \<le> high_pass so z L - so * 32768" and "high_pass so z L - so * 32768 \<le> 16384 * 32768 + 1000"
    and "- 32765 \<le> L div 32768" and "L div 32768 \<le> 32764"
proof -
  define a where "a = L div 32768"
  define b where "b = L mod 32768"
  define q where "q = (b * 32735 + 16384) div 32768"
  have L: "L = a * 32768 + b" by (simp add: a_def b_def)
  have b: "0 \<le> b" "b < 32768" by (simp_all add: b_def)
  have q: "q * 32768 \<le> b * 32735 + 16384" "b * 32735 + 16384 < q * 32768 + 32768"
    using div_bounds [of 32768 "b * 32735 + 16384"] by (auto simp: q_def distrib_right)
  have h: "high_pass so z L - so * 32768 = a * 32735 + q - z * 32768" by (simp add: high_pass_def a_def b_def q_def)
  note ok = assms(1) [unfolded filter_ok_def]
  show "high_pass so z L - so * 32768 \<le> 16384 * 32768 + 1000" unfolding h using ok L b q by linarith
  show "- 16380 * 32768 - 1000 \<le> high_pass so z L - so * 32768" unfolding h using ok L b q by linarith
  show "- 32765 \<le> L div 32768" "L div 32768 \<le> 32764" unfolding a_def [symmetric] using ok L b by linarith+
qed

lemma preprocess_step_ideal:
  assumes "filter_ok z L m" and "is_word s"
  defines "so \<equiv> s div 8 * 4"
  defines "L' \<equiv> high_pass so z L"
  shows "preprocess_step s (z, L, m) =
      (clamp (- 32768) 32767 ((L' + 16384) div 32768 + (m * - 28180 + 16384) div 32768), so, L', (L' + 16384) div 32768)"
    and "filter_ok so L' ((L' + 16384) div 32768)"
proof -
  have "- 4096 \<le> s div 8" "s div 8 \<le> 4095" using assms(2) by auto
  then have so: "- 16384 \<le> so" "so \<le> 16380" by (simp_all add: so_def)
  note hp = high_pass_bounds [OF assms(1) so, folded L'_def]
  note ok = assms(1) [unfolded filter_ok_def]
  have L': "is_long L'" "- 32765 * 32768 \<le> L'" "L' \<le> 32765 * 32768" using hp so by linarith+
  have m': "is_word ((L' + 16384) div 32768)" using L'(2,3) by auto
  show "filter_ok so L' ((L' + 16384) div 32768)" using so hp m' by (simp add: filter_ok_def)
  have s0: "s16 (push_bit 2 (SASR s 3)) = so" using so by (simp add: gsm_arith push_bit_eq_mult so_def)
  have s1: "s16 (so - z) = so - z" "s32 (push_bit 15 (so - z)) = (so - z) * 32768"
    using so ok by (simp_all add: push_bit_eq_mult)
  have msp: "s16 (SASR L 15) = L div 32768" using hp(3,4) by (simp add: gsm_arith)
  have lsp0: "L - s32 (push_bit 15 (L div 32768)) = L mod 32768"
    using hp(3,4) minus_div_mult_eq_mod [of L 32768] by (simp add: push_bit_eq_mult)
  have lm: "0 \<le> L mod 32768" "L mod 32768 < 32768" by simp_all
  then have w: "is_word (L mod 32768)" "is_long (L mod 32768)" by linarith+
  have lsp: "s16 (s32 (L - s32 (push_bit 15 (L div 32768)))) = L mod 32768"
    unfolding lsp0 s32_id [OF w(2)] by (rule s16_id [OF w(1)])
  have q: "0 \<le> (L mod 32768 * 32735 + 16384) div 32768" "(L mod 32768 * 32735 + 16384) div 32768 \<le> 32768"
    using lm by auto
  have r: "GSM_MULT_R (L mod 32768) 32735 = (L mod 32768 * 32735 + 16384) div 32768" by (simp add: GSM_MULT_R_def gsm_arith)
  have z: "- 16384 \<le> z" "z \<le> 16380" using ok by auto
  have long: "is_long ((so - z) * 32768 + (L mod 32768 * 32735 + 16384) div 32768)"
    using so z q by (simp only: left_diff_distrib) linarith
  have s2: "s32 ((so - z) * 32768 + GSM_MULT_R (L mod 32768) 32735) = (so - z) * 32768 + (L mod 32768 * 32735 + 16384) div 32768"
    unfolding r by (rule s32_id [OF long])
  have t: "s32 (L div 32768 * 32735) = L div 32768 * 32735" using hp(3,4) by simp
  have sum: "GSM_L_ADD (L div 32768 * 32735) ((so - z) * 32768 + (L mod 32768 * 32735 + 16384) div 32768) = L'"
  proof -
    have "is_long (L div 32768 * 32735)" using hp(3,4) by linarith
    with long show ?thesis using L'(1) by (simp add: GSM_L_ADD_clamp L'_def high_pass_def algebra_simps)
  qed
  have l2: "GSM_L_ADD L' 16384 = L' + 16384" using L' by (simp add: GSM_L_ADD_clamp)
  have "\<bar>GSM_MULT_R (- 28180) m\<bar> \<le> 32767" by (rule GSM_MULT_R_word) (use ok in auto)
  moreover have eq: "GSM_MULT_R (- 28180) m = GSM_MULT_R m (- 28180)" by (simp add: GSM_MULT_R_def mult.commute)
  ultimately have mm: "is_word (GSM_MULT_R m (- 28180))" by (intro abs_word) simp
  then have mm2: "s16 (GSM_MULT_R m (- 28180)) = (m * - 28180 + 16384) div 32768"
    unfolding s16_id [OF mm] by (simp add: GSM_MULT_R_def gsm_arith)
  have mp: "s16 (SASR (L' + 16384) 15) = (L' + 16384) div 32768" using m' by (simp add: gsm_arith)
  have out: "GSM_ADD ((L' + 16384) div 32768) ((m * - 28180 + 16384) div 32768) =
      clamp (- 32768) 32767 ((L' + 16384) div 32768 + (m * - 28180 + 16384) div 32768)"
    using m' mm by (intro GSM_ADD_clamp) (auto simp: GSM_MULT_R_def gsm_arith)
  show "preprocess_step s (z, L, m) =
      (clamp (- 32768) 32767 ((L' + 16384) div 32768 + (m * - 28180 + 16384) div 32768), so, L', (L' + 16384) div 32768)"
    unfolding preprocess_step_def prod.case Let_def s0 s1 msp lsp s2 t sum l2 mm2 mp out ..
qed

lemma preprocess_loop_ideal:
  assumes "filter_ok z L m" and "words s"
  shows "preprocess_loop s (z, L, m) = ideal_loop s (z, L, m) \<and>
    (\<exists>so z' L' m'. ideal_loop s (z, L, m) = (so, z', L', m') \<and> length so = length s \<and> words so \<and> filter_ok z' L' m')"
  using assms
proof (induction s arbitrary: z L m)
  case (Cons x s)
  define so where "so = x div 8 * 4"
  define L' where "L' = high_pass so z L"
  define m' where "m' = (L' + 16384) div 32768"
  define out where "out = clamp (- 32768) 32767 (m' + (m * - 28180 + 16384) div 32768)"
  have x: "is_word x" "words s" using Cons.prems(2) by (simp_all add: words_def)
  have step: "preprocess_step x (z, L, m) = (out, so, L', m')" and ok: "filter_ok so L' m'"
    using preprocess_step_ideal [OF Cons.prems(1) x(1)] by (simp_all only: so_def L'_def m'_def out_def)
  obtain sos z2 L2 m2 where r: "preprocess_loop s (so, L', m') = ideal_loop s (so, L', m')"
    "ideal_loop s (so, L', m') = (sos, z2, L2, m2)" "length sos = length s" "words sos" "filter_ok z2 L2 m2"
    using Cons.IH [OF ok x(2)] by blast
  have ideal: "ideal_loop (x # s) (z, L, m) = (out # sos, z2, L2, m2)"
    using r(2) by (simp only: ideal_loop.simps Let_def so_def [symmetric] L'_def [symmetric] m'_def [symmetric]
        out_def [symmetric] prod.case)
  have "preprocess_loop (x # s) (z, L, m) = (out # sos, z2, L2, m2)"
    by (simp only: preprocess_loop.simps step Let_def prod.case r(1,2))
  then show ?case using ideal r(3-5) by (simp add: words_def out_def)
qed (simp add: words_def)

text \<open>
  The preprocessing of the coder computes its filters exactly: no conversion to a type changes a value, no sum of long words
  saturates, and the state keeps its invariant, so this holds for every frame of a stream.  The only limit that
  takes effect is that of the last addition.
\<close>

theorem preprocess_exact:
  assumes "filter_ok (z1 S) (L_z2 S) (gs_mp S)" and "words s"
  shows "\<exists>so z L m. Gsm_Preprocess S s = (so, S\<lparr>z1 := z, L_z2 := L, gs_mp := m\<rparr>) \<and>
    ideal_loop s (z1 S, L_z2 S, gs_mp S) = (so, z, L, m) \<and> filter_ok z L m \<and> length so = length s \<and> words so"
proof -
  have "s16 (gs_mp S) = gs_mp S" using assms(1) by (simp add: filter_ok_def)
  then show ?thesis
    using preprocess_loop_ideal [OF assms] by (fastforce simp: Gsm_Preprocess_def)
qed

theorem preprocess_exact_witness:
  "\<exists>so z L m. Gsm_Preprocess gsm_create [32767, - 32768, 5] = (so, gsm_create\<lparr>z1 := z, L_z2 := L, gs_mp := m\<rparr>) \<and>
     ideal_loop [32767, - 32768, 5] (0, 0, 0) = (so, z, L, m) \<and> filter_ok z L m"
  using preprocess_exact [of gsm_create "[32767, - 32768, 5]"] by (auto simp: gsm_create_def filter_ok_def words_def)

section \<open>The autocorrelation is exact\<close>

lemma fold_update_each:
  assumes "m \<le> length L"
  shows "fold (\<lambda>k L. L[k := f k (L ! k)]) [0..<m] L = map (\<lambda>k. if k < m then f k (L ! k) else L ! k) [0..<length L]"
  using assms
proof (induction m)
  case 0
  then show ?case by (simp add: map_nth)
next
  case (Suc m)
  then show ?case by (intro nth_equalityI) (auto simp: nth_list_update less_Suc_eq)
qed

definition acf_sum :: "int list \<Rightarrow> nat \<Rightarrow> nat \<Rightarrow> int" where
  "acf_sum s n k = sum_list (map (\<lambda>i. s ! i * s ! (i - k)) [k..<n])"

lemma acf_sum_Suc: "acf_sum s (Suc n) k = (if k \<le> n then acf_sum s n k + s ! n * s ! (n - k) else acf_sum s n k)"
  by (simp add: acf_sum_def)

lemma product_bound: "\<bar>a\<bar> \<le> 2048 \<Longrightarrow> \<bar>b\<bar> \<le> 2048 \<Longrightarrow> \<bar>a * b :: int\<bar> \<le> 4194304"
  using mult_mono [of "\<bar>a\<bar>" 2048 "\<bar>b\<bar>" 2048] by (simp add: abs_mult)

lemma acf_sum_bound: "\<forall>i < n. \<bar>s ! i\<bar> \<le> 2048 \<Longrightarrow> \<bar>acf_sum s n k\<bar> \<le> 4194304 * int n"
proof (induction n)
  case (Suc n)
  have "\<bar>s ! n * s ! (n - k)\<bar> \<le> 4194304" using Suc.prems by (intro product_bound) auto
  then show ?case using Suc by (auto simp: acf_sum_Suc)
qed (simp add: acf_sum_def)

lemma acf_samples:
  assumes "\<forall>i < n. \<bar>s ! i\<bar> \<le> 2048" and "n \<le> 160"
  shows "fold (acf_sample s) [0..<n] (replicate 9 0) = map (acf_sum s n) [0..<9]"
  using assms
proof (induction n)
  case 0
  have "map (acf_sum s 0) [0..<9] = map (\<lambda>k. 0) [0..<9]" by (intro map_cong) (simp_all add: acf_sum_def)
  then show ?case by (simp add: map_replicate_const)
next
  case (Suc n)
  define L where "L = map (acf_sum s n) [0..<9]"
  have IH: "fold (acf_sample s) [0..<n] (replicate 9 0) = L" using Suc by (simp add: L_def)
  have "acf_step s n = (\<lambda>k L. L[k := (\<lambda>k x. s32 (x + s ! n * s ! (n - k))) k (L ! k)])"
    by (simp add: acf_step_def fun_eq_iff)
  then have "acf_sample s n L = map (\<lambda>k. if k < min (n + 1) 9 then s32 (L ! k + s ! n * s ! (n - k)) else L ! k) [0..<length L]"
    unfolding acf_sample_def by (simp only:) (rule fold_update_each, simp add: L_def)
  also have "\<dots> = map (acf_sum s (Suc n)) [0..<9]"
  proof (intro map_cong)
    fix k assume "k \<in> set [0..<9]"
    then have k: "k < 9" by simp
    have "\<bar>acf_sum s n k\<bar> \<le> 4194304 * int n" using Suc.prems(1) by (intro acf_sum_bound) simp
    moreover have "\<bar>s ! n * s ! (n - k)\<bar> \<le> 4194304" using Suc.prems(1) by (intro product_bound) auto
    ultimately have "is_long (acf_sum s n k + s ! n * s ! (n - k))" using Suc.prems(2) by linarith
    moreover have "k < min (n + 1) 9 \<longleftrightarrow> k \<le> n" using k by auto
    ultimately show "(if k < min (n + 1) 9 then s32 (L ! k + s ! n * s ! (n - k)) else L ! k) = acf_sum s (Suc n) k"
      using k by (simp add: L_def acf_sum_Suc)
  qed (simp add: L_def)
  finally show ?case by (simp add: IH)
qed

text \<open>The scaling makes every sample fit in 12 bits.\<close>

lemma max_abs:
  assumes "words s"
  shows "0 \<le> max_abs s" and "max_abs s \<le> 32767" and "x \<in> set s \<Longrightarrow> GSM_ABS x \<le> max_abs s"
  using abs_max [of s 0] assms unfolding max_abs_def words_def by auto

lemma scaled_sample_bound:
  assumes "0 \<le> n" and "n < 4" and "(m * 65536 + 1) * 2 ^ nat n \<le> 2147483648"
    and "x \<le> m \<and> - m \<le> x \<or> x = - 32768 \<and> m = 32767"
  shows "\<bar>s16 (GSM_MULT_R x (drop_bit (nat (3 - n)) 16384))\<bar> \<le> 2048"
proof -
  have "n \<in> {0, 1, 2, 3}" using assms(1,2) unfolding insert_iff empty_iff by presburger
  then have "\<bar>GSM_MULT_R x (drop_bit (nat (3 - n)) 16384)\<bar> \<le> 2048"
    using assms(3,4) by (elim insertE emptyE) (auto simp: GSM_MULT_R_def gsm_arith drop_bit_eq_div)
  then show ?thesis using s16_id [OF abs_word, of "GSM_MULT_R x (drop_bit (nat (3 - n)) 16384)"] by linarith
qed

lemma scaled_samples:
  assumes "words s"
  shows "\<forall>x \<in> set (scale_down (scaling s) s). \<bar>x\<bar> \<le> 2048" and "scaling s \<le> 4"
proof -
  define m where "m = max_abs s"
  note m = max_abs [OF assms, folded m_def]
  have x: "x \<le> m \<and> - m \<le> x \<or> x = - 32768 \<and> m = 32767" if "x \<in> set s" for x
    using assms m(2,3) that by (intro GSM_ABS_le) (auto simp: words_def)
  have "(\<forall>x \<in> set (scale_down (scaling s) s). \<bar>x\<bar> \<le> 2048) \<and> scaling s \<le> 4"
  proof (cases "m = 0")
    case True
    then have "scaling s = 0" by (simp add: scaling_def Let_def flip: m_def)
    then show ?thesis using x True by (fastforce simp: scale_down_def)
  next
    case False
    define n where "n = gsm_norm (m * 65536)"
    have n: "0 \<le> n" "(m * 65536 + 1) * 2 ^ nat n \<le> 2147483648"
      using norm_positive [of "m * 65536"] False m(1,2) by (simp_all add: n_def)
    have "n < 31"
    proof (rule ccontr)
      assume "\<not> n < 31"
      then have "(2 :: int) ^ 31 \<le> 2 ^ nat n" by (intro power_increasing) auto
      then have "(m * 65536 + 1) * 2 ^ 31 \<le> (m * 65536 + 1) * 2 ^ nat n" using m(1) by (intro mult_left_mono) auto
      then show False using n(2) False m(1) by simp
    qed
    then have scal: "scaling s = 4 - n" using False m(1,2) n(1)
      by (simp add: scaling_def Let_def push_bit_eq_mult n_def flip: m_def)
    show ?thesis
    proof (cases "n < 4")
      case True
      have "\<bar>s16 (GSM_MULT_R x (drop_bit (nat (3 - n)) 16384))\<bar> \<le> 2048" if "x \<in> set s" for x
        by (rule scaled_sample_bound [OF n(1) True n(2) x [OF that]])
      then show ?thesis using scal True n(1) by (auto simp: scale_down_def)
    next
      case False
      then have "(2 :: int) ^ 4 \<le> 2 ^ nat n" by (intro power_increasing) auto
      then have "(m * 65536 + 1) * 2 ^ 4 \<le> (m * 65536 + 1) * 2 ^ nat n" using m(1) by (intro mult_left_mono) auto
      then have "m \<le> 2047" using n(2) by simp
      then show ?thesis using x scal False by (fastforce simp: scale_down_def)
    qed
  qed
  then show "\<forall>x \<in> set (scale_down (scaling s) s). \<bar>x\<bar> \<le> 2048" "scaling s \<le> 4" by auto
qed

text \<open>
  The autocorrelation of a frame is exact: the scaled samples have at most 12 bits, so no product and no sum
  overflows, and coefficient \<open>k\<close> is twice the sum of the products at distance \<open>k\<close>, for all nine of them.
\<close>

theorem autocorrelation_exact:
  assumes "length s = 160" and "words s"
  defines "t \<equiv> scale_down (scaling s) s"
  shows "fst (Autocorrelation s) = map (\<lambda>k. 2 * acf_sum t 160 k) [0..<9] \<and> (\<forall>x \<in> set t. \<bar>x\<bar> \<le> 2048)"
proof -
  have t: "\<forall>x \<in> set t. \<bar>x\<bar> \<le> 2048" unfolding t_def by (rule scaled_samples(1) [OF assms(2)])
  have "length t = 160" using assms(1) by (simp add: t_def scale_down_def)
  then have i: "\<forall>i < 160. \<bar>t ! i\<bar> \<le> 2048" using t by simp
  have "s32 (push_bit 1 (acf_sum t 160 k)) = 2 * acf_sum t 160 k" for k
  proof -
    have "is_long (2 * acf_sum t 160 k)" using acf_sum_bound [OF i, of k] by auto
    then show ?thesis by (simp add: push_bit_eq_mult mult.commute)
  qed
  moreover have "fst (Autocorrelation s) = map (\<lambda>x. s32 (push_bit 1 x)) (fold (acf_sample t) [0..<160] (replicate 9 0))"
    by (simp add: Autocorrelation_def Let_def t_def)
  ultimately show ?thesis using t acf_samples [OF i] by simp
qed

theorem autocorrelation_exact_witness:
  "fst (Autocorrelation (replicate 160 0)) = replicate 9 0"
proof -
  have "scale_down n (replicate 160 0) = replicate 160 0" for n by (simp add: scale_down_def GSM_MULT_R_def gsm_arith)
  moreover have "acf_sum (replicate 160 0) 160 k = 0" if "k < 9" for k
  proof -
    have "map (\<lambda>i. replicate 160 0 ! i * replicate 160 0 ! (i - k)) [k..<160] = map (\<lambda>i. 0 :: int) [k..<160]"
      by (intro map_cong) simp_all
    then show ?thesis by (simp only: acf_sum_def sum_list_0)
  qed
  then have "map (\<lambda>k. 2 * acf_sum (replicate 160 0) 160 k) [0..<9] = map (\<lambda>k. 0) [0..<9]" by (intro map_cong) simp_all
  ultimately show ?thesis
    using autocorrelation_exact [of "replicate 160 0"] by (simp add: words_def map_replicate_const)
qed

end
