(* ===== verification/GsmShort.thy ===== *)
theory GsmShort
  imports GsmArith
begin

unbundle bit_operations_syntax

text \<open>
  The short term filters of GSM 06.10 (\<open>src/work/text/gsm/src/short_term.c\<close>, without \<open>USE_FLOAT_MUL\<close>): the decoding and the
  interpolation of the coefficients, the lattice filter of the coder and its inverse in the decoder.  An array is the
  list of its elements.
\<close>

section \<open>The coefficients\<close>

definition decode_lar :: "int \<times> int \<times> int \<Rightarrow> int \<Rightarrow> int" where
  "decode_lar c lar = (case c of (B, MIC, INVA) \<Rightarrow>
     let temp1 = s16 (push_bit 10 (GSM_ADD lar MIC));
         temp1 = GSM_SUB temp1 (push_bit 1 B);
         temp1 = s16 (GSM_MULT_R INVA temp1)
     in GSM_ADD temp1 temp1)"

definition lar_steps :: "(int \<times> int \<times> int) list" where
  "lar_steps = [(0, - 32, 13107), (0, - 32, 13107), (2048, - 16, 13107), (- 2560, - 16, 13107),
     (94, - 8, 19223), (- 1792, - 8, 17476), (- 341, - 4, 31454), (- 1144, - 4, 29708)]"

definition Decoding_of_the_coded_Log_Area_Ratios :: "int list \<Rightarrow> int list" where
  "Decoding_of_the_coded_Log_Area_Ratios lars = map2 decode_lar lar_steps lars"

definition Coefficients_0_12 :: "int list \<Rightarrow> int list \<Rightarrow> int list" where
  "Coefficients_0_12 LARpp_j_1 LARpp_j =
     map2 (\<lambda>x y. let p = GSM_ADD (SASR x 2) (SASR y 2) in GSM_ADD p (SASR x 1)) LARpp_j_1 LARpp_j"

definition Coefficients_13_26 :: "int list \<Rightarrow> int list \<Rightarrow> int list" where
  "Coefficients_13_26 LARpp_j_1 LARpp_j = map2 (\<lambda>x y. GSM_ADD (SASR x 1) (SASR y 1)) LARpp_j_1 LARpp_j"

definition Coefficients_27_39 :: "int list \<Rightarrow> int list \<Rightarrow> int list" where
  "Coefficients_27_39 LARpp_j_1 LARpp_j =
     map2 (\<lambda>x y. let p = GSM_ADD (SASR x 2) (SASR y 2) in GSM_ADD p (SASR y 1)) LARpp_j_1 LARpp_j"

definition Coefficients_40_159 :: "int list \<Rightarrow> int list" where
  "Coefficients_40_159 LARpp_j = LARpp_j"

definition lar_to_rp :: "int \<Rightarrow> int" where
  "lar_to_rp p =
     (if p < 0 then
        let temp = (if p = MIN_WORD then MAX_WORD else - p)
        in s16 (- (if temp < 11059 then push_bit 1 temp
                   else if temp < 20070 then temp + 11059 else GSM_ADD (drop_bit 2 temp) 26112))
      else
        let temp = p
        in s16 (if temp < 11059 then push_bit 1 temp
                else if temp < 20070 then temp + 11059 else GSM_ADD (drop_bit 2 temp) 26112))"

definition LARp_to_rp :: "int list \<Rightarrow> int list" where
  "LARp_to_rp p = map lar_to_rp p"

section \<open>The filters\<close>

text \<open>The loop over \<open>u\<close> and \<open>rp\<close> for one sample: the new \<open>di\<close>, the last \<open>sav\<close> and the new \<open>u\<close>.\<close>

fun lattice :: "int list \<Rightarrow> int list \<Rightarrow> int \<Rightarrow> int \<Rightarrow> int \<times> int \<times> int list" where
  "lattice (rpi # rp) (ui # u) di sav =
     (let u0 = sav;
          zzz = s16 (GSM_MULT_R rpi di);
          sav = GSM_ADD ui zzz;
          zzz = s16 (GSM_MULT_R rpi ui);
          di = GSM_ADD di zzz;
          (di, sav, us) = lattice rp u di sav
      in (di, sav, u0 # us))"
| "lattice _ _ di sav = (di, sav, [])"

fun analysis_loop :: "int list \<Rightarrow> int list \<Rightarrow> int list \<Rightarrow> int list \<times> int list" where
  "analysis_loop rp [] u = ([], u)"
| "analysis_loop rp (s # ss) u =
     (let (di, sav, u) = lattice rp u s s; (ds, u) = analysis_loop rp ss u in (di # ds, u))"

definition Short_term_analysis_filtering :: "gsm_state \<Rightarrow> int list \<Rightarrow> int list \<Rightarrow> int list \<times> gsm_state" where
  "Short_term_analysis_filtering S rp s = (let (d, u) = analysis_loop rp s (gs_u S) in (d, S\<lparr>gs_u := u\<rparr>))"

text \<open>The product inlined in the synthesis filter.\<close>

definition synth_mult :: "int \<Rightarrow> int \<Rightarrow> int" where
  "synth_mult a b =
     s16 (if a = MIN_WORD \<and> b = MIN_WORD then MAX_WORD else 0xFFFF AND drop_bit 15 (a * b + 16384))"

text \<open>The loop over \<open>i\<close>, from the last coefficient down to the first.\<close>

primrec synth_loop :: "nat \<Rightarrow> int list \<Rightarrow> int list \<Rightarrow> int \<Rightarrow> int \<times> int list" where
  "synth_loop 0 rrp v sri = (sri, v)"
| "synth_loop (Suc i) rrp v sri =
     (let tmp1 = rrp ! i;
          tmp2 = v ! i;
          tmp2 = synth_mult tmp1 tmp2;
          sri = GSM_SUB sri tmp2;
          tmp1 = synth_mult tmp1 sri
      in synth_loop i rrp (v[Suc i := GSM_ADD (v ! i) tmp1]) sri)"

fun synthesis_loop :: "int list \<Rightarrow> int list \<Rightarrow> int list \<Rightarrow> int list \<times> int list" where
  "synthesis_loop rrp [] v = ([], v)"
| "synthesis_loop rrp (w # wt) v =
     (let (sri, v) = synth_loop 8 rrp v w; (sr, v) = synthesis_loop rrp wt (v[0 := sri]) in (sri # sr, v))"

definition Short_term_synthesis_filtering :: "gsm_state \<Rightarrow> int list \<Rightarrow> int list \<Rightarrow> int list \<times> gsm_state" where
  "Short_term_synthesis_filtering S rrp wt = (let (sr, v) = synthesis_loop rrp wt (gs_v S) in (sr, S\<lparr>gs_v := v\<rparr>))"

definition Gsm_Short_Term_Analysis_Filter :: "gsm_state \<Rightarrow> int list \<Rightarrow> int list \<Rightarrow> int list \<times> gsm_state" where
  "Gsm_Short_Term_Analysis_Filter S lars s =
     (let j = gs_j S;
          S = S\<lparr>gs_j := j XOR 1\<rparr>;
          LARpp_j = Decoding_of_the_coded_Log_Area_Ratios lars;
          S = S\<lparr>LARpp := (LARpp S)[j := LARpp_j]\<rparr>;
          LARpp_j_1 = LARpp S ! (j XOR 1);
          LARp = LARp_to_rp (Coefficients_0_12 LARpp_j_1 LARpp_j);
          (d0, S) = Short_term_analysis_filtering S LARp (take 13 s);
          LARp = LARp_to_rp (Coefficients_13_26 LARpp_j_1 LARpp_j);
          (d1, S) = Short_term_analysis_filtering S LARp (take 14 (drop 13 s));
          LARp = LARp_to_rp (Coefficients_27_39 LARpp_j_1 LARpp_j);
          (d2, S) = Short_term_analysis_filtering S LARp (take 13 (drop 27 s));
          LARp = LARp_to_rp (Coefficients_40_159 LARpp_j);
          (d3, S) = Short_term_analysis_filtering S LARp (take 120 (drop 40 s))
      in (d0 @ d1 @ d2 @ d3, S))"

definition Gsm_Short_Term_Synthesis_Filter :: "gsm_state \<Rightarrow> int list \<Rightarrow> int list \<Rightarrow> int list \<times> gsm_state" where
  "Gsm_Short_Term_Synthesis_Filter S lars wt =
     (let j = gs_j S;
          S = S\<lparr>gs_j := j XOR 1\<rparr>;
          LARpp_j = Decoding_of_the_coded_Log_Area_Ratios lars;
          S = S\<lparr>LARpp := (LARpp S)[j := LARpp_j]\<rparr>;
          LARpp_j_1 = LARpp S ! (j XOR 1);
          LARp = LARp_to_rp (Coefficients_0_12 LARpp_j_1 LARpp_j);
          (s0, S) = Short_term_synthesis_filtering S LARp (take 13 wt);
          LARp = LARp_to_rp (Coefficients_13_26 LARpp_j_1 LARpp_j);
          (s1, S) = Short_term_synthesis_filtering S LARp (take 14 (drop 13 wt));
          LARp = LARp_to_rp (Coefficients_27_39 LARpp_j_1 LARpp_j);
          (s2, S) = Short_term_synthesis_filtering S LARp (take 13 (drop 27 wt));
          LARp = LARp_to_rp (Coefficients_40_159 LARpp_j);
          (s3, S) = Short_term_synthesis_filtering S LARp (take 120 (drop 40 wt))
      in (s0 @ s1 @ s2 @ s3, S))"

section \<open>Ranges of the coefficients\<close>

lemma lar_branches:
  assumes "0 \<le> t" and "t \<le> 32767"
  shows "0 \<le> (if t < 11059 then push_bit 1 t else if t < 20070 then t + 11059 else GSM_ADD (drop_bit 2 t) 26112) \<and>
    (if t < 11059 then push_bit 1 t else if t < 20070 then t + 11059 else GSM_ADD (drop_bit 2 t) 26112) \<le> 32767"
proof -
  have d: "0 \<le> drop_bit 2 t" "drop_bit 2 t \<le> 32767"
    using assms by (auto simp: drop_bit_eq_div)
  then have "GSM_ADD (drop_bit 2 t) 26112 = clamp (- 32768) 32767 (drop_bit 2 t + 26112)"
    by (intro GSM_ADD_clamp conjI) linarith+
  then have "0 \<le> GSM_ADD (drop_bit 2 t) 26112" "GSM_ADD (drop_bit 2 t) 26112 \<le> 32767"
    using d(1) by (simp_all add: clamp_def del: drop_bit_nonnegative_int_iff)
  moreover have "push_bit 1 t = 2 * t" by (simp add: push_bit_eq_mult)
  ultimately show ?thesis using assms by auto
qed

lemma s16_small: "0 \<le> x \<and> x \<le> 32767 \<Longrightarrow> \<bar>s16 x\<bar> \<le> 32767 \<and> \<bar>s16 (- x)\<bar> \<le> 32767"
  by simp

lemma lar_to_rp_bound:
  assumes "is_word p"
  shows "\<bar>lar_to_rp p\<bar> \<le> 32767"
proof (cases "p < 0")
  case True
  define t where "t = (if p = MIN_WORD then MAX_WORD else - p)"
  have t: "0 \<le> t" "t \<le> 32767" using assms True by (auto simp: t_def word_limits)
  show ?thesis
    unfolding lar_to_rp_def Let_def if_P [OF True] t_def [symmetric] 
    by (rule conjunct2 [OF s16_small [OF lar_branches [OF t]]])
next
  case False
  then have t: "0 \<le> p" "p \<le> 32767" using assms by auto
  show ?thesis unfolding lar_to_rp_def Let_def if_not_P [OF False] 
    by (rule conjunct1 [OF s16_small [OF lar_branches [OF t]]])
qed

section \<open>The synthesis lattice undoes the analysis lattice\<close>

lemma lattice_snoc:
  "length u = length rp \<Longrightarrow> lattice (rp @ [r]) (u @ [x]) d s =
     (let (d1, s1, us) = lattice rp u d s
      in (GSM_ADD d1 (s16 (GSM_MULT_R r x)), GSM_ADD x (s16 (GSM_MULT_R r d1)), us @ [s1]))"
proof (induction rp arbitrary: u d s)
  case Nil
  then show ?case by (simp add: Let_def)
next
  case (Cons q rp)
  then obtain y u' where "u = y # u'" by (cases u) auto
  with Cons show ?case by (simp add: Let_def split: prod.splits)
qed

lemma lattice_lengths: "length u = length rp \<Longrightarrow> length (snd (snd (lattice rp u d s))) = length rp"
proof (induction rp arbitrary: u d s)
  case (Cons q rp)
  then show ?case by (cases u) (simp_all add: Let_def case_prod_beta)
qed simp

lemma length_lattice: "length u = length rp \<Longrightarrow> lattice rp u d s = (D, sv, us) \<Longrightarrow> length us = length rp"
  using lattice_lengths [of u rp d s] by simp

lemma lattice_first:
  assumes "length u = length rp" and "rp \<noteq> []"
  shows "snd (snd (lattice rp u d s)) ! 0 = s"
  using assms by (cases rp; cases u) (simp_all add: Let_def case_prod_beta)

lemma synth_loop_append: "n \<le> length rp \<Longrightarrow> synth_loop n (rp @ ys) v d = synth_loop n rp v d"
  by (induction n arbitrary: v d) (simp_all add: nth_append Let_def)

lemma synth_mult: "\<bar>r\<bar> \<le> 32767 \<Longrightarrow> synth_mult r x = s16 (GSM_MULT_R r x)"
proof -
  have "0xFFFF AND y = y mod 65536" for y :: int
    using take_bit_eq_mask [of 16 y] by (simp add: take_bit_eq_mod and.commute mask_eq_exp_minus_1)
  then have "s16 (0xFFFF AND y) = s16 y" for y by (simp add: s16_def mod_simps)
  then show "\<bar>r\<bar> \<le> 32767 \<Longrightarrow> ?thesis" by (auto simp: synth_mult_def GSM_MULT_R_def SASR_def word_limits)
qed

lemma lattice_inverse:
  assumes "length u = length rp" and "\<forall>r \<in> set rp. \<bar>r\<bar> \<le> 32767" and "\<forall>i < length rp. \<bar>u ! i\<bar> \<le> B * 2 ^ i"
    and "\<bar>d\<bar> \<le> B" and "\<bar>s\<bar> \<le> B" and "B * 2 ^ length rp \<le> 32767" and "lattice rp u d s = (D, sv, us)"
  shows "\<bar>D\<bar> \<le> B * 2 ^ length rp \<and> \<bar>sv\<bar> \<le> B * 2 ^ length rp \<and> (\<forall>i < length rp. \<bar>us ! i\<bar> \<le> B * 2 ^ i) \<and>
    (\<forall>v. length v > length rp \<longrightarrow> take (length rp) v = u \<longrightarrow>
       synth_loop (length rp) rp v D = (d, (us @ sv # drop (Suc (length rp)) v)[0 := v ! 0]))"
  using assms
proof (induction rp arbitrary: u D sv us rule: rev_induct)
  case Nil
  then show ?case by (auto simp: neq_Nil_conv Suc_le_eq)
next
  case (snoc r rp)
  let ?n = "length rp"
  obtain u1 x where u: "u = u1 @ [x]" "length u1 = ?n" using snoc.prems(1) by (cases u rule: rev_exhaust) auto
  obtain D1 s1 us1 where l: "lattice rp u1 d s = (D1, s1, us1)" by (cases "lattice rp u1 d s") auto
  have "0 \<le> B" using snoc.prems(4) by linarith
  then have half: "B * 2 ^ ?n \<le> 16383" using snoc.prems(6) by simp
  have small: "\<forall>i < ?n. \<bar>u1 ! i\<bar> \<le> B * 2 ^ i"
  proof (intro allI impI)
    fix i assume "i < ?n"
    then show "\<bar>u1 ! i\<bar> \<le> B * 2 ^ i" using snoc.prems(3) u by (auto simp: nth_append dest: spec [of _ i])
  qed
  have x: "\<bar>x\<bar> \<le> B * 2 ^ ?n" using snoc.prems(3) u by (auto simp: nth_append dest: spec [of _ ?n])
  have r: "\<bar>r\<bar> \<le> 32767" using snoc.prems(2) by simp
  have len: "length us1 = ?n" by (rule length_lattice [OF u(2) l])
  have IH: "\<bar>D1\<bar> \<le> B * 2 ^ ?n" "\<bar>s1\<bar> \<le> B * 2 ^ ?n" "\<forall>i < ?n. \<bar>us1 ! i\<bar> \<le> B * 2 ^ i"
    "\<And>v. length v > ?n \<Longrightarrow> take ?n v = u1 \<Longrightarrow> synth_loop ?n rp v D1 = (d, (us1 @ s1 # drop (Suc ?n) v)[0 := v ! 0])"
    using snoc.IH [OF u(2) _ small snoc.prems(4,5) _ l] snoc.prems(2) half by simp_all
  have m: "\<bar>GSM_MULT_R r x\<bar> \<le> B * 2 ^ ?n" "\<bar>GSM_MULT_R r D1\<bar> \<le> B * 2 ^ ?n"
    using GSM_MULT_R_bound [OF r] x IH(1) by auto
  have sm: "\<bar>D1\<bar> \<le> 16383" "\<bar>x\<bar> \<le> 16383" "\<bar>GSM_MULT_R r x\<bar> \<le> 16383" "\<bar>GSM_MULT_R r D1\<bar> \<le> 16383"
    using m x IH(1) half by linarith+
  have res: "D = D1 + GSM_MULT_R r x" "sv = x + GSM_MULT_R r D1" "us = us1 @ [s1]"
    using snoc.prems(7) u(2) l by (auto simp: u(1) lattice_snoc unsaturated(1) unsaturated(3) [OF _ sm(1)] sm)
  have "synth_loop (Suc ?n) (rp @ [r]) v D = (d, (us @ sv # drop (Suc (Suc ?n)) v)[0 := v ! 0])"
    if v: "length v > Suc ?n" "take (Suc ?n) v = u" for v
  proof -
    have "v ! ?n = x" "take ?n v = u1"
      using v u(1) take_Suc_conv_app_nth [of ?n v] by simp_all
    moreover have "GSM_SUB D (synth_mult r x) = D1"
      by (simp add: res synth_mult r unsaturated(2) unsaturated(3) [OF _ sm(1)] sm)
    moreover have "GSM_ADD x (synth_mult r D1) = sv"
      by (simp add: res synth_mult r unsaturated(1) unsaturated(3) [OF _ sm(1)] sm)
    ultimately have "synth_loop (Suc ?n) (rp @ [r]) v D = synth_loop ?n rp (v[Suc ?n := sv]) D1"
      by (simp add: synth_loop_append)
    also have "\<dots> = (d, (us1 @ s1 # drop (Suc ?n) (v[Suc ?n := sv]))[0 := v ! 0])"
      using IH(4) [of "v[Suc ?n := sv]"] v(1) \<open>take ?n v = u1\<close> by simp
    also have "drop (Suc ?n) (v[Suc ?n := sv]) = sv # drop (Suc (Suc ?n)) v"
      using v(1) by (subst Cons_nth_drop_Suc [symmetric]) simp_all
    finally show ?thesis by (simp add: res)
  qed
  moreover have "\<bar>us ! i\<bar> \<le> B * 2 ^ i" if "i < Suc ?n" for i
    using that IH(2,3) len by (auto simp: res nth_append less_Suc_eq)
  ultimately show ?case using m x IH(1) by (simp add: res) linarith
qed

definition eight_words :: "int list \<Rightarrow> bool" where
  "eight_words xs \<longleftrightarrow> length xs = 8 \<and> (\<forall>x \<in> set xs. is_word x)"

lemma eight_map2:
  assumes "eight_words xs" and "eight_words ys" and f: "\<And>x y. is_word x \<Longrightarrow> is_word y \<Longrightarrow> is_word (f x y)"
  shows "eight_words (map2 f xs ys)"
  unfolding eight_words_def
proof (intro conjI ballI)
  show "length (map2 f xs ys) = 8" using assms(1,2) by (simp add: eight_words_def)
  fix z assume "z \<in> set (map2 f xs ys)"
  then obtain x y where "z = f x y" "x \<in> set xs" "y \<in> set ys" by (auto dest: set_zip_leftD set_zip_rightD)
  then show "- 32768 \<le> z" "z \<le> 32767" using f [of x y] assms(1,2) by (auto simp: eight_words_def)
qed

lemma Coefficients_words:
  assumes "eight_words p" and "eight_words q"
  shows "eight_words (Coefficients_0_12 p q)" and "eight_words (Coefficients_13_26 p q)"
    and "eight_words (Coefficients_27_39 p q)" and "eight_words (Coefficients_40_159 q)"
  unfolding Coefficients_0_12_def Coefficients_13_26_def Coefficients_27_39_def Coefficients_40_159_def Let_def
  by (rule eight_map2 [OF assms], (intro GSM_ADD_word SASR_word; assumption))+ (rule assms(2))

lemma decode_lar_word: "is_word (decode_lar c x)"
  unfolding decode_lar_def Let_def by (cases c) (simp only: prod.case GSM_ADD_word [OF s16_range s16_range])

lemma Decoding_words: "length lars = 8 \<Longrightarrow> eight_words (Decoding_of_the_coded_Log_Area_Ratios lars)"
  using decode_lar_word
  by (fastforce simp: eight_words_def Decoding_of_the_coded_Log_Area_Ratios_def lar_steps_def)

definition is_rp :: "int list \<Rightarrow> bool" where
  "is_rp rp \<longleftrightarrow> length rp = 8 \<and> (\<forall>r \<in> set rp. \<bar>r\<bar> \<le> 32767)"

lemma LARp_to_rp_rp: "eight_words p \<Longrightarrow> is_rp (LARp_to_rp p)"
  using lar_to_rp_bound by (auto simp: eight_words_def is_rp_def LARp_to_rp_def)

section \<open>The filters on a frame\<close>

text \<open>The state of a lattice for samples of amplitude at most 127, and that of its inverse.\<close>

definition quiet_lattice :: "int list \<Rightarrow> int list \<Rightarrow> bool" where
  "quiet_lattice u v \<longleftrightarrow> length u = 8 \<and> (\<forall>i < 8. \<bar>u ! i\<bar> \<le> 127 * 2 ^ i) \<and> length v = 9 \<and> take 8 v = u"

lemma loops_inverse:
  assumes "is_rp rp" and "quiet_lattice u v" and "\<forall>s \<in> set ss. \<bar>s\<bar> \<le> 127" and "analysis_loop rp ss u = (ds, u')"
  shows "\<exists>v'. synthesis_loop rp ds v = (ss, v') \<and> quiet_lattice u' v' \<and> length ds = length ss"
  using assms(2-)
proof (induction ss arbitrary: u v ds)
  case Nil
  then show ?case by auto
next
  case (Cons s ss)
  obtain D sv us where l: "lattice rp u s s = (D, sv, us)" by (cases "lattice rp u s s") auto
  obtain ds' where r: "analysis_loop rp ss us = (ds', u')" "ds = D # ds'"
    using Cons.prems(3) l by (auto simp: Let_def split: prod.splits)
  have rp: "length rp = 8" "\<forall>r \<in> set rp. \<bar>r\<bar> \<le> 32767" using assms(1) by (auto simp: is_rp_def)
  have u: "length u = length rp" "\<forall>i < length rp. \<bar>u ! i\<bar> \<le> 127 * 2 ^ i" "length v > length rp" "take (length rp) v = u"
    using Cons.prems(1) rp(1) by (auto simp: quiet_lattice_def)
  have "\<bar>s\<bar> \<le> 127" using Cons.prems(2) by simp
  note inv = lattice_inverse [OF u(1) rp(2) u(2) this this _ l]
  have "synth_loop 8 rp v D = (s, (us @ sv # drop 9 v)[0 := v ! 0])" and us: "\<forall>i < 8. \<bar>us ! i\<bar> \<le> 127 * 2 ^ i"
    using inv u(3,4) rp(1) by auto
  moreover have len: "length us = 8" using length_lattice [OF u(1) l] rp(1) by simp
  moreover have "us ! 0 = s" using lattice_first [OF u(1), of s s] rp(1) l by fastforce
  moreover have "(us @ [sv])[0 := us ! 0] = us @ [sv]" using len by (simp add: list_update_append)
  ultimately have step: "synth_loop 8 rp v D = (s, (us @ [sv])[0 := v ! 0])" "(us @ [sv])[0 := s] = us @ [sv]"
    using Cons.prems(1) by (simp_all add: quiet_lattice_def)
  have "quiet_lattice us (us @ [sv])" using us len by (simp add: quiet_lattice_def)
  from Cons.IH [OF this _ r(1)] obtain v' where
    "synthesis_loop rp ds' (us @ [sv]) = (ss, v')" "quiet_lattice u' v'" "length ds' = length ss"
    using Cons.prems(2) by auto
  then show ?case using step by (simp add: r Let_def)
qed

text \<open>The states of a coder and of a decoder whose filters are inverse to each other.\<close>

definition lattice_pair :: "gsm_state \<Rightarrow> gsm_state \<Rightarrow> bool" where
  "lattice_pair S T \<longleftrightarrow> gs_j S < 2 \<and> gs_j T = gs_j S \<and> LARpp T = LARpp S \<and> length (LARpp S) = 2 \<and>
     (\<forall>p \<in> set (LARpp S). eight_words p) \<and> quiet_lattice (gs_u S) (gs_v T)"

lemma stage_inverse:
  assumes "is_rp rp" and "quiet_lattice (gs_u S) (gs_v T)" and "\<forall>s \<in> set ss. \<bar>s\<bar> \<le> 127"
  obtains d u v where "Short_term_analysis_filtering S rp ss = (d, S\<lparr>gs_u := u\<rparr>)"
    and "Short_term_synthesis_filtering T rp d = (ss, T\<lparr>gs_v := v\<rparr>)" and "quiet_lattice u v" and "length d = length ss"
proof -
  obtain d u where a: "analysis_loop rp ss (gs_u S) = (d, u)" by (cases "analysis_loop rp ss (gs_u S)") auto
  from loops_inverse [OF assms a] obtain v where
    "synthesis_loop rp d (gs_v T) = (ss, v)" "quiet_lattice u v" "length d = length ss" by blast
  with a that show ?thesis
    by (simp add: Short_term_analysis_filtering_def Short_term_synthesis_filtering_def)
qed

text \<open>
  C25: The synthesis filter is the exact inverse of the analysis filter, in spite of the rounding of every product: for
  samples of amplitude at most 127 and any coded coefficients, filtering a frame in the coder and the result in the
  decoder gives back the frame, and the states stay in step for the next frame.
\<close>

theorem filters_invert:
  assumes "lattice_pair S T" and "length lars = 8" and "length s = 160" and "\<forall>x \<in> set s. \<bar>x\<bar> \<le> 127"
    and "Gsm_Short_Term_Analysis_Filter S lars s = (d, S')"
  shows "\<exists>T'. Gsm_Short_Term_Synthesis_Filter T lars d = (s, T') \<and> lattice_pair S' T'"
proof -
  define q where "q = Decoding_of_the_coded_Log_Area_Ratios lars"
  define L where "L = (LARpp S)[gs_j S := q]"
  define p where "p = L ! (gs_j S XOR 1)"
  have q: "eight_words q" unfolding q_def by (rule Decoding_words [OF assms(2)])
  have j: "gs_j S = 0 \<or> gs_j S = 1" using assms(1) by (auto simp: lattice_pair_def)
  then have L: "length L = 2" "\<forall>p \<in> set L. eight_words p" "gs_j S XOR 1 < 2"
    using assms(1) q by (auto simp: lattice_pair_def L_def dest!: set_update_subset_insert [THEN subsetD])
  then have p: "eight_words p" unfolding p_def by (intro bspec [OF L(2)]) simp
  have r: "is_rp (LARp_to_rp (Coefficients_0_12 p q))" "is_rp (LARp_to_rp (Coefficients_13_26 p q))"
    "is_rp (LARp_to_rp (Coefficients_27_39 p q))" "is_rp (LARp_to_rp (Coefficients_40_159 q))"
    by (fact Coefficients_words [OF p q, THEN LARp_to_rp_rp])+
  define S0 where "S0 = S\<lparr>gs_j := gs_j S XOR 1, LARpp := L\<rparr>"
  define T0 where "T0 = T\<lparr>gs_j := gs_j S XOR 1, LARpp := L\<rparr>"
  have lat: "quiet_lattice (gs_u S0) (gs_v T0)" using assms(1) by (simp add: lattice_pair_def S0_def T0_def)
  have part: "\<forall>x \<in> set (take m (drop n s)). \<bar>x\<bar> \<le> 127" for m n
    using assms(4) by (meson in_set_dropD in_set_takeD)
  obtain d0 u0 v0 where 0: "Short_term_analysis_filtering S0 (LARp_to_rp (Coefficients_0_12 p q)) (take 13 s) = (d0, S0\<lparr>gs_u := u0\<rparr>)"
    "Short_term_synthesis_filtering T0 (LARp_to_rp (Coefficients_0_12 p q)) d0 = (take 13 s, T0\<lparr>gs_v := v0\<rparr>)"
    "quiet_lattice u0 v0" "length d0 = length (take 13 s)"
    by (rule stage_inverse [OF r(1) lat, of "take 13 s"]) (use part [of 13 0] in auto)
  obtain d1 u1 v1 where 1: "Short_term_analysis_filtering (S0\<lparr>gs_u := u0\<rparr>) (LARp_to_rp (Coefficients_13_26 p q)) (take 14 (drop 13 s)) = (d1, S0\<lparr>gs_u := u1\<rparr>)"
    "Short_term_synthesis_filtering (T0\<lparr>gs_v := v0\<rparr>) (LARp_to_rp (Coefficients_13_26 p q)) d1 = (take 14 (drop 13 s), T0\<lparr>gs_v := v1\<rparr>)"
    "quiet_lattice u1 v1" "length d1 = length (take 14 (drop 13 s))"
    by (rule stage_inverse [OF r(2) _ part, of "S0\<lparr>gs_u := u0\<rparr>" "T0\<lparr>gs_v := v0\<rparr>" 14 13]) (use 0(3) in auto)
  obtain d2 u2 v2 where 2: "Short_term_analysis_filtering (S0\<lparr>gs_u := u1\<rparr>) (LARp_to_rp (Coefficients_27_39 p q)) (take 13 (drop 27 s)) = (d2, S0\<lparr>gs_u := u2\<rparr>)"
    "Short_term_synthesis_filtering (T0\<lparr>gs_v := v1\<rparr>) (LARp_to_rp (Coefficients_27_39 p q)) d2 = (take 13 (drop 27 s), T0\<lparr>gs_v := v2\<rparr>)"
    "quiet_lattice u2 v2" "length d2 = length (take 13 (drop 27 s))"
    by (rule stage_inverse [OF r(3) _ part, of "S0\<lparr>gs_u := u1\<rparr>" "T0\<lparr>gs_v := v1\<rparr>" 13 27]) (use 1(3) in auto)
  obtain d3 u3 v3 where 3: "Short_term_analysis_filtering (S0\<lparr>gs_u := u2\<rparr>) (LARp_to_rp (Coefficients_40_159 q)) (take 120 (drop 40 s)) = (d3, S0\<lparr>gs_u := u3\<rparr>)"
    "Short_term_synthesis_filtering (T0\<lparr>gs_v := v2\<rparr>) (LARp_to_rp (Coefficients_40_159 q)) d3 = (take 120 (drop 40 s), T0\<lparr>gs_v := v3\<rparr>)"
    "quiet_lattice u3 v3" "length d3 = length (take 120 (drop 40 s))"
    by (rule stage_inverse [OF r(4) _ part, of "S0\<lparr>gs_u := u2\<rparr>" "T0\<lparr>gs_v := v2\<rparr>" 120 40]) (use 2(3) in auto)
  have len: "length d0 = 13" "length d1 = 14" "length d2 = 13" "length d3 = 120"
    using 0(4) 1(4) 2(4) 3(4) assms(3) by simp_all
  have "Gsm_Short_Term_Analysis_Filter S lars s = (d0 @ d1 @ d2 @ d3, S0\<lparr>gs_u := u3\<rparr>)"
    using 0(1) 1(1) 2(1) 3(1)
    by (simp add: Gsm_Short_Term_Analysis_Filter_def Let_def S0_def L_def p_def flip: q_def)
  then have d: "d = d0 @ d1 @ d2 @ d3" "S' = S0\<lparr>gs_u := u3\<rparr>" using assms(5) by simp_all
  have parts: "take 13 d = d0" "take 14 (drop 13 d) = d1" "take 13 (drop 27 d) = d2" "take 120 (drop 40 d) = d3"
    using len by (simp_all add: d)
  have s: "take 13 s @ take 14 (drop 13 s) @ take 13 (drop 27 s) @ take 120 (drop 40 s) = s"
  proof -
    have "take 13 s @ take 14 (drop 13 s) = take 27 s" using take_add [of 13 14 s] by simp
    moreover have "take 27 s @ take 13 (drop 27 s) = take 40 s" using take_add [of 27 13 s] by simp
    moreover have "take 120 (drop 40 s) = drop 40 s" using assms(3) by simp
    ultimately show ?thesis by (metis append_assoc append_take_drop_id)
  qed
  have "gs_j T = gs_j S" "LARpp T = LARpp S" using assms(1) by (simp_all add: lattice_pair_def)
  then have "Gsm_Short_Term_Synthesis_Filter T lars d = (s, T0\<lparr>gs_v := v3\<rparr>)"
    using 0(2) 1(2) 2(2) 3(2) s
    by (simp add: Gsm_Short_Term_Synthesis_Filter_def Let_def T0_def L_def p_def parts flip: q_def)
  moreover have "lattice_pair S' (T0\<lparr>gs_v := v3\<rparr>)"
    using L 3(3) by (simp add: lattice_pair_def d(2) S0_def T0_def)
  ultimately show ?thesis by blast
qed

definition example_samples :: "int list" where
  "example_samples = map (\<lambda>i. (37 * int i) mod 201 - 100) [0..<160]"

lemma lattice_pair_create: "lattice_pair gsm_create gsm_create"
proof -
  have "quiet_lattice (replicate 8 0) (replicate 9 0)" by (simp add: quiet_lattice_def)
  moreover have "eight_words (replicate 8 0)" by (simp add: eight_words_def)
  ultimately show ?thesis by (simp only: lattice_pair_def gsm_create_def gsm_state.simps) simp
qed

theorem filters_invert_witness:
  "\<exists>d S' T'. Gsm_Short_Term_Analysis_Filter gsm_create [40, 30, 20, 10, 9, 5, 4, 2] example_samples = (d, S') \<and>
     Gsm_Short_Term_Synthesis_Filter gsm_create [40, 30, 20, 10, 9, 5, 4, 2] d = (example_samples, T')"
proof -
  obtain d S' where "Gsm_Short_Term_Analysis_Filter gsm_create [40, 30, 20, 10, 9, 5, 4, 2] example_samples = (d, S')"
    by (cases "Gsm_Short_Term_Analysis_Filter gsm_create [40, 30, 20, 10, 9, 5, 4, 2] example_samples") auto
  moreover have "lattice_pair gsm_create gsm_create" by (rule lattice_pair_create)
  moreover have "\<bar>(37 * int i) mod 201 - 100\<bar> \<le> 127" for i
    using pos_mod_bound [of 201 "37 * int i"] pos_mod_sign [of 201 "37 * int i"] by linarith
  then have "length example_samples = 160" "\<forall>x \<in> set example_samples. \<bar>x\<bar> \<le> 127"
    by (auto simp: example_samples_def)
  ultimately show ?thesis
    using filters_invert [of gsm_create gsm_create "[40, 30, 20, 10, 9, 5, 4, 2]" example_samples d S'] by auto
qed

end
