(* ===== verification/GsmRpe.thy ===== *)
theory GsmRpe
  imports GsmArith
begin

unbundle bit_operations_syntax

text \<open>
  The coding of the residual signal in GSM 06.10 (\<open>src/work/text/gsm/src/rpe.c\<close>, tables of \<open>table.c\<close>): the weighting filter,
  the selection of one of four grids, the quantization of its 13 samples, and the inverse operations.
\<close>

section \<open>The weighting filter\<close>

definition gsm_H :: "int list" where "gsm_H = [- 134, - 374, 0, 2054, 5741, 8192, 5741, 2054, 0, - 374, - 134]"

text \<open>\<open>e\<close> is the array from its first element on, five before the signal.\<close>

definition weight :: "int list \<Rightarrow> nat \<Rightarrow> int" where
  "weight e k =
     (let STEP = (\<lambda>i H. e ! (k + i) * H);
          L_result = drop_bit 1 8192;
          L_result = s32 (L_result + (STEP 0 (- 134) + STEP 1 (- 374) + STEP 3 2054 + STEP 4 5741 + STEP 5 8192
            + STEP 6 5741 + STEP 7 2054 + STEP 9 (- 374) + STEP 10 (- 134)));
          L_result = SASR L_result 13
      in if L_result < MIN_WORD then MIN_WORD else if L_result > MAX_WORD then MAX_WORD else L_result)"

definition Weighting_filter :: "int list \<Rightarrow> int list" where
  "Weighting_filter e = map (weight e) [0..<40]"

section \<open>The grid\<close>

definition grid_step :: "int list \<Rightarrow> nat \<Rightarrow> nat \<Rightarrow> int \<Rightarrow> int" where
  "grid_step x m i L_result = (let L_temp = SASR (x ! (m + 3 * i)) 2 in s32 (L_result + s32 (L_temp * L_temp)))"

definition RPE_grid_selection :: "int list \<Rightarrow> int list \<times> int" where
  "RPE_grid_selection x =
     (let L_result = fold (grid_step x 0) [1..<13] 0;
          L_common_0_3 = L_result;
          L_result = grid_step x 0 0 L_result;
          L_result = s32 (push_bit 1 L_result);
          (EM, Mc) = (L_result, 0);
          L_result = fold (grid_step x 1) [0..<13] 0;
          L_result = s32 (push_bit 1 L_result);
          (EM, Mc) = (if L_result > EM then (L_result, 1) else (EM, Mc));
          L_result = fold (grid_step x 2) [0..<13] 0;
          L_result = s32 (push_bit 1 L_result);
          (EM, Mc) = (if L_result > EM then (L_result, 2) else (EM, Mc));
          L_result = L_common_0_3;
          L_result = grid_step x 3 12 L_result;
          L_result = s32 (push_bit 1 L_result);
          (EM, Mc) = (if L_result > EM then (L_result, 3) else (EM, Mc))
      in (map (\<lambda>i. x ! (nat Mc + 3 * i)) [0..<13], Mc))"

text \<open>The loop in the comment of the code, with its saturating arithmetic.\<close>

definition grid_energy :: "int list \<Rightarrow> nat \<Rightarrow> int" where
  "grid_energy x m = fold (\<lambda>i L_result.
     let temp1 = SASR (x ! (m + 3 * i)) 2; L_temp = gsm_L_mult temp1 temp1 in gsm_L_add L_temp L_result) [0..<13] 0"

definition grid_reference :: "int list \<Rightarrow> int \<times> int" where
  "grid_reference x =
     fold (\<lambda>m (EM, Mc). let L_result = grid_energy x m in if L_result > EM then (L_result, int m) else (EM, Mc)) [0..<4] (0, 0)"

section \<open>Quantization\<close>

text \<open>The loop that normalizes the mantissa; it does not end for every input.\<close>

partial_function (option) mant_loop :: "int \<Rightarrow> int \<Rightarrow> (int \<times> int) option" where
  "mant_loop exp mant =
     (if mant \<le> 7 then mant_loop (s16 (exp - 1)) (s16 (push_bit 1 mant OR 1)) else Some (exp, mant))"

definition APCM_quantization_xmaxc_to_exp_mant :: "int \<Rightarrow> (int \<times> int) option" where
  "APCM_quantization_xmaxc_to_exp_mant xmaxc =
     (let exp = 0;
          exp = (if xmaxc > 15 then SASR xmaxc 3 - 1 else exp);
          mant = s16 (xmaxc - push_bit 3 exp)
      in if mant = 0 then Some (- 4, 7)
         else case mant_loop exp mant of None \<Rightarrow> None | Some (exp, mant) \<Rightarrow> Some (exp, mant - 8))"

definition gsm_NRFAC :: "int list" where
  "gsm_NRFAC = [29128, 26215, 23832, 21846, 20165, 18725, 17476, 16384]"

definition gsm_FAC :: "int list" where
  "gsm_FAC = [18431, 20479, 22527, 24575, 26623, 28671, 30719, 32767]"

definition apcm_max :: "int list \<Rightarrow> int" where
  "apcm_max xM = fold (\<lambda>x xmax. let temp = GSM_ABS x in if temp > xmax then temp else xmax) xM 0"

text \<open>The loop over \<open>i\<close>; the state is \<open>itest\<close>, \<open>temp\<close> and \<open>exp\<close>.\<close>

primrec exp_loop :: "nat \<Rightarrow> bool \<Rightarrow> int \<Rightarrow> int \<Rightarrow> int" where
  "exp_loop 0 itest temp exp = exp"
| "exp_loop (Suc n) itest temp exp =
     (let itest = (itest \<or> temp \<le> 0); temp = SASR temp 1; exp = (if \<not> itest then exp + 1 else exp)
      in exp_loop n itest temp exp)"

definition xmax_to_xmaxc :: "int \<Rightarrow> int" where
  "xmax_to_xmaxc xmax =
     (let temp = SASR xmax 9; exp = exp_loop 6 False temp 0; temp = exp + 5
      in gsm_add (SASR xmax (nat temp)) (push_bit 3 exp))"

definition quantize_sample :: "int \<Rightarrow> int \<Rightarrow> int \<Rightarrow> int" where
  "quantize_sample temp1 temp2 x =
     (let temp = s16 (push_bit (nat temp1) x);
          temp = s16 (GSM_MULT temp temp2);
          temp = SASR temp 12
      in temp + 4)"

definition APCM_quantization :: "int list \<Rightarrow> (int list \<times> int \<times> int \<times> int) option" where
  "APCM_quantization xM =
     (let xmax = apcm_max xM;
          xmaxc = xmax_to_xmaxc xmax
      in case APCM_quantization_xmaxc_to_exp_mant xmaxc of
           None \<Rightarrow> None
         | Some (exp, mant) \<Rightarrow>
             let temp1 = 6 - exp;
                 temp2 = gsm_NRFAC ! nat mant;
                 xMc = map (quantize_sample temp1 temp2) xM
             in Some (xMc, mant, exp, xmaxc))"

definition APCM_inverse_quantization :: "int list \<Rightarrow> int \<Rightarrow> int \<Rightarrow> int list" where
  "APCM_inverse_quantization xMc mant exp =
     (let temp1 = gsm_FAC ! nat mant;
          temp2 = gsm_sub 6 exp;
          temp3 = gsm_asl 1 (gsm_sub temp2 1)
      in map (\<lambda>x. let temp = s16 (push_bit 1 x - 7);
                      temp = s16 (push_bit 12 temp);
                      temp = s16 (GSM_MULT_R temp1 temp);
                      temp = GSM_ADD temp temp3
                  in gsm_asr temp temp2) xMc)"

text \<open>
  The switch jumps into the loop: \<open>head\<close> is what is written before the first sample, the loop writes two zeros between two
  samples, and the last loop fills up to 40.  Without a case for \<open>Mc\<close> only the last loop writes.
\<close>

fun grid_body :: "int list \<Rightarrow> int list" where
  "grid_body [] = []"
| "grid_body [x] = [x]"
| "grid_body (x # xs) = x # 0 # 0 # grid_body xs"

definition RPE_grid_positioning :: "int \<Rightarrow> int list \<Rightarrow> int list" where
  "RPE_grid_positioning Mc xMp =
     (let head = (if Mc = 3 then [0, 0, 0] else if Mc = 2 then [0, 0] else if Mc = 1 then [0] else []);
          body = (if 0 \<le> Mc \<and> Mc \<le> 3 then grid_body xMp else []);
          fill = replicate (nat (3 - Mc)) 0
      in head @ body @ fill)"

text \<open>The loops in the comment of the code.\<close>

definition grid_positions :: "int \<Rightarrow> int list \<Rightarrow> int list" where
  "grid_positions Mc xMp = fold (\<lambda>i ep. ep[nat Mc + 3 * i := xMp ! i]) [0..<13] (replicate 40 0)"

definition Gsm_RPE_Encoding :: "int list \<Rightarrow> (int list \<times> int \<times> int \<times> int list) option" where
  "Gsm_RPE_Encoding e =
     (let x = Weighting_filter e;
          (xM, Mc) = RPE_grid_selection x
      in case APCM_quantization xM of
           None \<Rightarrow> None
         | Some (xMc, mant, exp, xmaxc) \<Rightarrow>
             let xMp = APCM_inverse_quantization xMc mant exp;
                 ep = RPE_grid_positioning Mc xMp
             in Some (take 5 e @ ep @ drop 45 e, xmaxc, Mc, xMc))"

definition Gsm_RPE_Decoding :: "int \<Rightarrow> int \<Rightarrow> int list \<Rightarrow> int list option" where
  "Gsm_RPE_Decoding xmaxcr Mcr xMcr =
     (case APCM_quantization_xmaxc_to_exp_mant xmaxcr of
        None \<Rightarrow> None
      | Some (exp, mant) \<Rightarrow> Some (RPE_grid_positioning Mcr (APCM_inverse_quantization xMcr mant exp)))"

section \<open>Lemmas\<close>

lemma mant_loop_end [simp]: "7 < mant \<Longrightarrow> mant_loop exp mant = Some (exp, mant)"
  by (simp add: mant_loop.simps)

lemma mant_loop_step: "mant \<le> 7 \<Longrightarrow> mant_loop exp mant = mant_loop (s16 (exp - 1)) (s16 (push_bit 1 mant OR 1))"
  by (subst mant_loop.simps) simp

text \<open>The first value that is too large for the code \<open>xmaxc\<close>.\<close>

definition above_code :: "int \<Rightarrow> int" where
  "above_code c = (if c < 16 then (c + 1) * 32 else (c mod 8 + 9) * 2 ^ nat (c div 8 + 4))"

lemma exp_mant_small:
  assumes "0 \<le> c" and "c \<le> 15"
  shows "\<exists>exp mant. APCM_quantization_xmaxc_to_exp_mant c = Some (exp, mant) \<and> - 4 \<le> exp \<and> exp \<le> 6 \<and>
    0 \<le> mant \<and> mant \<le> 7 \<and> above_code c \<le> (mant + 9) * 2 ^ nat (exp + 5)"
proof -
  have "c \<in> {0, 1, 2, 3, 4, 5, 6, 7, 8, 9, 10, 11, 12, 13, 14, 15}" using assms unfolding insert_iff empty_iff by presburger
  then show ?thesis
    by (elim insertE emptyE; simp add: APCM_quantization_xmaxc_to_exp_mant_def above_code_def mant_loop_step)
qed

lemma exp_mant_large:
  assumes "15 < c" and "c \<le> 63"
  shows "APCM_quantization_xmaxc_to_exp_mant c = Some (c div 8 - 1, c mod 8)"
proof -
  have m: "c - push_bit 3 (SASR c 3 - 1) = c mod 8 + 8"
    using minus_div_mult_eq_mod [of c 8] by (simp add: gsm_arith push_bit_eq_mult)
  moreover have "0 \<le> c mod 8" "c mod 8 < 8" by simp_all
  ultimately have "s16 (c - push_bit 3 (SASR c 3 - 1)) = c mod 8 + 8" by simp
  then show ?thesis using assms(1) \<open>0 \<le> c mod 8\<close>
    by (simp add: APCM_quantization_xmaxc_to_exp_mant_def Let_def) (simp add: gsm_arith)
qed

lemma exp_mant:
  assumes "0 \<le> c" and "c \<le> 63"
  shows "\<exists>exp mant. APCM_quantization_xmaxc_to_exp_mant c = Some (exp, mant) \<and> - 4 \<le> exp \<and> exp \<le> 6 \<and>
    0 \<le> mant \<and> mant \<le> 7 \<and> above_code c \<le> (mant + 9) * 2 ^ nat (exp + 5)"
proof (cases "c \<le> 15")
  case False
  then have "1 \<le> c div 8 - 1" "c div 8 - 1 \<le> 6" using assms(2) by (auto intro: order_trans [OF _ zdiv_mono1])
  moreover have "0 \<le> c mod 8" "c mod 8 \<le> 7" using pos_mod_bound [of 8 c] by simp_all
  ultimately show ?thesis using exp_mant_large [of c] False assms(2) by (simp add: above_code_def add.commute)
qed (use exp_mant_small assms in blast)

lemma exp_bits:
  assumes "0 \<le> t" and "t \<le> 63"
  shows "exp_loop 6 False t 0 \<in> {0..6} \<and> t < 2 ^ nat (exp_loop 6 False t 0) \<and>
    (exp_loop 6 False t 0 = 0 \<or> 2 ^ nat (exp_loop 6 False t 0 - 1) \<le> t)"
proof -
  have "list_all (\<lambda>t. let e = exp_loop 6 False t 0 in 0 \<le> e \<and> e \<le> 6 \<and> t < 2 ^ nat e \<and> (e = 0 \<or> 2 ^ nat (e - 1) \<le> t)) [0..63]"
    by code_simp
  then have "let e = exp_loop 6 False t 0 in 0 \<le> e \<and> e \<le> 6 \<and> t < 2 ^ nat e \<and> (e = 0 \<or> 2 ^ nat (e - 1) \<le> t)"
    using assms by (simp only: list_all_iff) auto
  then show ?thesis by (simp add: Let_def)
qed

lemma apcm_max: 
  assumes "\<forall>x \<in> set xs. is_word x"
  shows "0 \<le> apcm_max xs" and "apcm_max xs \<le> 32767" and "x \<in> set xs \<Longrightarrow> GSM_ABS x \<le> apcm_max xs"
  using abs_max [OF assms, of 0] unfolding apcm_max_def by auto

text \<open>The code of the maximum, and the interval of the values with the same code.\<close>

lemma xmaxc_range:
  assumes "0 \<le> X" and "X \<le> 32767"
  shows "0 \<le> xmax_to_xmaxc X \<and> xmax_to_xmaxc X \<le> 63 \<and> X < above_code (xmax_to_xmaxc X)"
proof -
  define t where "t = X div 512"
  define e where "e = exp_loop 6 False t 0"
  have "0 \<le> t" "t \<le> 63" using assms int_div_less [of 512 X 64] by (auto simp: t_def)
  from exp_bits [OF this] have e: "0 \<le> e" "e \<le> 6" "t < 2 ^ nat e" "e = 0 \<or> 2 ^ nat (e - 1) \<le> t"
    by (auto simp: e_def)
  define m where "m = X div 2 ^ nat (e + 5)"
  have X: "m * 2 ^ nat (e + 5) \<le> X" "X < (m + 1) * 2 ^ nat (e + 5)"
    using div_bounds [of "2 ^ nat (e + 5)" X] by (auto simp only: m_def zero_less_power zero_less_numeral)
  have T: "t * 512 \<le> X" "X < (t + 1) * 512" using div_bounds [of 512 X] by (simp_all add: t_def)
  have "e \<in> {0, 1, 2, 3, 4, 5, 6}" using e(1,2) unfolding insert_iff empty_iff by presburger
  then have m: "0 \<le> m \<and> m \<le> 15 \<and> (e = 0 \<or> 8 \<le> m)"
    using e X T assms by (elim insertE emptyE) simp_all
  have "xmax_to_xmaxc X = m + 8 * e"
  proof -
    have "xmax_to_xmaxc X = gsm_add (SASR X (nat (e + 5))) (push_bit 3 e)"
      by (simp add: xmax_to_xmaxc_def Let_def e_def t_def SASR_div)
    also have "\<dots> = m + 8 * e"
      using m e(1,2) by (simp add: gsm_add_def saturate_clamp SASR_div push_bit_eq_mult flip: m_def)
    finally show ?thesis .
  qed
  moreover have "above_code (m + 8 * e) = (m + 1) * 2 ^ nat (e + 5)"
  proof (cases "e = 0")
    case True
    then show ?thesis using m by (simp add: above_code_def)
  next
    case False
    then have "(m + 8 * e) div 8 = e + 1" "(m + 8 * e) mod 8 = m - 8" "\<not> m + 8 * e < 16" using m e(1) by presburger+
    then have "above_code (m + 8 * e) = (m - 8 + 9) * 2 ^ nat (e + 1 + 4)" by (simp only: above_code_def if_False)
    then show ?thesis by (simp add: add.commute)
  qed
  ultimately show ?thesis using X m e by simp
qed

lemma scaled_sample:
  assumes "is_word x" and "GSM_ABS x \<le> X" and "X \<le> 32767" and "X < (mant + 9) * 2 ^ nat (exp + 5)"
    and "- 4 \<le> exp" and "exp \<le> 6" and "0 \<le> mant" and "mant \<le> 7"
  shows "(x * 2 ^ nat (6 - exp) < (mant + 9) * 2048 \<and> - (mant + 9) * 2048 < x * 2 ^ nat (6 - exp)) \<or>
    (mant = 7 \<and> x * 2 ^ nat (6 - exp) = - 32768)"
proof -
  have "exp \<in> {- 4, - 3, - 2, - 1, 0, 1, 2, 3, 4, 5, 6}" using assms(5,6) unfolding insert_iff empty_iff by presburger
  moreover have x: "x \<le> X \<and> - X \<le> x \<or> x = - 32768 \<and> X = 32767"
    by (rule GSM_ABS_le [OF assms(1-3)])
  ultimately show ?thesis using assms(4,7,8) by (elim insertE emptyE) auto
qed

lemma NRFAC_table:
  assumes "0 \<le> mant" and "mant \<le> 7"
  shows "0 < gsm_NRFAC ! nat mant \<and> ((mant + 9) * 2048 - 1) * gsm_NRFAC ! nat mant < 536870912 \<and>
    (mant = 7 \<longrightarrow> gsm_NRFAC ! nat mant = 16384)"
proof -
  have "mant \<in> {0, 1, 2, 3, 4, 5, 6, 7}" using assms unfolding insert_iff empty_iff by presburger
  then show ?thesis by (elim insertE emptyE) (simp_all add: gsm_NRFAC_def)
qed

lemma quantize_sample_range:
  assumes "is_word x" and "GSM_ABS x \<le> X" and "X \<le> 32767" and "X < (mant + 9) * 2 ^ nat (exp + 5)"
    and "- 4 \<le> exp" and "exp \<le> 6" and "0 \<le> mant" and "mant \<le> 7"
  shows "0 \<le> quantize_sample (6 - exp) (gsm_NRFAC ! nat mant) x \<and> quantize_sample (6 - exp) (gsm_NRFAC ! nat mant) x \<le> 7"
proof -
  define t where "t = x * 2 ^ nat (6 - exp)"
  define N where "N = gsm_NRFAC ! nat mant"
  have t: "(t < (mant + 9) * 2048 \<and> - (mant + 9) * 2048 < t) \<or> (mant = 7 \<and> t = - 32768)"
    unfolding t_def by (rule scaled_sample [OF assms])
  have N: "0 < N" "((mant + 9) * 2048 - 1) * N < 536870912" "mant = 7 \<longrightarrow> N = 16384"
    using NRFAC_table [OF assms(7,8)] by (simp_all add: N_def)
  have prod: "- 536870912 \<le> t * N \<and> t * N < 536870912"
  proof (cases "mant = 7 \<and> t = - 32768")
    case False
    then have "t \<le> (mant + 9) * 2048 - 1" "- ((mant + 9) * 2048 - 1) \<le> t" using t by auto
    then have "t * N \<le> ((mant + 9) * 2048 - 1) * N" "- ((mant + 9) * 2048 - 1) * N \<le> t * N"
      using N(1) by (auto intro: mult_right_mono simp del: left_diff_distrib)
    then show ?thesis using N(2) by (simp only: mult_minus_left) linarith
  qed (use N in auto)
  have "is_word t" using t assms(7,8) by auto
  moreover have "is_word (t * N div 32768)" using prod by auto
  ultimately have "quantize_sample (6 - exp) N x = t * N div 32768 div 4096 + 4"
    by (simp add: quantize_sample_def Let_def GSM_MULT_def gsm_arith push_bit_eq_mult flip: t_def)
  moreover have "- 16384 \<le> t * N div 32768 \<and> t * N div 32768 \<le> 16383" using prod by auto
  then have "- 4 \<le> t * N div 32768 div 4096 \<and> t * N div 32768 div 4096 \<le> 3" by auto
  ultimately show ?thesis by (simp flip: N_def)
qed

lemma APCM_range:
  assumes "\<forall>x \<in> set xM. is_word x"
  shows "\<exists>xMc mant exp xmaxc. APCM_quantization xM = Some (xMc, mant, exp, xmaxc) \<and>
    APCM_quantization_xmaxc_to_exp_mant xmaxc = Some (exp, mant) \<and> length xMc = length xM \<and>
    (\<forall>c \<in> set xMc. 0 \<le> c \<and> c \<le> 7) \<and> 0 \<le> xmaxc \<and> xmaxc \<le> 63 \<and>
    - 4 \<le> exp \<and> exp \<le> 6 \<and> 0 \<le> mant \<and> mant \<le> 7"
proof -
  define X where "X = apcm_max xM"
  define c where "c = xmax_to_xmaxc X"
  note X = apcm_max [OF assms, folded X_def]
  have c: "0 \<le> c" "c \<le> 63" "X < above_code c" using xmaxc_range [OF X(1,2)] by (simp_all add: c_def)
  from exp_mant [OF c(1,2)] obtain exp mant where
    em: "APCM_quantization_xmaxc_to_exp_mant c = Some (exp, mant)" "- 4 \<le> exp" "exp \<le> 6" "0 \<le> mant" "mant \<le> 7"
      "above_code c \<le> (mant + 9) * 2 ^ nat (exp + 5)" by blast
  have "APCM_quantization xM = Some (map (quantize_sample (6 - exp) (gsm_NRFAC ! nat mant)) xM, mant, exp, c)"
    by (simp add: APCM_quantization_def Let_def em(1) flip: X_def c_def)
  moreover have "\<forall>y \<in> set (map (quantize_sample (6 - exp) (gsm_NRFAC ! nat mant)) xM). 0 \<le> y \<and> y \<le> 7"
    using quantize_sample_range [OF _ X(3) X(2) order_less_le_trans [OF c(3) em(6)] em(2-5)] assms by auto
  ultimately show ?thesis using em c by auto
qed

section \<open>The grid\<close>

definition grid_sum :: "int list \<Rightarrow> nat \<Rightarrow> nat list \<Rightarrow> int" where
  "grid_sum x m is = sum_list (map (\<lambda>i. (SASR (x ! (m + 3 * i)) 2)\<^sup>2) is)"

lemma grid_square:
  assumes "is_word (x ! k)"
  shows "0 \<le> (SASR (x ! k) 2)\<^sup>2 \<and> (SASR (x ! k) 2)\<^sup>2 \<le> 67108864"
proof -
  have "\<bar>SASR (x ! k) 2\<bar> \<le> 8192" using assms by (auto simp: gsm_arith)
  then have "\<bar>SASR (x ! k) 2\<bar> * \<bar>SASR (x ! k) 2\<bar> \<le> 8192 * 8192" by (intro mult_mono) auto
  then show ?thesis by (simp add: power2_eq_square flip: abs_mult)
qed

lemma grid_sum_bounds:
  assumes "\<forall>i \<in> set is. is_word (x ! (m + 3 * i))"
  shows "0 \<le> grid_sum x m is \<and> grid_sum x m is \<le> 67108864 * int (length is)"
  using assms
proof (induction "is")
  case (Cons i "is")
  have "is_word (x ! (m + 3 * i))" using Cons.prems by simp
  from grid_square [OF this] Cons show ?case by (simp add: grid_sum_def)
qed (simp add: grid_sum_def)

lemma grid_steps:
  assumes "\<forall>i \<in> set is. is_word (x ! (m + 3 * i))" and "0 \<le> L" and "L + 67108864 * int (length is) \<le> 2147483647"
  shows "fold (grid_step x m) is L = L + grid_sum x m is"
  using assms
proof (induction "is" arbitrary: L)
  case (Cons i "is")
  have "is_word (x ! (m + 3 * i))" using Cons.prems by simp
  define Q where "Q = (SASR (x ! (m + 3 * i)) 2)\<^sup>2"
  have q: "0 \<le> Q" "Q \<le> 67108864" using grid_square [OF \<open>is_word (x ! (m + 3 * i))\<close>] by (simp_all add: Q_def)
  have "grid_step x m i L = L + Q"
    using q Cons.prems(2,3) by (simp add: grid_step_def Let_def flip: power2_eq_square Q_def)
  then show ?case using Cons.IH [of "L + Q"] Cons.prems q by (simp add: grid_sum_def flip: Q_def)
qed (simp add: grid_sum_def)

lemma grid_energy_sum:
  assumes "\<forall>i \<in> set is. is_word (x ! (m + 3 * i))" and "0 \<le> L" and "L + 134217728 * int (length is) \<le> 2147483647"
  shows "fold (\<lambda>i L_result. let temp1 = SASR (x ! (m + 3 * i)) 2; L_temp = gsm_L_mult temp1 temp1
    in gsm_L_add L_temp L_result) is L = L + 2 * grid_sum x m is"
  using assms
proof (induction "is" arbitrary: L)
  case (Cons i "is")
  have "is_word (x ! (m + 3 * i))" using Cons.prems by simp
  define Q where "Q = (SASR (x ! (m + 3 * i)) 2)\<^sup>2"
  have q: "0 \<le> Q" "Q \<le> 67108864" using grid_square [OF \<open>is_word (x ! (m + 3 * i))\<close>] by (simp_all add: Q_def)
  have "gsm_L_mult (SASR (x ! (m + 3 * i)) 2) (SASR (x ! (m + 3 * i)) 2) = 2 * Q"
    using q by (simp add: gsm_L_mult_def push_bit_eq_mult flip: power2_eq_square Q_def)
  moreover have "gsm_L_add (2 * Q) L = L + 2 * Q"
    using q Cons.prems(2,3) by (simp add: gsm_L_add_def Let_def word_limits)
  ultimately show ?case using Cons.IH [of "L + 2 * Q"] Cons.prems q
    by (simp add: grid_sum_def Let_def flip: Q_def)
qed (simp add: grid_sum_def)

lemma grid_words: "length x = 40 \<Longrightarrow> \<forall>y \<in> set x. is_word y \<Longrightarrow> k < 40 \<Longrightarrow> is_word (x ! k)"
  by (metis nth_mem)

lemma grid_sums:
  assumes "length x = 40" and "\<forall>y \<in> set x. is_word y"
  shows "m \<le> 3 \<Longrightarrow> grid_energy x m = 2 * grid_sum x m [0..<13]"
    and "fold (grid_step x 0) [1..<13] 0 = grid_sum x 0 [1..<13]"
    and "grid_step x 0 0 (grid_sum x 0 [1..<13]) = grid_sum x 0 [0..<13]"
    and "m \<le> 3 \<Longrightarrow> fold (grid_step x m) [0..<13] 0 = grid_sum x m [0..<13]"
    and "grid_step x 3 12 (grid_sum x 0 [1..<13]) = grid_sum x 3 [0..<13]"
    and "m \<le> 3 \<Longrightarrow> s32 (push_bit 1 (grid_sum x m [0..<13])) = 2 * grid_sum x m [0..<13]"
proof -
  have w: "\<forall>i \<in> set [0..<13]. is_word (x ! (m + 3 * i))" if "m \<le> 3" for m
    using that grid_words [OF assms] by auto
  have w0: "\<forall>i \<in> set [1..<13]. is_word (x ! (0 + 3 * i))" using grid_words [OF assms] by auto
  show "grid_energy x m = 2 * grid_sum x m [0..<13]" if "m \<le> 3"
    using grid_energy_sum [OF w [OF that], of 0] by (simp add: grid_energy_def)
  show "fold (grid_step x 0) [1..<13] 0 = grid_sum x 0 [1..<13]"
    using grid_steps [OF w0, of 0] by simp
  show "fold (grid_step x m) [0..<13] 0 = grid_sum x m [0..<13]" if "m \<le> 3"
    using grid_steps [OF w [OF that], of 0] by simp
  have b: "0 \<le> grid_sum x 0 [1..<13]" "grid_sum x 0 [1..<13] \<le> 67108864 * 12"
    using grid_sum_bounds [OF w0] by simp_all
  have "grid_step x m i (grid_sum x 0 [1..<13]) = grid_sum x 0 [1..<13] + (SASR (x ! (m + 3 * i)) 2)\<^sup>2"
    if "m + 3 * i < 40" for m i
    using grid_steps [of "[i]" x m "grid_sum x 0 [1..<13]"] grid_words [OF assms that] b by (simp add: grid_sum_def)
  then have 1: "grid_step x 0 0 (grid_sum x 0 [1..<13]) = grid_sum x 0 [1..<13] + (SASR (x ! 0) 2)\<^sup>2"
    "grid_step x 3 12 (grid_sum x 0 [1..<13]) = grid_sum x 0 [1..<13] + (SASR (x ! 39) 2)\<^sup>2" by simp_all
  show "grid_step x 0 0 (grid_sum x 0 [1..<13]) = grid_sum x 0 [0..<13]"
    unfolding 1 by (simp add: grid_sum_def upt_rec)
  show "grid_step x 3 12 (grid_sum x 0 [1..<13]) = grid_sum x 3 [0..<13]"
    unfolding 1 by (simp add: grid_sum_def upt_rec)
  show "s32 (push_bit 1 (grid_sum x m [0..<13])) = 2 * grid_sum x m [0..<13]" if "m \<le> 3"
    using grid_sum_bounds [OF w [OF that]] by (simp add: push_bit_eq_mult)
qed

lemma below_four:
  "(\<forall>k \<le> 3. P k) \<longleftrightarrow> P 0 \<and> P 1 \<and> P 2 \<and> P (3 :: nat)" "(\<forall>k < 1. P k) \<longleftrightarrow> P (0 :: nat)"
  "(\<forall>k < 2. P k) \<longleftrightarrow> P 0 \<and> P (1 :: nat)" "(\<forall>k < 3. P k) \<longleftrightarrow> P 0 \<and> P 1 \<and> P (2 :: nat)"
  by (auto simp: numeral_eq_Suc le_Suc_eq less_Suc_eq)

text \<open>
  C27: The selection of the grid, with its shared sum and its plain arithmetic, is the loop of the standard that the comment
  in the code has, with its saturating arithmetic: the position is the first one of the greatest energy, and no sum
  overflows.
\<close>

theorem grid_selection_reference:
  assumes "length x = 40" and "\<forall>y \<in> set x. is_word y"
  shows "\<exists>EM m. grid_reference x = (EM, int m) \<and> RPE_grid_selection x = (map (\<lambda>i. x ! (m + 3 * i)) [0..<13], int m)
    \<and> m \<le> 3 \<and> EM = grid_energy x m
    \<and> (\<forall>k \<le> 3. grid_energy x k \<le> EM) \<and> (\<forall>k < m. grid_energy x k < EM)"
proof -
  note g = grid_sums [OF assms]
  define E where "E m = grid_energy x m" for m
  have E: "2 * grid_sum x m [0..<13] = E m" if "m \<le> 3" for m using g(1) that by (simp add: E_def)
  have nonneg: "0 \<le> E m" if "m \<le> 3" for m
    using that grid_sum_bounds [of "[0..<13]" x m] grid_words [OF assms] by (simp flip: E)
  have sel: "RPE_grid_selection x = (let
      (EM, Mc) = (E 0, 0);
      (EM, Mc) = (if E 1 > EM then (E 1, 1) else (EM, Mc));
      (EM, Mc) = (if E 2 > EM then (E 2, 2) else (EM, Mc));
      (EM, Mc) = (if E 3 > EM then (E 3, 3) else (EM, Mc))
    in (map (\<lambda>i. x ! (nat Mc + 3 * i)) [0..<13], Mc))"
    unfolding RPE_grid_selection_def by (simp add: Let_def g E del: One_nat_def)
  have ref: "grid_reference x = (let
      (EM, Mc) = (if E 0 > 0 then (E 0, 0) else (0, 0));
      (EM, Mc) = (if E 1 > EM then (E 1, 1) else (EM, Mc));
      (EM, Mc) = (if E 2 > EM then (E 2, 2) else (EM, Mc))
    in if E 3 > EM then (E 3, 3) else (EM, Mc))"
  proof -
    have "[0..<4] = [0, 1, 2, 3 :: nat]" by (simp add: numeral_eq_Suc)
    then show ?thesis by (simp add: grid_reference_def Let_def flip: E_def del: One_nat_def)
  qed
  show ?thesis
    unfolding sel ref E_def [symmetric]
    using nonneg [of 0] nonneg [of 1] nonneg [of 2] nonneg [of 3]
    by (cases "E 1 > E 0"; cases "E 2 > max (E 0) (E 1)"; cases "E 3 > max (max (E 0) (E 1)) (E 2)")
      (auto simp: Let_def below_four plus_1_eq_Suc simp del: One_nat_def)
qed

theorem grid_selection_reference_witness:
  "\<exists>EM m. grid_reference (replicate 17 0 @ 9 # replicate 22 0) = (EM, int m) \<and>
     snd (RPE_grid_selection (replicate 17 0 @ 9 # replicate 22 0)) = int m"
  using grid_selection_reference [of "replicate 17 0 @ 9 # replicate 22 0"] by fastforce

text \<open>
  The positioning of the 13 samples, a switch that jumps into a loop, does what the plain loops in its comment do: 40
  values, sample \<open>i\<close> at place \<open>Mc + 3 i\<close>, and zero elsewhere.
\<close>

theorem grid_positioning_reference:
  assumes "0 \<le> Mc" and "Mc \<le> 3" and "length xMp = 13"
  shows "RPE_grid_positioning Mc xMp = grid_positions Mc xMp"
proof -
  obtain x0 x1 x2 x3 x4 x5 x6 x7 x8 x9 x10 x11 x12 where x: "xMp = [x0, x1, x2, x3, x4, x5, x6, x7, x8, x9, x10, x11, x12]"
    using assms(3) by (auto simp: length_Suc_conv numeral_eq_Suc)
  have "Mc \<in> {0, 1, 2, 3}" using assms(1,2) unfolding insert_iff empty_iff by presburger
  then show ?thesis
    by (elim insertE emptyE) (simp_all add: x RPE_grid_positioning_def grid_positions_def upt_rec eval_nat_numeral)
qed

theorem grid_positioning_reference_witness:
  "RPE_grid_positioning 2 (replicate 13 7) = grid_positions 2 (replicate 13 7)"
  by (rule grid_positioning_reference) simp_all

section \<open>Coding and decoding\<close>

lemma grid_body_props: "length (grid_body xs) = 3 * length xs - 2 \<and> set (grid_body xs) \<subseteq> insert 0 (set xs)"
  by (induction xs rule: grid_body.induct) auto

lemma grid_positioning_props:
  assumes "0 \<le> Mc" and "Mc \<le> 3" and "length xMp = 13"
  shows "length (RPE_grid_positioning Mc xMp) = 40" and "set (RPE_grid_positioning Mc xMp) \<subseteq> insert 0 (set xMp)"
proof -
  have "Mc \<in> {0, 1, 2, 3}" using assms(1,2) unfolding insert_iff empty_iff by presburger
  then show "length (RPE_grid_positioning Mc xMp) = 40"
    using assms(3) grid_body_props [of xMp] by (elim insertE emptyE) (simp_all add: RPE_grid_positioning_def)
  show "set (RPE_grid_positioning Mc xMp) \<subseteq> insert 0 (set xMp)"
    using grid_body_props [of xMp] by (auto simp: RPE_grid_positioning_def Let_def)
qed

lemma FAC_table:
  assumes "0 \<le> mant" and "mant \<le> 7"
  shows "0 \<le> gsm_FAC ! nat mant \<and> gsm_FAC ! nat mant \<le> 32767"
proof -
  have "mant \<in> {0, 1, 2, 3, 4, 5, 6, 7}" using assms unfolding insert_iff empty_iff by presburger
  then show ?thesis by (elim insertE emptyE) (simp_all add: gsm_FAC_def)
qed

lemma gsm_asr_word: "is_word x \<Longrightarrow> is_word (gsm_asr x n)"
  using SASR_word [of x "nat n"] s16_range by (simp add: gsm_asr_def SASR_def)

lemma inverse_quantization_words:
  "length (APCM_inverse_quantization xMc mant exp) = length xMc"
  "\<forall>x \<in> set (APCM_inverse_quantization xMc mant exp). is_word x"
proof -
  have "is_word (gsm_asl 1 n)" for n by (simp add: gsm_asl_def gsm_asr_word s16_range)
  then show "\<forall>x \<in> set (APCM_inverse_quantization xMc mant exp). is_word x"
    by (auto simp only: APCM_inverse_quantization_def Let_def set_map image_iff
        intro!: gsm_asr_word [THEN conjunct1] gsm_asr_word [THEN conjunct2] GSM_ADD_word s16_range)
qed (simp add: APCM_inverse_quantization_def Let_def)

lemma Weighting_filter_words: "length (Weighting_filter e) = 40" "\<forall>x \<in> set (Weighting_filter e). is_word x"
  by (auto simp: Weighting_filter_def weight_def Let_def word_limits)

text \<open>Selected samples are samples.\<close>

lemma grid_selection_range:
  assumes "RPE_grid_selection x = (xM, Mc)"
  shows "length xM = 13" and "0 \<le> Mc" and "Mc \<le> 3" and "length x = 40 \<Longrightarrow> set xM \<subseteq> set x"
proof -
  have c: "Mc \<in> {0, 1, 2, 3}" "xM = map (\<lambda>i. x ! (nat Mc + 3 * i)) [0..<13]"
    using assms by (auto simp: RPE_grid_selection_def Let_def split: if_splits)
  then show "length xM = 13" "0 \<le> Mc" "Mc \<le> 3" by auto
  then show "set xM \<subseteq> set x" if "length x = 40"
    using c(2) that by auto
qed

lemma rpe_codes:
  "\<exists>ep xmaxc Mc xMc. Gsm_RPE_Encoding e = Some (take 5 e @ ep @ drop 45 e, xmaxc, Mc, xMc) \<and>
     Gsm_RPE_Decoding xmaxc Mc xMc = Some ep \<and> length ep = 40 \<and>
     0 \<le> xmaxc \<and> xmaxc \<le> 63 \<and> 0 \<le> Mc \<and> Mc \<le> 3 \<and> length xMc = 13 \<and> (\<forall>c \<in> set xMc. 0 \<le> c \<and> c \<le> 7)"
proof -
  obtain xM Mc where sel: "RPE_grid_selection (Weighting_filter e) = (xM, Mc)"
    by (cases "RPE_grid_selection (Weighting_filter e)") auto
  note g = grid_selection_range [OF sel]
  have "\<forall>x \<in> set xM. is_word x" using g(4) Weighting_filter_words by blast
  from APCM_range [OF this] obtain xMc mant exp xmaxc where q: "APCM_quantization xM = Some (xMc, mant, exp, xmaxc)"
    "APCM_quantization_xmaxc_to_exp_mant xmaxc = Some (exp, mant)" "length xMc = length xM"
    "\<forall>c \<in> set xMc. 0 \<le> c \<and> c \<le> 7" "0 \<le> xmaxc" "xmaxc \<le> 63" by blast
  have "length (RPE_grid_positioning Mc (APCM_inverse_quantization xMc mant exp)) = 40"
    using grid_positioning_props(1) g q(3) inverse_quantization_words(1) by simp
  then show ?thesis using sel g q by (simp add: Gsm_RPE_Encoding_def Gsm_RPE_Decoding_def)
qed

text \<open>
  C26: Coding a segment of the residual always returns: the loop that normalizes the mantissa ends, the block maximum is
  coded in 6 bits, the grid in 2 and every sample in 3 bits, and the segment left in the array is exactly what the
  decoder makes of these codes.
\<close>

theorem rpe_coding:
  "\<exists>ep xmaxc Mc xMc. Gsm_RPE_Encoding e = Some (take 5 e @ ep @ drop 45 e, xmaxc, Mc, xMc) \<and>
     Gsm_RPE_Decoding xmaxc Mc xMc = Some ep \<and> length ep = 40 \<and>
     0 \<le> xmaxc \<and> xmaxc \<le> 63 \<and> 0 \<le> Mc \<and> Mc \<le> 3 \<and> length xMc = 13 \<and> (\<forall>c \<in> set xMc. 0 \<le> c \<and> c \<le> 7)"
  by (rule rpe_codes)

theorem rpe_coding_witness:
  "\<exists>ep xmaxc Mc xMc. Gsm_RPE_Encoding (replicate 5 0 @ replicate 40 1000 @ replicate 5 0) = Some (ep, xmaxc, Mc, xMc) \<and> xmaxc \<le> 63"
  using rpe_coding [of "replicate 5 0 @ replicate 40 1000 @ replicate 5 0"] by blast

end
