(* ===== verification/GsmLong.thy ===== *)
theory GsmLong
  imports GsmRpe
begin

unbundle bit_operations_syntax

text \<open>
  The long term predictor of GSM 06.10 (\<open>src/work/text/gsm/src/long_term.c\<close>, without \<open>USE_FLOAT_MUL\<close> and \<open>LTP_CUT\<close>): the lag and
  the gain of the best match in the last 120 samples, the residual of the prediction, and the synthesis in the
  decoder.  The pointer \<open>dp\<close> is the array \<open>dp0\<close> of the state with the index \<open>base\<close>: \<open>dp[k - Nc]\<close> is \<open>dp0 ! (base + k - Nc)\<close>.
\<close>

section \<open>The coder\<close>

definition ltp_dmax :: "int list \<Rightarrow> int" where
  "ltp_dmax d = fold (\<lambda>x dmax. let temp = GSM_ABS x in if temp > dmax then temp else dmax) d 0"

text \<open>When all is zero the code sets \<open>scal\<close> to 0 first and then, as \<open>temp\<close> is 0, to 6.\<close>

definition ltp_scal :: "int list \<Rightarrow> int" where
  "ltp_scal d =
     (let dmax = ltp_dmax d;
          temp = 0;
          temp = (if dmax = 0 then temp else gsm_norm (s32 (push_bit 16 dmax)))
      in if temp > 6 then 0 else 6 - temp)"

definition dp_at :: "int list \<Rightarrow> nat \<Rightarrow> nat \<Rightarrow> int \<Rightarrow> int" where
  "dp_at dp base k Nc = dp ! nat (int base + int k - Nc)"

definition correlate :: "int list \<Rightarrow> int list \<Rightarrow> nat \<Rightarrow> int \<Rightarrow> int" where
  "correlate wt dp base lag =
     fold (\<lambda>k L_result. s32 (L_result + s32 (wt ! k * dp_at dp base k lag))) [1..<40] (s32 (wt ! 0 * dp_at dp base 0 lag))"

text \<open>The loop over the lag; the state is \<open>Nc\<close> and \<open>L_max\<close>.\<close>

definition lag_step :: "int list \<Rightarrow> int list \<Rightarrow> nat \<Rightarrow> int \<Rightarrow> int \<times> int \<Rightarrow> int \<times> int" where
  "lag_step wt dp base lag = (\<lambda>(Nc, L_max).
     let L_result = correlate wt dp base lag in if L_result > L_max then (lag, L_result) else (Nc, L_max))"

definition gsm_DLB :: "int list" where "gsm_DLB = [6554, 16384, 26214, 32767]"

fun gain_loop :: "nat \<Rightarrow> int \<Rightarrow> int \<Rightarrow> int \<Rightarrow> int" where
  "gain_loop 0 bc R S = bc"
| "gain_loop (Suc n) bc R S = (if R \<le> gsm_mult S (gsm_DLB ! nat bc) then bc else gain_loop n (bc + 1) R S)"

definition ltp_power :: "int list \<Rightarrow> nat \<Rightarrow> int \<Rightarrow> int" where
  "ltp_power dp base Nc =
     (let L_power = fold (\<lambda>k L_power. let L_temp = SASR (dp_at dp base k Nc) 3 in s32 (L_power + s32 (L_temp * L_temp))) [0..<40] 0
      in s32 (push_bit 1 L_power))"

definition Calculation_of_the_LTP_parameters :: "int list \<Rightarrow> int list \<Rightarrow> nat \<Rightarrow> int \<times> int" where
  "Calculation_of_the_LTP_parameters d dp base =
     (let scal = ltp_scal d;
          wt = map (\<lambda>x. SASR x (nat scal)) d;
          (Nc, L_max) = fold (lag_step wt dp base) [40..120] (40, 0);
          L_max = s32 (push_bit 1 L_max);
          L_max = drop_bit (nat (6 - scal)) L_max;
          L_power = ltp_power dp base Nc
      in if L_max \<le> 0 then (Nc, 0)
         else if L_max \<ge> L_power then (Nc, 3)
         else
           let temp = gsm_norm L_power;
               R = s16 (SASR (s32 (push_bit (nat temp) L_max)) 16);
               S = s16 (SASR (s32 (push_bit (nat temp) L_power)) 16)
           in (Nc, gain_loop 3 0 R S))"

text \<open>One sample of the filter; \<open>dpp\<close> is the part of \<open>dp0\<close> from \<open>base\<close> on, and \<open>e\<close> the array of the state from its sixth element on.\<close>

definition ltp_step :: "int \<Rightarrow> int \<Rightarrow> nat \<Rightarrow> int list \<Rightarrow> nat \<Rightarrow> int list \<times> int list \<Rightarrow> int list \<times> int list" where
  "ltp_step BP Nc base d k = (\<lambda>(dp, e).
     let dp = dp[base + k := s16 (GSM_MULT_R BP (dp_at dp base k Nc))]
     in (dp, e[5 + k := GSM_SUB (d ! k) (dp ! (base + k))]))"

definition Long_term_analysis_filtering ::
  "int \<Rightarrow> int \<Rightarrow> nat \<Rightarrow> int list \<Rightarrow> int list \<times> int list \<Rightarrow> int list \<times> int list" where
  "Long_term_analysis_filtering bc Nc base d st =
     (if bc = 0 then fold (ltp_step 3277 Nc base d) [0..<40] st
      else if bc = 1 then fold (ltp_step 11469 Nc base d) [0..<40] st
      else if bc = 2 then fold (ltp_step 21299 Nc base d) [0..<40] st
      else if bc = 3 then fold (ltp_step 32767 Nc base d) [0..<40] st
      else st)"

definition Gsm_Long_Term_Predictor :: "gsm_state \<Rightarrow> int list \<Rightarrow> nat \<Rightarrow> int \<times> int \<times> gsm_state" where
  "Gsm_Long_Term_Predictor S d base =
     (let (Nc, bc) = Calculation_of_the_LTP_parameters d (dp0 S) base;
          (dp, ee) = Long_term_analysis_filtering bc Nc base d (dp0 S, gs_e S)
      in (Nc, bc, S\<lparr>dp0 := dp, gs_e := ee\<rparr>))"

section \<open>The decoder\<close>

definition gsm_QLB :: "int list" where "gsm_QLB = [3277, 11469, 21299, 32767]"

text \<open>One sample; \<open>drp\<close> is the part of \<open>dp0\<close> from element 120 on.\<close>

definition synth_step :: "int \<Rightarrow> int \<Rightarrow> int list \<Rightarrow> nat \<Rightarrow> int list \<Rightarrow> int list" where
  "synth_step brp Nr erp k drp =
     (let drpp = s16 (GSM_MULT_R brp (dp_at drp 120 k Nr)) in drp[120 + k := GSM_ADD (erp ! k) drpp])"

definition Gsm_Long_Term_Synthesis_Filtering :: "gsm_state \<Rightarrow> int \<Rightarrow> int \<Rightarrow> int list \<Rightarrow> gsm_state" where
  "Gsm_Long_Term_Synthesis_Filtering S Ncr bcr erp =
     (let Nr = (if Ncr < 40 \<or> Ncr > 120 then nrp S else Ncr);
          S = S\<lparr>nrp := Nr\<rparr>;
          brp = gsm_QLB ! nat bcr;
          drp = fold (synth_step brp Nr erp) [0..<40] (dp0 S);
          drp = fold (\<lambda>k drp. drp[k := drp ! (40 + k)]) [0..<120] drp
      in S\<lparr>dp0 := drp\<rparr>)"

section \<open>The lag\<close>

lemma ltp_dmax:
  assumes "\<forall>x \<in> set d. is_word x"
  shows "0 \<le> ltp_dmax d" and "ltp_dmax d \<le> 32767" and "x \<in> set d \<Longrightarrow> GSM_ABS x \<le> ltp_dmax d"
  using abs_max [OF assms, of 0] unfolding ltp_dmax_def by auto

lemma ltp_scaled:
  assumes "\<forall>x \<in> set d. is_word x" and "x \<in> set d"
  shows "\<bar>SASR x (nat (ltp_scal d))\<bar> \<le> 512" and "0 \<le> ltp_scal d" and "ltp_scal d \<le> 6"
proof -
  define m where "m = ltp_dmax d"
  note m = ltp_dmax [OF assms(1), folded m_def]
  have x: "x \<le> m \<and> - m \<le> x \<or> x = - 32768 \<and> m = 32767"
    using assms m(2,3) by (intro GSM_ABS_le) auto
  have "\<bar>SASR x (nat (ltp_scal d))\<bar> \<le> 512 \<and> 0 \<le> ltp_scal d \<and> ltp_scal d \<le> 6"
  proof (cases "m = 0")
    case True
    then have "x = 0" using x by auto
    then show ?thesis using True by (simp add: ltp_scal_def Let_def SASR_def flip: m_def)
  next
    case False
    define n where "n = gsm_norm (m * 65536)"
    have n: "0 \<le> n" "(m * 65536 + 1) * 2 ^ nat n \<le> 2147483648"
      using norm_positive [of "m * 65536"] False m(1,2) by (simp_all add: n_def)
    have scal: "ltp_scal d = (if n > 6 then 0 else 6 - n)"
      using False m(1,2) by (simp add: ltp_scal_def Let_def push_bit_eq_mult n_def flip: m_def)
    show ?thesis
    proof (cases "n > 6")
      case True
      then have "(2 :: int) ^ 7 \<le> 2 ^ nat n" by (intro power_increasing) auto
      then have "(m * 65536 + 1) * 2 ^ 7 \<le> (m * 65536 + 1) * 2 ^ nat n" using m(1) by (intro mult_left_mono) auto
      then show ?thesis using n(2) x scal True by (auto simp: SASR_def)
    next
      case small: False
      then have "n \<in> {0, 1, 2, 3, 4, 5, 6}" using n(1) unfolding insert_iff empty_iff by presburger
      then show ?thesis using n(2) x scal by (elim insertE emptyE) (auto simp: gsm_arith)
    qed
  qed
  then show "\<bar>SASR x (nat (ltp_scal d))\<bar> \<le> 512" "0 \<le> ltp_scal d" "ltp_scal d \<le> 6" by auto
qed

text \<open>The cross-correlation, and the loop that searches for its first maximum.\<close>

definition correlation :: "int list \<Rightarrow> int list \<Rightarrow> nat \<Rightarrow> int \<Rightarrow> int" where
  "correlation wt dp base lag = sum_list (map (\<lambda>k. wt ! k * dp_at dp base k lag) [0..<40])"

lemma correlate_exact:
  assumes "\<forall>k < 40. \<bar>wt ! k\<bar> \<le> 512" and "\<forall>k < 40. is_word (dp_at dp base k lag)"
  shows "correlate wt dp base lag = correlation wt dp base lag \<and> \<bar>correlation wt dp base lag\<bar> \<le> 671088640"
proof -
  let ?f = "\<lambda>k. wt ! k * dp_at dp base k lag"
  have b: "\<bar>?f k\<bar> \<le> 16777216" if "k < 40" for k
  proof -
    have "\<bar>dp_at dp base k lag\<bar> \<le> 32768" using assms(2) that by auto
    then have "\<bar>?f k\<bar> \<le> 512 * 32768" unfolding abs_mult using assms(1) that by (intro mult_mono) auto
    then show ?thesis by simp
  qed
  have s: "s32 (?f 0) = ?f 0" using b [of 0] by (intro s32_id) auto
  have "\<forall>k \<in> set [1..<40]. \<bar>?f k\<bar> \<le> 16777216" using b by simp
  from fold_s32_sum [OF this, of "?f 0"] b [of 0]
  have "correlate wt dp base lag = ?f 0 + sum_list (map ?f [1..<40]) \<and> \<bar>?f 0 + sum_list (map ?f [1..<40])\<bar> \<le> 671088640"
    unfolding correlate_def s by auto
  moreover have "[0..<40] = 0 # [1..<40]" by (simp add: upt_rec)
  ultimately show ?thesis by (simp add: correlation_def)
qed

lemma first_maximum:
  assumes "fold (\<lambda>x (n, M). if c x > M then (x, c x) else (n, M)) xs (n0, m0) = (n, M)"
  shows "n = n0 \<and> M = m0 \<and> (\<forall>x \<in> set xs. c x \<le> m0) \<or>
    (\<exists>ys zs. xs = ys @ n # zs \<and> M = c n \<and> m0 < c n \<and> (\<forall>y \<in> set ys. c y < c n) \<and> (\<forall>z \<in> set zs. c z \<le> (c n :: int)))"
  using assms
proof (induction xs arbitrary: n0 m0)
  case (Cons x xs)
  show ?case
  proof (cases "c x > m0")
    case True
    with Cons.prems have "fold (\<lambda>x (n, M). if c x > M then (x, c x) else (n, M)) xs (x, c x) = (n, M)" by simp
    from Cons.IH [OF this] show ?thesis
    proof (elim disjE exE conjE)
      assume "n = x" "M = c x" "\<forall>y \<in> set xs. c y \<le> c x"
      then show ?thesis using True by (intro disjI2 exI [of _ "[]"] exI [of _ xs]) auto
    next
      fix ys zs assume "xs = ys @ n # zs" "M = c n" "c x < c n" "\<forall>y \<in> set ys. c y < c n" "\<forall>z \<in> set zs. c z \<le> c n"
      then show ?thesis using True by (intro disjI2 exI [of _ "x # ys"] exI [of _ zs]) auto
    qed
  next
    case False
    with Cons.prems have "fold (\<lambda>x (n, M). if c x > M then (x, c x) else (n, M)) xs (n0, m0) = (n, M)" by simp
    from Cons.IH [OF this] show ?thesis
    proof (elim disjE exE conjE)
      fix ys zs assume "xs = ys @ n # zs" "M = c n" "m0 < c n" "\<forall>y \<in> set ys. c y < c n" "\<forall>z \<in> set zs. c z \<le> c n"
      then show ?thesis using False by (intro disjI2 exI [of _ "x # ys"] exI [of _ zs]) auto
    qed (use False in auto)
  qed
qed auto

lemma lag_search:
  assumes "\<forall>lag \<in> {40..120}. correlate wt dp base lag = c lag" and "fold (lag_step wt dp base) [40..120] (40, 0) = (Nc, M)"
  shows "40 \<le> Nc \<and> Nc \<le> 120 \<and> (\<forall>lag. 40 \<le> lag \<longrightarrow> lag \<le> 120 \<longrightarrow> c lag \<le> max 0 (c Nc)) \<and>
    (\<forall>lag. 40 \<le> lag \<longrightarrow> lag < Nc \<longrightarrow> c lag < c Nc) \<and> M = max 0 (c Nc) \<and> (c Nc \<le> 0 \<longrightarrow> Nc = 40)"
proof -
  define lags where "lags = [40..120 :: int]"
  have lags: "set lags = {40..120}" "sorted_wrt (<) lags"
    unfolding lags_def by (simp_all only: set_upto sorted_wrt_upto)
  have "lag_step wt dp base x = (\<lambda>(n, M). if c x > M then (x, c x) else (n, M))" if "x \<in> set lags" for x
    using that assms(1) lags(1) by (simp add: lag_step_def Let_def)
  then have "fold (lag_step wt dp base) lags (40, 0) = fold (\<lambda>x (n, M). if c x > M then (x, c x) else (n, M)) lags (40, 0)"
    by (intro fold_cong) simp_all
  then have "fold (\<lambda>x (n, M). if c x > M then (x, c x) else (n, M)) lags (40, 0) = (Nc, M)"
    using assms(2) by (simp only: lags_def)
  from first_maximum [OF this] show ?thesis
  proof (elim disjE exE conjE)
    assume "Nc = 40" "M = 0" "\<forall>x \<in> set lags. c x \<le> 0"
    then show ?thesis using lags(1) by auto
  next
    fix ys zs assume *: "lags = ys @ Nc # zs" "M = c Nc" "0 < c Nc" "\<forall>y \<in> set ys. c y < c Nc" "\<forall>z \<in> set zs. c z \<le> c Nc"
    have mem: "{40..120} = set ys \<union> {Nc} \<union> set zs" using lags(1) by (auto simp: *(1))
    have "\<forall>z \<in> set zs. Nc < z" using lags(2) by (simp add: *(1) sorted_wrt_append)
    have "Nc \<in> {40..120}" using mem by blast
    have cases: "lag \<in> set ys \<or> lag = Nc \<or> lag \<in> set zs" if "40 \<le> lag" "lag \<le> 120" for lag
      using that mem by (metis UnE atLeastAtMost_iff singletonD)
    have "c lag < c Nc" if "40 \<le> lag" "lag < Nc" for lag
      using cases [of lag] that \<open>Nc \<in> {40..120}\<close> \<open>\<forall>z \<in> set zs. Nc < z\<close> *(4) by fastforce
    moreover have "c lag \<le> c Nc" if "40 \<le> lag" "lag \<le> 120" for lag
      using cases [OF that] *(4,5) by fastforce
    ultimately show ?thesis using \<open>Nc \<in> {40..120}\<close> *(2-4) by auto
  qed
qed

lemma gain_loop_range: "0 \<le> bc \<Longrightarrow> bc \<le> gain_loop n bc R S \<and> gain_loop n bc R S \<le> bc + int n"
  by (induction n bc R S rule: gain_loop.induct) (auto simp: algebra_simps)

lemma lag_range: "fold (lag_step wt dp base) [40..120] (40, 0) = (Nc, M) \<Longrightarrow> 40 \<le> Nc \<and> Nc \<le> 120"
  using lag_search [of wt dp base "correlate wt dp base"] by blast

lemma LTP_range:
  assumes "Calculation_of_the_LTP_parameters d dp base = (Nc, bc)"
  shows "40 \<le> Nc \<and> Nc \<le> 120 \<and> 0 \<le> bc \<and> bc \<le> 3"
proof -
  obtain N M where l: "fold (lag_step (map (\<lambda>x. SASR x (nat (ltp_scal d))) d) dp base) [40..120] (40, 0) = (N, M)" by fastforce
  have "0 \<le> gain_loop 3 0 R S \<and> gain_loop 3 0 R S \<le> 3" for R S using gain_loop_range [of 0 3] by simp
  then show ?thesis using assms lag_range [OF l] l
    by (auto simp: Calculation_of_the_LTP_parameters_def Let_def split: if_splits)
qed

text \<open>
  C28: The lag is the first one from 40 to 120 with the greatest cross-correlation of the scaled segment and the history,
  or 40 when no correlation is positive.  The correlations here are those of the integers: no product and no sum
  overflows.
\<close>

theorem ltp_lag:
  assumes "length d = 40" and "\<forall>x \<in> set d. is_word x" and "base \<ge> 120" and "length dp \<ge> base" and "\<forall>x \<in> set dp. is_word x"
    and "Calculation_of_the_LTP_parameters d dp base = (Nc, bc)"
  defines "c \<equiv> correlation (map (\<lambda>x. SASR x (nat (ltp_scal d))) d) dp base"
  shows "40 \<le> Nc \<and> Nc \<le> 120 \<and> (\<forall>lag. 40 \<le> lag \<longrightarrow> lag \<le> 120 \<longrightarrow> c lag \<le> max 0 (c Nc)) \<and>
    (\<forall>lag. 40 \<le> lag \<longrightarrow> lag < Nc \<longrightarrow> c lag < c Nc) \<and> (c Nc \<le> 0 \<longrightarrow> Nc = 40 \<and> bc = 0)"
proof -
  define wt where "wt = map (\<lambda>x. SASR x (nat (ltp_scal d))) d"
  have wt: "\<forall>k < 40. \<bar>wt ! k\<bar> \<le> 512"
    using ltp_scaled(1) [OF assms(2)] assms(1) by (simp add: wt_def)
  have dp: "is_word (dp_at dp base k lag)" if "40 \<le> lag" "lag \<le> 120" "k < 40" for k lag
  proof -
    have "nat (int base + int k - lag) < length dp" using that assms(3,4) by auto
    then show ?thesis using assms(5) nth_mem by (fastforce simp: dp_at_def)
  qed
  have c: "\<forall>lag \<in> {40..120}. correlate wt dp base lag = c lag"
    using correlate_exact [OF wt] dp unfolding c_def wt_def by auto
  obtain M where l: "fold (lag_step wt dp base) [40..120] (40, 0) = (Nc, M)"
    using assms(6) by (cases "fold (lag_step wt dp base) [40..120] (40, 0)")
      (auto simp: Calculation_of_the_LTP_parameters_def Let_def wt_def split: if_splits)
  note s = lag_search [OF c l]
  have "Nc = 40 \<and> bc = 0" if "c Nc \<le> 0"
  proof -
    have "M = 0" using s that by simp
    then have "bc = 0" using assms(6) l
      by (auto simp: Calculation_of_the_LTP_parameters_def Let_def wt_def split: if_splits)
    then show ?thesis using s that by blast
  qed
  then show ?thesis using s by blast
qed

theorem ltp_lag_witness:
  "\<exists>bc. Calculation_of_the_LTP_parameters (replicate 40 0) (replicate 280 5) 120 = (40, bc)"
proof -
  obtain Nc bc where r: "Calculation_of_the_LTP_parameters (replicate 40 0) (replicate 280 5) 120 = (Nc, bc)" by fastforce
  have "map (\<lambda>x. SASR x (nat (ltp_scal (replicate 40 0)))) (replicate 40 0) = replicate 40 0" by (simp add: SASR_def)
  moreover have "map (\<lambda>k. replicate 40 0 ! k * dp_at (replicate 280 5) 120 k Nc) [0..<40] = map (\<lambda>k. 0 :: int) [0..<40]"
    by (intro map_cong) simp_all
  then have "correlation (replicate 40 0) (replicate 280 5) 120 Nc = 0"
    unfolding correlation_def by (simp only: sum_list_0)
  ultimately show ?thesis using ltp_lag [OF _ _ _ _ _ r] r by auto
qed

section \<open>The loops on the history\<close>

lemma fold_update:
  assumes "\<And>k. k < n \<Longrightarrow> g k (take base xs @ map h [0..<k] @ drop (base + k) xs) = h k" and "base + n \<le> length xs"
  shows "fold (\<lambda>k xs. xs[base + k := g k xs]) [0..<n] xs = take base xs @ map h [0..<n] @ drop (base + n) xs"
  using assms
proof (induction n)
  case (Suc n)
  have "drop (base + n) xs = xs ! (base + n) # drop (Suc (base + n)) xs"
    using Suc.prems(2) by (intro Cons_nth_drop_Suc [symmetric]) simp
  moreover have "g n (take base xs @ map h [0..<n] @ drop (base + n) xs) = h n" using Suc.prems(1) by simp
  moreover have "fold (\<lambda>k xs. xs[base + k := g k xs]) [0..<n] xs = take base xs @ map h [0..<n] @ drop (base + n) xs"
    using Suc.prems by (intro Suc.IH) simp_all
  ultimately show ?case using Suc.prems(2) by (simp add: list_update_append)
qed simp

lemma dp_at_take:
  assumes "0 < base" and "int k < Nc" and "base \<le> length dp"
  shows "dp_at (take base dp @ zs) base k Nc = dp_at dp base k Nc"
proof -
  have "nat (int base + int k - Nc) < base" using assms by auto
  then show ?thesis using assms by (simp add: dp_at_def nth_append)
qed

text \<open>The new residual of the segment, and what the filters leave in the history.\<close>

definition predicted :: "int \<Rightarrow> int list \<Rightarrow> nat \<Rightarrow> int \<Rightarrow> nat \<Rightarrow> int" where
  "predicted BP dp base Nc k = s16 (GSM_MULT_R BP (dp_at dp base k Nc))"

lemma ltp_steps:
  assumes "0 < base" and "40 \<le> Nc" and "n \<le> 40" and "base + 40 \<le> length dp" and "45 \<le> length e"
  shows "fold (ltp_step BP Nc base d) [0..<n] (dp, e) =
    (take base dp @ map (predicted BP dp base Nc) [0..<n] @ drop (base + n) dp,
     take 5 e @ map (\<lambda>k. GSM_SUB (d ! k) (predicted BP dp base Nc k)) [0..<n] @ drop (5 + n) e)"
  using assms(3)
proof (induction n)
  case (Suc n)
  have "drop (base + n) dp = dp ! (base + n) # drop (Suc (base + n)) dp"
    and "drop (5 + n) e = e ! (5 + n) # drop (Suc (5 + n)) e"
    using Suc.prems assms(4,5) Cons_nth_drop_Suc [of "base + n" dp] Cons_nth_drop_Suc [of "5 + n" e] by simp_all
  moreover have "dp_at (take base dp @ zs) base n Nc = dp_at dp base n Nc" for zs
    using Suc.prems assms by (intro dp_at_take) auto
  ultimately show ?case using Suc assms
    by (simp add: ltp_step_def Let_def list_update_append nth_append predicted_def)
qed simp

lemma QLB_gain:
  assumes "0 \<le> bc" and "bc \<le> 3"
  shows "Long_term_analysis_filtering bc Nc base d st = fold (ltp_step (gsm_QLB ! nat bc) Nc base d) [0..<40] st"
proof -
  have "bc \<in> {0, 1, 2, 3}" using assms unfolding insert_iff empty_iff by presburger
  then show ?thesis by (elim insertE emptyE) (simp_all add: Long_term_analysis_filtering_def gsm_QLB_def)
qed

lemma synth_steps:
  assumes "40 \<le> Nr" and "160 \<le> length drp"
  shows "fold (synth_step brp Nr erp) [0..<40] drp =
    take 120 drp @ map (\<lambda>k. GSM_ADD (erp ! k) (predicted brp drp 120 Nr k)) [0..<40] @ drop 160 drp"
proof -
  have "fold (\<lambda>k xs. xs[120 + k := GSM_ADD (erp ! k) (s16 (GSM_MULT_R brp (dp_at xs 120 k Nr)))]) [0..<40] drp =
      take 120 drp @ map (\<lambda>k. GSM_ADD (erp ! k) (predicted brp drp 120 Nr k)) [0..<40] @ drop (120 + 40) drp"
  proof (rule fold_update)
    fix k :: nat assume "k < 40"
    then have "dp_at (take 120 drp @ zs) 120 k Nr = dp_at drp 120 k Nr" for zs
      using assms by (intro dp_at_take) auto
    then show "GSM_ADD (erp ! k) (s16 (GSM_MULT_R brp (dp_at (take 120 drp @
        map (\<lambda>k. GSM_ADD (erp ! k) (predicted brp drp 120 Nr k)) [0..<k] @ drop (120 + k) drp) 120 k Nr))) =
      GSM_ADD (erp ! k) (predicted brp drp 120 Nr k)" by (simp add: predicted_def)
  qed (use assms in simp)
  moreover have "synth_step brp Nr erp = (\<lambda>k xs. xs[120 + k := GSM_ADD (erp ! k) (s16 (GSM_MULT_R brp (dp_at xs 120 k Nr)))])"
    by (simp add: synth_step_def Let_def fun_eq_iff)
  ultimately show ?thesis by simp
qed

lemma shift_steps:
  assumes "160 \<le> length drp"
  shows "fold (\<lambda>k drp. drp[k := drp ! (40 + k)]) [0..<120] drp = take 120 (drop 40 drp) @ drop 120 drp"
proof -
  have "fold (\<lambda>k xs. xs[0 + k := xs ! (40 + k)]) [0..<120] drp = take 0 drp @ map (\<lambda>k. drp ! (40 + k)) [0..<120] @ drop (0 + 120) drp"
    using assms by (intro fold_update) (auto simp: nth_append add.commute)
  moreover have "map (\<lambda>k. drp ! (40 + k)) [0..<120] = take 120 (drop 40 drp)"
    using assms by (intro nth_equalityI) (auto simp: add.commute)
  ultimately show ?thesis by simp
qed

end
