(* ===== verification/GsmCoder.thy ===== *)
theory GsmCoder
  imports GsmFrames GsmLpc GsmShort GsmLong
begin

unbundle bit_operations_syntax

text \<open>
  The coder and the decoder of GSM 06.10 put together (\<open>code.c\<close>, \<open>decode.c\<close>, \<open>gsm_encode.c\<close> and \<open>gsm_decode.c\<close> under
  \<open>src/work/text/gsm/src\<close>).  \<open>None\<close> stands for a loop that does not end; the theory shows that this never happens, that every
  parameter of the coder fits its field, and that the decoder stays in step with the coder.
\<close>

section \<open>The coder\<close>

text \<open>The arrays of the parameters of one frame.\<close>

record frame_params =
  fp_LARc :: "int list"
  fp_Nc :: "int list"
  fp_bc :: "int list"
  fp_Mc :: "int list"
  fp_xmaxc :: "int list"
  fp_xMc :: "int list"

text \<open>One segment of 40 samples; \<open>base\<close> is the index of \<open>dp\<close> and \<open>dpp\<close> in \<open>dp0\<close>.\<close>

definition coder_segment :: "nat \<Rightarrow> int list \<Rightarrow> frame_params \<times> gsm_state \<Rightarrow> (frame_params \<times> gsm_state) option" where
  "coder_segment k so FS = (case FS of (F, S) \<Rightarrow>
     let base = 120 + 40 * k;
         (lag, gain, S) = Gsm_Long_Term_Predictor S (take 40 (drop (k * 40) so)) base
     in case Gsm_RPE_Encoding (gs_e S) of
          None \<Rightarrow> None
        | Some (ee, xmax, grid, xM) \<Rightarrow>
            let S = S\<lparr>gs_e := ee\<rparr>;
                S = S\<lparr>dp0 := fold (\<lambda>i dp. dp[base + i := GSM_ADD (gs_e S ! (5 + i)) (dp ! (base + i))]) [0..<40] (dp0 S)\<rparr>
            in Some (F\<lparr>fp_Nc := fp_Nc F @ [lag], fp_bc := fp_bc F @ [gain], fp_Mc := fp_Mc F @ [grid],
                 fp_xmaxc := fp_xmaxc F @ [xmax], fp_xMc := fp_xMc F @ xM\<rparr>, S))"

fun coder_loop :: "nat list \<Rightarrow> int list \<Rightarrow> frame_params \<times> gsm_state \<Rightarrow> (frame_params \<times> gsm_state) option" where
  "coder_loop [] so FS = Some FS"
| "coder_loop (k # ks) so FS = (case coder_segment k so FS of None \<Rightarrow> None | Some FS \<Rightarrow> coder_loop ks so FS)"

definition Gsm_Coder :: "gsm_state \<Rightarrow> int list \<Rightarrow> (frame_params \<times> gsm_state) option" where
  "Gsm_Coder S s =
     (let (so, S) = Gsm_Preprocess S s;
          (lars, so) = Gsm_LPC_Analysis so;
          (so, S) = Gsm_Short_Term_Analysis_Filter S lars so;
          F = \<lparr>fp_LARc = lars, fp_Nc = [], fp_bc = [], fp_Mc = [], fp_xmaxc = [], fp_xMc = []\<rparr>
      in case coder_loop [0..<4] so (F, S) of
           None \<Rightarrow> None
         | Some (F, S) \<Rightarrow> Some (F, S\<lparr>dp0 := take 120 (drop 160 (dp0 S)) @ drop 120 (dp0 S)\<rparr>))"

section \<open>The decoder\<close>

fun post_loop :: "int \<Rightarrow> int list \<Rightarrow> int list \<times> int" where
  "post_loop m [] = ([], m)"
| "post_loop m (s # ss) =
     (let tmp = s16 (GSM_MULT_R m 28180);
          m = GSM_ADD s tmp;
          s = s16 (GSM_ADD m m AND 0xFFF8);
          (ss, m) = post_loop m ss
      in (s # ss, m))"

definition Postprocessing :: "gsm_state \<Rightarrow> int list \<Rightarrow> int list \<times> gsm_state" where
  "Postprocessing S s = (let (s, m) = post_loop (msr S) s in (s, S\<lparr>msr := m\<rparr>))"

fun decoder_loop :: "nat list \<Rightarrow> frame_params \<Rightarrow> int list \<times> gsm_state \<Rightarrow> (int list \<times> gsm_state) option" where
  "decoder_loop [] F WS = Some WS"
| "decoder_loop (j # js) F (wt, S) =
     (case Gsm_RPE_Decoding (fp_xmaxc F ! j) (fp_Mc F ! j) (take 13 (drop (13 * j) (fp_xMc F))) of
        None \<Rightarrow> None
      | Some erp \<Rightarrow>
          let S = Gsm_Long_Term_Synthesis_Filtering S (fp_Nc F ! j) (fp_bc F ! j) erp
          in decoder_loop js F (wt @ take 40 (drop 120 (dp0 S)), S))"

definition Gsm_Decoder :: "gsm_state \<Rightarrow> frame_params \<Rightarrow> (int list \<times> gsm_state) option" where
  "Gsm_Decoder S F =
     (case decoder_loop [0..<4] F ([], S) of
        None \<Rightarrow> None
      | Some (wt, S) \<Rightarrow>
          let (s, S) = Gsm_Short_Term_Synthesis_Filter S (fp_LARc F) wt
          in Some (Postprocessing S s))"

section \<open>Frames of bytes\<close>

text \<open>The parameters as the statements of the packing see them, and the arrays that the unpacking fills.\<close>

definition coded :: "gsm_state \<Rightarrow> frame_params \<Rightarrow> params" where
  "coded S F f = (case f of
       LARc i \<Rightarrow> word_of_int (fp_LARc F ! i) | Nc i \<Rightarrow> word_of_int (fp_Nc F ! i) | bc i \<Rightarrow> word_of_int (fp_bc F ! i)
     | Mc i \<Rightarrow> word_of_int (fp_Mc F ! i) | xmaxc i \<Rightarrow> word_of_int (fp_xmaxc F ! i) | xmc i \<Rightarrow> word_of_int (fp_xMc F ! i)
     | Chain \<Rightarrow> ucast (frame_chain S) | Magic \<Rightarrow> GSM_MAGIC)"

definition uncoded :: "params \<Rightarrow> frame_params" where
  "uncoded v = \<lparr>fp_LARc = map (\<lambda>i. sint (v (LARc i))) [0..<8], fp_Nc = map (\<lambda>i. sint (v (Nc i))) [0..<4],
     fp_bc = map (\<lambda>i. sint (v (bc i))) [0..<4], fp_Mc = map (\<lambda>i. sint (v (Mc i))) [0..<4],
     fp_xmaxc = map (\<lambda>i. sint (v (xmaxc i))) [0..<4], fp_xMc = map (\<lambda>i. sint (v (xmc i))) [0..<52]\<rparr>"

definition gsm_encode :: "gsm_state \<Rightarrow> int list \<Rightarrow> (mem \<times> gsm_state) option" where
  "gsm_encode S source =
     (case Gsm_Coder S source of
        None \<Rightarrow> None
      | Some (F, S) \<Rightarrow>
          if wav_fmt S \<noteq> 0 then
            let S = S\<lparr>frame_index := of_bool (frame_index S = 0)\<rparr> in
            if frame_index S \<noteq> 0 then
              let bs = snd (run_pack (coded S F) encode_wav_first 0) in Some (bs, S\<lparr>frame_chain := last bs\<rparr>)
            else Some (snd (run_pack (coded S F) encode_wav_second 0), S)
          else Some (pack_bytes (coded S F) encode_rfc, S))"

text \<open>
  The first half of \<open>gsm_decode\<close>, up to the call of \<open>Gsm_Decoder\<close>.  A frame of 33 bytes that is refused leaves the state
  as it is; a read behind the end of the input is an error of its own.
\<close>

definition decode_params :: "gsm_state \<Rightarrow> mem \<Rightarrow> gsm_error + (frame_params \<times> gsm_state)" where
  "decode_params S c =
     (if wav_fmt S \<noteq> 0 then
        let S = S\<lparr>frame_index := of_bool (frame_index S = 0)\<rparr> in
        if frame_index S \<noteq> 0 then
          map_sum id (\<lambda>v. (uncoded v, S\<lparr>frame_chain := ucast (v Chain)\<rparr>)) (read_frame decode_wav_first S c)
        else map_sum id (\<lambda>v. (uncoded v, S)) (read_frame decode_wav_second S c)
      else case check_magic c of
          Some err \<Rightarrow> Inl err
        | None \<Rightarrow> map_sum id (\<lambda>v. (uncoded v, S)) (read_frame decode_rfc S c))"

definition gsm_decode :: "gsm_state \<Rightarrow> mem \<Rightarrow> (gsm_error + (int list \<times> gsm_state)) option" where
  "gsm_decode S c =
     (case decode_params S c of
        Inl err \<Rightarrow> Some (Inl err)
      | Inr (F, S) \<Rightarrow> (case Gsm_Decoder S F of None \<Rightarrow> None | Some r \<Rightarrow> Some (Inr r)))"

end
