(* ===== verification/GsmSync.thy ===== *)
theory GsmSync
  imports GsmCoder "HOL-Library.Sublist"
begin

unbundle bit_operations_syntax

text \<open>
  The decoder follows the coder (\<open>code.c\<close> and \<open>decode.c\<close> under \<open>src/work/text/gsm/src\<close>): the coder contains a copy of the
  decoder's long term filter, and predicts from the same reconstructed history.  The theory proves that both histories
  and both sets of interpolated coefficients are equal after every frame, that all parameters fit their fields, and
  that no loop of the codec runs forever.
\<close>

section \<open>Codes in their ranges\<close>

definition codes_ok :: "nat \<Rightarrow> frame_params \<Rightarrow> bool" where
  "codes_ok n F \<longleftrightarrow> length (fp_Nc F) = n \<and> length (fp_bc F) = n \<and> length (fp_Mc F) = n \<and> length (fp_xmaxc F) = n \<and>
     length (fp_xMc F) = 13 * n \<and> (\<forall>x \<in> set (fp_Nc F). 40 \<le> x \<and> x \<le> 120) \<and> (\<forall>x \<in> set (fp_bc F). 0 \<le> x \<and> x \<le> 3) \<and>
     (\<forall>x \<in> set (fp_Mc F). 0 \<le> x \<and> x \<le> 3) \<and> (\<forall>x \<in> set (fp_xmaxc F). 0 \<le> x \<and> x \<le> 63) \<and>
     (\<forall>x \<in> set (fp_xMc F). 0 \<le> x \<and> x \<le> 7)"

definition lars_ok :: "int list \<Rightarrow> bool" where
  "lars_ok lars \<longleftrightarrow> list_all2 (\<lambda>x m. 0 \<le> x \<and> x < m) lars [64, 64, 32, 32, 16, 16, 8, 8]"

definition codes_prefix :: "frame_params \<Rightarrow> frame_params \<Rightarrow> bool" where
  "codes_prefix F G \<longleftrightarrow> fp_LARc G = fp_LARc F \<and> prefix (fp_Nc F) (fp_Nc G) \<and> prefix (fp_bc F) (fp_bc G) \<and>
     prefix (fp_Mc F) (fp_Mc G) \<and> prefix (fp_xmaxc F) (fp_xmaxc G) \<and> prefix (fp_xMc F) (fp_xMc G)"

lemma codes_prefix_trans: "codes_prefix F G \<Longrightarrow> codes_prefix G H \<Longrightarrow> codes_prefix F H"
  by (auto simp: codes_prefix_def intro: prefix_order.trans)

lemma quantize_range:
  "MIC \<le> MAC \<Longrightarrow> MAC - MIC < m \<Longrightarrow> 0 \<le> quantize (A, B, MAC, MIC) x \<and> quantize (A, B, MAC, MIC) x < m"
  by (auto simp: quantize_def Let_def)

lemma length_reflection_loop: "length (reflection_loop k P K) = k"
  by (induction k arbitrary: P K) (simp_all add: Let_def case_prod_beta)

lemma LPC_lars:
  assumes "Gsm_LPC_Analysis s = (lars, so)"
  shows "lars_ok lars"
proof -
  have "length (Reflection_coefficients L) = 8" for L
    by (simp add: Reflection_coefficients_def Let_def length_reflection_loop)
  moreover have "lars_ok (Quantization_and_coding xs)" if "length xs = 8" for xs
  proof -
    obtain x0 x1 x2 x3 x4 x5 x6 x7 where "xs = [x0, x1, x2, x3, x4, x5, x6, x7]"
      using \<open>length xs = 8\<close> by (auto simp: length_Suc_conv numeral_eq_Suc)
    then show ?thesis
      by (simp only: Quantization_and_coding_def quantizers_def lars_ok_def list.map zip_Cons_Cons zip_Nil prod.case list_all2_Cons)
        (intro conjI quantize_range; simp)
  qed
  ultimately show ?thesis using assms
    by (auto simp: Gsm_LPC_Analysis_def Let_def Transformation_to_Log_Area_Ratios_def case_prod_beta)
qed

lemma lars_ok_length: "lars_ok lars \<Longrightarrow> length lars = 8"
  by (auto simp: lars_ok_def dest: list_all2_lengthD)

section \<open>One segment\<close>

text \<open>What a segment leaves in the history, in both programs.\<close>

definition rebuilt :: "int list \<Rightarrow> int \<Rightarrow> int \<Rightarrow> int list \<Rightarrow> nat \<Rightarrow> int list" where
  "rebuilt ep lag gain dp base = map (\<lambda>i. GSM_ADD (ep ! i) (predicted (gsm_QLB ! nat gain) dp base lag i)) [0..<40]"

lemma length_rebuilt [simp]: "length (rebuilt ep lag gain dp base) = 40"
  by (simp add: rebuilt_def)

lemma coder_segment_codes:
  assumes "length (dp0 S) = 280" and "length (gs_e S) = 50" and "k < 4"
  obtains lag gain grid xmax xM ep ee where
    "coder_segment k so (F, S) = Some (F\<lparr>fp_Nc := fp_Nc F @ [lag], fp_bc := fp_bc F @ [gain], fp_Mc := fp_Mc F @ [grid],
       fp_xmaxc := fp_xmaxc F @ [xmax], fp_xMc := fp_xMc F @ xM\<rparr>,
       S\<lparr>gs_e := ee, dp0 := take (120 + 40 * k) (dp0 S) @ rebuilt ep lag gain (dp0 S) (120 + 40 * k) @ drop (160 + 40 * k) (dp0 S)\<rparr>)"
    and "length ee = 50" and "40 \<le> lag" and "lag \<le> 120" and "0 \<le> gain" and "gain \<le> 3"
    and "Gsm_RPE_Decoding xmax grid xM = Some ep" and "length ep = 40" and "0 \<le> grid" and "grid \<le> 3"
    and "0 \<le> xmax" and "xmax \<le> 63" and "length xM = 13" and "\<forall>c \<in> set xM. 0 \<le> c \<and> c \<le> 7"
proof -
  define base where "base = 120 + 40 * k"
  define d where "d = take 40 (drop (k * 40) so)"
  obtain lag gain where lg: "Calculation_of_the_LTP_parameters d (dp0 S) base = (lag, gain)" by fastforce
  have r: "40 \<le> lag" "lag \<le> 120" "0 \<le> gain" "gain \<le> 3" using LTP_range [OF lg] by auto
  define P where "P = predicted (gsm_QLB ! nat gain) (dp0 S) base lag"
  define A where "A = take base (dp0 S) @ map P [0..<40] @ drop (base + 40) (dp0 S)"
  define E where "E = take 5 (gs_e S) @ map (\<lambda>i. GSM_SUB (d ! i) (P i)) [0..<40] @ drop 45 (gs_e S)"
  have "fold (ltp_step (gsm_QLB ! nat gain) lag base d) [0..<40] (dp0 S, gs_e S) = (A, E)"
    using ltp_steps [of base lag 40 "dp0 S" "gs_e S"] assms r(1) by (simp add: A_def E_def P_def base_def)
  then have pred: "Gsm_Long_Term_Predictor S d base = (lag, gain, S\<lparr>dp0 := A, gs_e := E\<rparr>)"
    using r by (simp add: Gsm_Long_Term_Predictor_def lg QLB_gain)
  obtain ep xmax grid xM where rpe: "Gsm_RPE_Encoding E = Some (take 5 E @ ep @ drop 45 E, xmax, grid, xM)"
    "Gsm_RPE_Decoding xmax grid xM = Some ep" "length ep = 40" "0 \<le> xmax" "xmax \<le> 63" "0 \<le> grid" "grid \<le> 3"
    "length xM = 13" "\<forall>c \<in> set xM. 0 \<le> c \<and> c \<le> 7" using rpe_codes [of E] by blast
  define ee where "ee = take 5 E @ ep @ drop 45 E"
  have len: "length E = 50" "length A = 280" using assms by (simp_all add: E_def A_def base_def)
  have e: "ee ! (5 + i) = ep ! i" if "i < 40" for i using that len rpe(3) by (simp add: ee_def nth_append)
  have "fold (\<lambda>i dp. dp[base + i := GSM_ADD (ee ! (5 + i)) (dp ! (base + i))]) [0..<40] A =
      take base A @ map (\<lambda>i. GSM_ADD (ep ! i) (P i)) [0..<40] @ drop (base + 40) A"
  proof (rule fold_update)
    fix i :: nat assume i: "i < 40"
    have "A ! (base + i) = P i" using i assms by (simp add: A_def base_def nth_append)
    then show "GSM_ADD (ee ! (5 + i)) ((take base A @ map (\<lambda>i. GSM_ADD (ep ! i) (P i)) [0..<i] @ drop (base + i) A) ! (base + i)) =
        GSM_ADD (ep ! i) (P i)"
      using i len assms(3) by (simp add: e nth_append base_def)
  qed (use len assms(3) in \<open>simp add: base_def\<close>)
  also have "\<dots> = take base (dp0 S) @ rebuilt ep lag gain (dp0 S) base @ drop (base + 40) (dp0 S)"
    using assms by (simp add: A_def rebuilt_def P_def base_def)
  finally have step: "coder_segment k so (F, S) = Some (F\<lparr>fp_Nc := fp_Nc F @ [lag], fp_bc := fp_bc F @ [gain], fp_Mc := fp_Mc F @ [grid],
       fp_xmaxc := fp_xmaxc F @ [xmax], fp_xMc := fp_xMc F @ xM\<rparr>,
       S\<lparr>gs_e := ee, dp0 := take base (dp0 S) @ rebuilt ep lag gain (dp0 S) base @ drop (160 + 40 * k) (dp0 S)\<rparr>)"
    using pred rpe(1) by (simp add: coder_segment_def Let_def base_def [symmetric] d_def [symmetric] ee_def [symmetric])
      (simp add: base_def)
  have "length ee = 50" using len rpe(3) by (simp add: ee_def)
  from that [OF step [unfolded base_def] this r rpe(2,3,6,7,4,5,8,9)] show ?thesis .
qed

lemma decoder_segment_history:
  assumes "160 \<le> length (dp0 T)" and "40 \<le> lag" and "lag \<le> 120"
  shows "\<exists>dp. Gsm_Long_Term_Synthesis_Filtering T lag gain ep = T\<lparr>nrp := lag, dp0 := dp\<rparr> \<and> length dp = length (dp0 T) \<and>
    take 120 dp = drop 40 (take 120 (dp0 T)) @ rebuilt ep lag gain (dp0 T) 120"
proof -
  define drp where "drp = take 120 (dp0 T) @ rebuilt ep lag gain (dp0 T) 120 @ drop 160 (dp0 T)"
  have len: "length drp = length (dp0 T)" using assms(1) by (simp add: drp_def rebuilt_def)
  have "fold (synth_step (gsm_QLB ! nat gain) lag ep) [0..<40] (dp0 T) = drp"
    using synth_steps [OF assms(2,1)] by (simp add: drp_def rebuilt_def)
  then have "Gsm_Long_Term_Synthesis_Filtering T lag gain ep = T\<lparr>nrp := lag, dp0 := take 120 (drop 40 drp) @ drop 120 drp\<rparr>"
    using assms shift_steps [of drp] len by (simp add: Gsm_Long_Term_Synthesis_Filtering_def Let_def)
  moreover have "take 120 (drop 40 drp) = drop 40 (take 120 (dp0 T)) @ rebuilt ep lag gain (dp0 T) 120"
    using assms(1) by (simp add: drp_def rebuilt_def)
  ultimately show ?thesis using len assms(1)
    by (intro exI [of _ "take 120 (drop 40 drp) @ drop 120 drp"]) simp
qed

lemma rebuilt_same:
  assumes "take 120 (drop b dp) = take 120 dp'" and "b + 120 \<le> length dp" and "120 \<le> length dp'"
    and "40 \<le> lag" and "lag \<le> 120"
  shows "rebuilt ep lag gain dp (120 + b) = rebuilt ep lag gain dp' 120"
proof -
  have "dp_at dp (120 + b) i lag = dp_at dp' 120 i lag" if "i < 40" for i
  proof -
    define j where "j = nat (120 + int i - lag)"
    have j: "j < 120" "nat (int (120 + b) + int i - lag) = b + j" "nat (int 120 + int i - lag) = j"
      using that assms(4,5) by (auto simp: j_def)
    have "dp ! (b + j) = take 120 (drop b dp) ! j" using j(1) assms(2) by simp
    also have "\<dots> = dp' ! j" using j(1) assms(1,3) by simp
    finally show ?thesis by (simp only: dp_at_def j)
  qed
  then show ?thesis by (simp add: rebuilt_def predicted_def)
qed

section \<open>A frame\<close>

text \<open>The history before segment \<open>k\<close>: the coder moves through its array, the decoder moves the array.\<close>

definition same_history :: "nat \<Rightarrow> gsm_state \<Rightarrow> gsm_state \<Rightarrow> bool" where
  "same_history k S T \<longleftrightarrow> length (dp0 S) = 280 \<and> length (dp0 T) = 280 \<and> length (gs_e S) = 50 \<and>
     take 120 (drop (40 * k) (dp0 S)) = take 120 (dp0 T)"

lemma prefix_nth_at: "prefix (xs @ [x]) ys \<Longrightarrow> length xs = n \<Longrightarrow> ys ! n = x"
  by (auto simp: prefix_def nth_append)

lemma history_moves:
  assumes "b + 160 \<le> length H" and "length R = 40"
  shows "take 120 (drop (b + 40) (take (120 + b) H @ R @ Z)) = drop 40 (take 120 (drop b H)) @ R"
proof -
  have "drop (b + 40) (take (120 + b) H) = drop 40 (take 120 (drop b H))" by (simp add: drop_take add.commute)
  moreover have "length (drop (b + 40) (take (120 + b) H)) = 80" using assms(1) by simp
  moreover have "drop (b + 40) (take (120 + b) H @ R @ Z) = drop (b + 40) (take (120 + b) H) @ R @ Z"
    using assms(1) by simp
  ultimately show ?thesis using assms(2) by simp
qed

lemma same_state: "\<exists>dp ee. S = S\<lparr>gs_e := ee, dp0 := dp\<rparr>"
  by (rule exI [of _ "dp0 S"], rule exI [of _ "gs_e S"]) simp

lemma segment_in_step:
  assumes "same_history k S T" and "k < 4" and "codes_ok k F"
  shows "\<exists>F' S'. coder_segment k so (F, S) = Some (F', S') \<and> codes_ok (Suc k) F' \<and> codes_prefix F F' \<and>
    (\<exists>dp ee. S' = S\<lparr>gs_e := ee, dp0 := dp\<rparr>) \<and>
    (\<forall>G wt. codes_prefix F' G \<longrightarrow> (\<exists>n dp. same_history (Suc k) S' (T\<lparr>nrp := n, dp0 := dp\<rparr>) \<and> (\<forall>js.
       decoder_loop (k # js) G (wt, T) = decoder_loop js G (wt @ take 40 (drop 120 dp), T\<lparr>nrp := n, dp0 := dp\<rparr>))))"
proof -
  have len: "length (dp0 S) = 280" "length (gs_e S) = 50" "length (dp0 T) = 280"
    and hist: "take 120 (drop (40 * k) (dp0 S)) = take 120 (dp0 T)" using assms(1) by (simp_all add: same_history_def)
  obtain lag gain grid xmax xM ep ee where c:
    "coder_segment k so (F, S) = Some (F\<lparr>fp_Nc := fp_Nc F @ [lag], fp_bc := fp_bc F @ [gain], fp_Mc := fp_Mc F @ [grid],
       fp_xmaxc := fp_xmaxc F @ [xmax], fp_xMc := fp_xMc F @ xM\<rparr>,
       S\<lparr>gs_e := ee, dp0 := take (120 + 40 * k) (dp0 S) @ rebuilt ep lag gain (dp0 S) (120 + 40 * k) @ drop (160 + 40 * k) (dp0 S)\<rparr>)"
    "length ee = 50" "40 \<le> lag" "lag \<le> 120" "0 \<le> gain" "gain \<le> 3" "Gsm_RPE_Decoding xmax grid xM = Some ep"
    "length ep = 40" "0 \<le> grid" "grid \<le> 3" "0 \<le> xmax" "xmax \<le> 63" "length xM = 13" "\<forall>c \<in> set xM. 0 \<le> c \<and> c \<le> 7"
    by (rule coder_segment_codes [OF len(1,2) assms(2)])
  define F' where "F' = F\<lparr>fp_Nc := fp_Nc F @ [lag], fp_bc := fp_bc F @ [gain], fp_Mc := fp_Mc F @ [grid],
       fp_xmaxc := fp_xmaxc F @ [xmax], fp_xMc := fp_xMc F @ xM\<rparr>"
  define D where "D = take (120 + 40 * k) (dp0 S) @ rebuilt ep lag gain (dp0 S) (120 + 40 * k) @ drop (160 + 40 * k) (dp0 S)"
  obtain dp where d: "Gsm_Long_Term_Synthesis_Filtering T lag gain ep = T\<lparr>nrp := lag, dp0 := dp\<rparr>" "length dp = length (dp0 T)"
    "take 120 dp = drop 40 (take 120 (dp0 T)) @ rebuilt ep lag gain (dp0 T) 120"
    using decoder_segment_history [of T lag gain ep] len(3) c(3,4) by auto
  have same: "rebuilt ep lag gain (dp0 S) (120 + 40 * k) = rebuilt ep lag gain (dp0 T) 120"
    using len assms(2) c(3,4) hist by (intro rebuilt_same) auto
  have "take 120 (drop (40 * Suc k) D) = drop 40 (take 120 (drop (40 * k) (dp0 S))) @ rebuilt ep lag gain (dp0 S) (120 + 40 * k)"
    using history_moves [of "40 * k" "dp0 S" "rebuilt ep lag gain (dp0 S) (120 + 40 * k)"] len assms(2)
    by (simp add: D_def add.commute)
  then have history: "same_history (Suc k) (S\<lparr>gs_e := ee, dp0 := D\<rparr>) (T\<lparr>nrp := lag, dp0 := dp\<rparr>)"
    using len d(2,3) hist same c(2) assms(2) by (simp add: same_history_def D_def)
  have ok: "codes_ok (Suc k) F'" using assms(3) c by (auto simp: codes_ok_def F'_def)
  have pre: "codes_prefix F F'" by (simp add: codes_prefix_def F'_def)
  have "decoder_loop (k # js) G (wt, T) = decoder_loop js G (wt @ take 40 (drop 120 dp), T\<lparr>nrp := lag, dp0 := dp\<rparr>)"
    if G: "codes_prefix F' G" for G wt js
  proof -
    have at: "fp_xmaxc G ! k = xmax" "fp_Mc G ! k = grid" "fp_Nc G ! k = lag" "fp_bc G ! k = gain"
      using G assms(3) by (auto simp: codes_prefix_def F'_def codes_ok_def intro: prefix_nth_at)
    have "take 13 (drop (13 * k) (fp_xMc G)) = xM"
      using G assms(3) c(13) by (auto simp: codes_prefix_def F'_def codes_ok_def prefix_def)
    then show ?thesis using at c(7) d(1) by (simp add: Let_def)
  qed
  with c(1) ok pre history show ?thesis unfolding F'_def [symmetric] D_def [symmetric] by blast
qed

lemma frame_in_step:
  assumes "same_history k S T" and "k + n \<le> 4" and "codes_ok k F"
  shows "\<exists>F' S'. coder_loop [k..<k + n] so (F, S) = Some (F', S') \<and> codes_ok (k + n) F' \<and> codes_prefix F F' \<and>
    (\<exists>dp ee. S' = S\<lparr>gs_e := ee, dp0 := dp\<rparr>) \<and>
    (\<forall>G wt. codes_prefix F' G \<longrightarrow> (\<exists>m dp ws. length ws = 40 * n \<and> same_history (k + n) S' (T\<lparr>nrp := m, dp0 := dp\<rparr>) \<and>
       decoder_loop [k..<k + n] G (wt, T) = Some (wt @ ws, T\<lparr>nrp := m, dp0 := dp\<rparr>)))"
  using assms
proof (induction n arbitrary: k S T F)
  case 0
  have "\<exists>m dp ws. length ws = 40 * 0 \<and> same_history (k + 0) S (T\<lparr>nrp := m, dp0 := dp\<rparr>) \<and>
      decoder_loop [k..<k + 0] G (wt, T) = Some (wt @ ws, T\<lparr>nrp := m, dp0 := dp\<rparr>)" for G wt
    by (rule exI [of _ "nrp T"], rule exI [of _ "dp0 T"]) (use 0 in simp)
  then show ?case using 0 by (intro exI [of _ F] exI [of _ S]) (simp add: codes_prefix_def same_state)
next
  case (Suc n)
  have "k < 4" using Suc.prems(2) by simp
  have ks: "[k..<k + Suc n] = k # [Suc k..<Suc k + n]" by (simp add: upt_rec)
  obtain F1 S1 where s: "coder_segment k so (F, S) = Some (F1, S1)" "codes_ok (Suc k) F1" "codes_prefix F F1"
    "\<exists>dp ee. S1 = S\<lparr>gs_e := ee, dp0 := dp\<rparr>"
    "\<And>G wt. codes_prefix F1 G \<Longrightarrow> \<exists>n dp. same_history (Suc k) S1 (T\<lparr>nrp := n, dp0 := dp\<rparr>) \<and> (\<forall>js.
       decoder_loop (k # js) G (wt, T) = decoder_loop js G (wt @ take 40 (drop 120 dp), T\<lparr>nrp := n, dp0 := dp\<rparr>))"
    using segment_in_step [OF Suc.prems(1) \<open>k < 4\<close> Suc.prems(3), of so] by blast
  obtain n0 dp1 where h1: "same_history (Suc k) S1 (T\<lparr>nrp := n0, dp0 := dp1\<rparr>)"
    using s(5) [of F1 "[]"] by (auto simp: codes_prefix_def)
  have "Suc k + n \<le> 4" using Suc.prems(2) by simp
  from Suc.IH [OF h1 this s(2)] obtain F' S' where
    r: "coder_loop [Suc k..<Suc k + n] so (F1, S1) = Some (F', S')" "codes_ok (Suc k + n) F'" "codes_prefix F1 F'"
      "\<exists>dp ee. S' = S1\<lparr>gs_e := ee, dp0 := dp\<rparr>" by blast
  have dec: "\<exists>m dp ws. length ws = 40 * Suc n \<and> same_history (k + Suc n) S' (T\<lparr>nrp := m, dp0 := dp\<rparr>) \<and>
       decoder_loop [k..<k + Suc n] G (wt, T) = Some (wt @ ws, T\<lparr>nrp := m, dp0 := dp\<rparr>)" if G: "codes_prefix F' G" for G wt
  proof -
    from s(5) [OF codes_prefix_trans [OF r(3) G], of wt] obtain m1 d1 where
      1: "same_history (Suc k) S1 (T\<lparr>nrp := m1, dp0 := d1\<rparr>)"
        "\<And>js. decoder_loop (k # js) G (wt, T) = decoder_loop js G (wt @ take 40 (drop 120 d1), T\<lparr>nrp := m1, dp0 := d1\<rparr>)" by blast
    from Suc.IH [OF 1(1) \<open>Suc k + n \<le> 4\<close> s(2)] r(1)
    have "\<forall>G wt. codes_prefix F' G \<longrightarrow> (\<exists>m dp ws. length ws = 40 * n \<and>
        same_history (Suc k + n) S' (T\<lparr>nrp := m1, dp0 := d1, nrp := m, dp0 := dp\<rparr>) \<and>
        decoder_loop [Suc k..<Suc k + n] G (wt, T\<lparr>nrp := m1, dp0 := d1\<rparr>) =
          Some (wt @ ws, T\<lparr>nrp := m1, dp0 := d1, nrp := m, dp0 := dp\<rparr>))" by auto
    from this [rule_format, OF G, of "wt @ take 40 (drop 120 d1)"] obtain m dp ws where
      "length ws = 40 * n" "same_history (Suc k + n) S' (T\<lparr>nrp := m, dp0 := dp\<rparr>)"
      "decoder_loop [Suc k..<Suc k + n] G (wt @ take 40 (drop 120 d1), T\<lparr>nrp := m1, dp0 := d1\<rparr>) =
        Some ((wt @ take 40 (drop 120 d1)) @ ws, T\<lparr>nrp := m, dp0 := dp\<rparr>)" by auto
    moreover have "length (take 40 (drop 120 d1)) = 40" using 1(1) by (simp add: same_history_def)
    ultimately show ?thesis unfolding ks 1(2)
      by (intro exI [of _ m] exI [of _ dp] exI [of _ "take 40 (drop 120 d1) @ ws"]) simp
  qed
  obtain a b c d where "S1 = S\<lparr>gs_e := a, dp0 := b\<rparr>" "S' = S1\<lparr>gs_e := c, dp0 := d\<rparr>" using s(4) r(4) by blast
  then have "S' = S\<lparr>gs_e := c, dp0 := d\<rparr>" by simp
  then have "\<exists>dp ee. S' = S\<lparr>gs_e := ee, dp0 := dp\<rparr>" by blast
  moreover have "coder_loop [k..<k + Suc n] so (F, S) = Some (F', S')" unfolding ks using s(1) r(1) by simp
  moreover have "codes_ok (k + Suc n) F'" using r(2) by simp
  moreover have "codes_prefix F F'" by (rule codes_prefix_trans [OF s(3) r(3)])
  ultimately show ?case using dec by blast
qed

section \<open>The filters of a frame\<close>

lemma preprocess_rest: "\<exists>z l m. snd (Gsm_Preprocess S s) = S\<lparr>z1 := z, L_z2 := l, gs_mp := m\<rparr>"
  unfolding Gsm_Preprocess_def by (cases "preprocess_loop s (z1 S, L_z2 S, s16 (gs_mp S))") (auto simp: Let_def)

lemma analysis_rest:
  "\<exists>u. snd (Gsm_Short_Term_Analysis_Filter S lars s) =
     S\<lparr>gs_j := gs_j S XOR 1, LARpp := (LARpp S)[gs_j S := Decoding_of_the_coded_Log_Area_Ratios lars], gs_u := u\<rparr>"
  by (simp add: Gsm_Short_Term_Analysis_Filter_def Short_term_analysis_filtering_def Let_def case_prod_beta) blast

lemma synthesis_rest:
  "\<exists>v. snd (Gsm_Short_Term_Synthesis_Filter S lars wt) =
     S\<lparr>gs_j := gs_j S XOR 1, LARpp := (LARpp S)[gs_j S := Decoding_of_the_coded_Log_Area_Ratios lars], gs_v := v\<rparr>"
  by (simp add: Gsm_Short_Term_Synthesis_Filter_def Short_term_synthesis_filtering_def Let_def case_prod_beta) blast

lemma length_synthesis_loop: "length (fst (synthesis_loop rrp wt v)) = length wt"
  by (induction rrp wt v rule: synthesis_loop.induct) (simp_all add: Let_def case_prod_beta)

lemma length_synthesis: "length wt = 160 \<Longrightarrow> length (fst (Gsm_Short_Term_Synthesis_Filter S lars wt)) = 160"
  by (simp add: Gsm_Short_Term_Synthesis_Filter_def Short_term_synthesis_filtering_def Let_def case_prod_beta length_synthesis_loop)

lemma s16_mod8: "s16 (k * 8) mod 8 = 0"
proof -
  have "s16 (k * 8) = k * 8 - (k * 8 + 32768) div 65536 * 65536"
    unfolding s16_def minus_div_mult_eq_mod [symmetric] by simp
  also have "\<dots> = 8 * (k - (k * 8 + 32768) div 65536 * 8192)" by (simp add: right_diff_distrib)
  finally show ?thesis by (metis mod_mult_self1_is_0)
qed

lemma truncated: "is_word (s16 (x AND 0xFFF8)) \<and> s16 (x AND 0xFFF8) mod 8 = 0"
proof -
  have eq: "(0xFFF8 :: int) = push_bit 3 (mask 13)" by (simp add: mask_eq_exp_minus_1 push_bit_eq_mult)
  have "x AND 0xFFF8 = x div 8 mod 8192 * 8"
    unfolding eq and_high_mask by (simp add: take_bit_eq_mod drop_bit_eq_div push_bit_eq_mult)
  then show ?thesis using s16_range s16_mod8 by simp
qed

lemma post_loop_result:
  "length (fst (post_loop m s)) = length s \<and> (\<forall>x \<in> set (fst (post_loop m s)). is_word x \<and> x mod 8 = 0)"
proof (induction s arbitrary: m)
  case (Cons s ss)
  define m1 where "m1 = GSM_ADD s (s16 (GSM_MULT_R m 28180))"
  obtain ss' m2 where p: "post_loop m1 ss = (ss', m2)" by fastforce
  then have "post_loop m (s # ss) = (s16 (GSM_ADD m1 m1 AND 0xFFF8) # ss', m2)"
    by (simp only: post_loop.simps Let_def m1_def [symmetric] p prod.case)
  then show ?case using Cons.IH [of m1] truncated [of "GSM_ADD m1 m1"] p by (simp only: fst_conv) auto
qed simp

section \<open>A coder and a decoder in step\<close>

definition in_step :: "gsm_state \<Rightarrow> gsm_state \<Rightarrow> bool" where
  "in_step S T \<longleftrightarrow> same_history 0 S T \<and> gs_j T = gs_j S \<and> LARpp T = LARpp S \<and> wav_fmt S = 0 \<and> wav_fmt T = 0"

lemma coder_in_step:
  assumes "in_step S T"
  shows "\<exists>F S'. Gsm_Coder S s = Some (F, S') \<and> codes_ok 4 F \<and> lars_ok (fp_LARc F) \<and> wav_fmt S' = 0 \<and>
    (\<exists>r T'. Gsm_Decoder T F = Some (r, T') \<and> length r = 160 \<and> (\<forall>x \<in> set r. is_word x \<and> x mod 8 = 0) \<and> in_step S' T')"
proof -
  obtain so0 z l m where p: "Gsm_Preprocess S s = (so0, S\<lparr>z1 := z, L_z2 := l, gs_mp := m\<rparr>)"
    using preprocess_rest [of S s] by (cases "Gsm_Preprocess S s") auto
  obtain lars so1 where lpc: "Gsm_LPC_Analysis so0 = (lars, so1)" by fastforce
  have lars: "lars_ok lars" by (rule LPC_lars [OF lpc])
  let ?q = "Decoding_of_the_coded_Log_Area_Ratios lars"
  define S1 where "S1 = S\<lparr>z1 := z, L_z2 := l, gs_mp := m\<rparr>"
  obtain so u where st: "Gsm_Short_Term_Analysis_Filter S1 lars so1 =
      (so, S1\<lparr>gs_j := gs_j S1 XOR 1, LARpp := (LARpp S1)[gs_j S1 := ?q], gs_u := u\<rparr>)"
    using analysis_rest [of S1 lars so1] by (cases "Gsm_Short_Term_Analysis_Filter S1 lars so1") auto
  define S2 where "S2 = S1\<lparr>gs_j := gs_j S1 XOR 1, LARpp := (LARpp S1)[gs_j S1 := ?q], gs_u := u\<rparr>"
  define F0 where "F0 = \<lparr>fp_LARc = lars, fp_Nc = [], fp_bc = [], fp_Mc = [], fp_xmaxc = [], fp_xMc = []\<rparr>"
  have h: "same_history 0 S2 T" using assms by (simp add: in_step_def same_history_def S2_def S1_def)
  have ok0: "codes_ok 0 F0" by (simp add: codes_ok_def F0_def)
  have four: "0 + 4 \<le> (4 :: nat)" by simp
  obtain F S3 where c: "coder_loop [0..<4] so (F0, S2) = Some (F, S3)" "codes_ok 4 F" "codes_prefix F0 F"
      "\<exists>dp ee. S3 = S2\<lparr>gs_e := ee, dp0 := dp\<rparr>"
      "\<And>G wt. codes_prefix F G \<Longrightarrow> \<exists>m dp ws. length ws = 40 * 4 \<and> same_history 4 S3 (T\<lparr>nrp := m, dp0 := dp\<rparr>) \<and>
       decoder_loop [0..<4] G (wt, T) = Some (wt @ ws, T\<lparr>nrp := m, dp0 := dp\<rparr>)"
    using frame_in_step [OF h four ok0, of so, unfolded add_0] by blast
  define S4 where "S4 = S3\<lparr>dp0 := take 120 (drop 160 (dp0 S3)) @ drop 120 (dp0 S3)\<rparr>"
  have coder: "Gsm_Coder S s = Some (F, S4)"
    unfolding Gsm_Coder_def p [folded S1_def] Let_def prod.case lpc st [folded S2_def] F0_def [symmetric] c(1) option.case S4_def ..
  have F: "fp_LARc F = lars" using c(3) by (simp add: codes_prefix_def F0_def)
  have "codes_prefix F F" by (simp add: codes_prefix_def)
  from c(5) [OF this, of "[]"] obtain m' dp ws where
    d: "length ws = 160" "same_history 4 S3 (T\<lparr>nrp := m', dp0 := dp\<rparr>)"
      "decoder_loop [0..<4] F ([], T) = Some (ws, T\<lparr>nrp := m', dp0 := dp\<rparr>)" by auto
  define T1 where "T1 = T\<lparr>nrp := m', dp0 := dp\<rparr>"
  obtain sr v where sy: "Gsm_Short_Term_Synthesis_Filter T1 lars ws =
      (sr, T1\<lparr>gs_j := gs_j T1 XOR 1, LARpp := (LARpp T1)[gs_j T1 := ?q], gs_v := v\<rparr>)" "length sr = 160"
    using synthesis_rest [of T1 lars ws] length_synthesis [OF d(1), of T1 lars]
    by (cases "Gsm_Short_Term_Synthesis_Filter T1 lars ws") auto
  define T2 where "T2 = T1\<lparr>gs_j := gs_j T1 XOR 1, LARpp := (LARpp T1)[gs_j T1 := ?q], gs_v := v\<rparr>"
  obtain r m2 where po: "post_loop (msr T2) sr = (r, m2)" by fastforce
  have dec: "Gsm_Decoder T F = Some (r, T2\<lparr>msr := m2\<rparr>)"
    unfolding Gsm_Decoder_def d(3) [folded T1_def] option.case prod.case F sy(1) [folded T2_def] Let_def Postprocessing_def po ..
  have r: "length r = 160 \<and> (\<forall>x \<in> set r. is_word x \<and> x mod 8 = 0)"
    using post_loop_result [of "msr T2" sr] po sy(2) by simp
  have "in_step S4 (T2\<lparr>msr := m2\<rparr>)"
    using assms d(2) c(4) by (auto simp: in_step_def same_history_def S4_def T2_def T1_def S2_def S1_def)
  moreover have "wav_fmt S4 = 0" using assms c(4) by (auto simp: in_step_def S4_def S2_def S1_def)
  ultimately show ?thesis using coder c(2) lars F dec r by blast
qed

section \<open>Frames of bytes\<close>

lemma encode_implode:
  "encode_rfc = implode_rfc" "encode_wav_first = implode_wav_first" "encode_wav_second = implode_wav_second"
  by (simp_all only: encode_rfc_def implode_rfc_def encode_wav_first_def implode_wav_first_def encode_wav_second_def
      implode_wav_second_def)

lemma decode_explode:
  "decode_rfc = explode_rfc" "decode_wav_first = explode_wav_first" "decode_wav_second = explode_wav_second"
  by (simp_all only: decode_rfc_def explode_rfc_def decode_wav_first_def explode_wav_first_def decode_wav_second_def
      explode_wav_second_def)

text \<open>The parameters of a frame, as integers.\<close>

definition code_at :: "frame_params \<Rightarrow> field \<Rightarrow> int" where
  "code_at F f = (case f of
       LARc i \<Rightarrow> fp_LARc F ! i | Nc i \<Rightarrow> fp_Nc F ! i | bc i \<Rightarrow> fp_bc F ! i | Mc i \<Rightarrow> fp_Mc F ! i
     | xmaxc i \<Rightarrow> fp_xmaxc F ! i | xmc i \<Rightarrow> fp_xMc F ! i | _ \<Rightarrow> 0)"

lemma frame_field_cases:
  assumes "f \<in> set frame_fields"
  obtains i where "f = LARc i" "i < 8" | k where "f \<in> {Nc k, bc k, Mc k, xmaxc k}" "k < 4" | j where "f = xmc j" "j < 52"
  using assms by (auto simp: frame_fields_def)

lemma code_fits:
  assumes "codes_ok 4 F" and "lars_ok (fp_LARc F)" and "f \<in> set frame_fields"
  shows "coded S F f = word_of_int (code_at F f) \<and> 0 \<le> code_at F f \<and> code_at F f < 2 ^ field_width f"
  using assms(3)
proof (cases rule: frame_field_cases)
  case (1 i)
  have all: "list_all2 (\<lambda>x m. 0 \<le> x \<and> x < m) (fp_LARc F) [64, 64, 32, 32, 16, 16, 8, 8]"
    using assms(2) by (simp add: lars_ok_def)
  have "i \<in> {0, 1, 2, 3, 4, 5, 6, 7}" using 1(2) by auto
  then show ?thesis using list_all2_nthD2 [OF all, of i]
    by (elim insertE emptyE) (simp_all add: 1(1) coded_def code_at_def)
next
  case (2 k)
  then have "fp_Nc F ! k \<in> set (fp_Nc F)" "fp_bc F ! k \<in> set (fp_bc F)" "fp_Mc F ! k \<in> set (fp_Mc F)"
    "fp_xmaxc F ! k \<in> set (fp_xmaxc F)" using assms(1) by (simp_all add: codes_ok_def)
  then have "40 \<le> fp_Nc F ! k \<and> fp_Nc F ! k \<le> 120" "0 \<le> fp_bc F ! k \<and> fp_bc F ! k \<le> 3"
    "0 \<le> fp_Mc F ! k \<and> fp_Mc F ! k \<le> 3" "0 \<le> fp_xmaxc F ! k \<and> fp_xmaxc F ! k \<le> 63"
    using assms(1) by (simp_all add: codes_ok_def)
  then show ?thesis using 2(1) by (auto simp: coded_def code_at_def)
next
  case (3 j)
  then have "fp_xMc F ! j \<in> set (fp_xMc F)" using assms(1) by (simp add: codes_ok_def)
  then have "0 \<le> fp_xMc F ! j \<and> fp_xMc F ! j \<le> 7" using assms(1) by (simp add: codes_ok_def)
  then show ?thesis using 3(1) by (auto simp: coded_def code_at_def)
qed

lemma uncoded_coded:
  assumes "codes_ok 4 F" and "lars_ok (fp_LARc F)"
    and "\<forall>f \<in> set frame_fields. v f = take_bit (field_width f) (coded S F f)"
  shows "uncoded v = F"
proof -
  have at: "sint (v f) = code_at F f" if "f \<in> set frame_fields" for f
    using code_fits [OF assms(1,2) that, of S] word_fits [of "code_at F f" "field_width f"] field_width_le [of f] assms(3) that by simp
  have mem: "i < 8 \<Longrightarrow> LARc i \<in> set frame_fields" "k < 4 \<Longrightarrow> Nc k \<in> set frame_fields" "k < 4 \<Longrightarrow> bc k \<in> set frame_fields"
    "k < 4 \<Longrightarrow> Mc k \<in> set frame_fields" "k < 4 \<Longrightarrow> xmaxc k \<in> set frame_fields" for i k
    by (auto simp: frame_fields_def)
  have "xmc j \<in> set frame_fields" if "j < 52" for j
  proof -
    have "j div 13 < 4" "13 * (j div 13) \<le> j" "j < 13 * (j div 13) + 13" using that by auto
    then show ?thesis by (auto simp: frame_fields_def intro!: bexI [of _ "j div 13"])
  qed
  moreover have "length (fp_LARc F) = 8" by (rule lars_ok_length [OF assms(2)])
  ultimately show ?thesis using assms(1) at mem
    by (cases F) (auto simp: uncoded_def codes_ok_def code_at_def intro!: nth_equalityI)
qed

lemma decode_params_encoded:
  assumes "codes_ok 4 F" and "lars_ok (fp_LARc F)" and "wav_fmt X = 0"
  shows "decode_params X (pack_bytes (coded S F) encode_rfc) = Inr (F, X)"
proof -
  have "check_magic (pack_bytes (coded S F) implode_rfc) = None" by (rule implode_rfc_magic) (simp add: coded_def)
  moreover obtain v where "run_unpack explode_rfc 0 (pack_bytes (coded S F) implode_rfc) (blank_params X) = Some v"
    "\<forall>f \<in> set frame_fields. v f = take_bit (field_width f) (coded S F f)" using rfc_roundtrip by blast
  ultimately show ?thesis using uncoded_coded [OF assms(1,2)] assms(3)
    by (simp add: decode_params_def read_frame_def encode_implode decode_explode)
qed

text \<open>
  C22: The coder always returns, and every parameter it computes fits its field of the frame: the frame has 33 bytes, and
  any decoder that is not in the format of pairs gets exactly the parameters of the coder out of it.
\<close>

theorem encoded_parameters:
  assumes "wav_fmt S = 0" and "length (dp0 S) = 280" and "length (gs_e S) = 50" and "wav_fmt X = 0"
  shows "\<exists>F S' c. Gsm_Coder S s = Some (F, S') \<and> gsm_encode S s = Some (c, S') \<and> length c = 33 \<and>
    decode_params X c = Inr (F, X) \<and> lars_ok (fp_LARc F) \<and> codes_ok 4 F"
proof -
  define T where "T = S"
  have "in_step S T" using assms(1-3) by (simp add: in_step_def same_history_def T_def)
  from coder_in_step [OF this, of s] obtain F S' where
    c: "Gsm_Coder S s = Some (F, S')" "codes_ok 4 F" "lars_ok (fp_LARc F)" "wav_fmt S' = 0" by blast
  then have "gsm_encode S s = Some (pack_bytes (coded S' F) encode_rfc, S')" by (simp add: gsm_encode_def)
  moreover have "length (pack_bytes (coded S' F) encode_rfc) = 33" by (simp add: pack_bytes_def encode_rfc_def)
  ultimately show ?thesis using c decode_params_encoded [OF c(2,3) assms(4), of S'] by blast
qed

theorem encoded_parameters_witness:
  "\<exists>F S' c. gsm_encode gsm_create (replicate 160 1234) = Some (c, S') \<and> decode_params gsm_create c = Inr (F, gsm_create) \<and> codes_ok 4 F"
  using encoded_parameters [of gsm_create gsm_create "replicate 160 1234"] by (auto simp: gsm_create_def)

section \<open>A session\<close>

fun encode_all :: "gsm_state \<Rightarrow> int list list \<Rightarrow> (mem list \<times> gsm_state) option" where
  "encode_all S [] = Some ([], S)"
| "encode_all S (s # ss) = (case gsm_encode S s of
     None \<Rightarrow> None
   | Some (c, S) \<Rightarrow> (case encode_all S ss of None \<Rightarrow> None | Some (cs, S) \<Rightarrow> Some (c # cs, S)))"

fun decode_all :: "gsm_state \<Rightarrow> mem list \<Rightarrow> (int list list \<times> gsm_state) option" where
  "decode_all T [] = Some ([], T)"
| "decode_all T (c # cs) = (case gsm_decode T c of
     Some (Inr (r, T)) \<Rightarrow> (case decode_all T cs of None \<Rightarrow> None | Some (rs, T) \<Rightarrow> Some (r # rs, T))
   | _ \<Rightarrow> None)"

lemma session_in_step:
  assumes "in_step S T"
  shows "\<exists>cs S' rs T'. encode_all S ss = Some (cs, S') \<and> decode_all T cs = Some (rs, T') \<and> in_step S' T' \<and>
    length rs = length ss \<and> (\<forall>c \<in> set cs. length c = 33) \<and>
    (\<forall>r \<in> set rs. length r = 160 \<and> (\<forall>x \<in> set r. is_word x \<and> x mod 8 = 0))"
  using assms
proof (induction ss arbitrary: S T)
  case (Cons s ss)
  from coder_in_step [OF Cons.prems, of s] obtain F S1 r T1 where
    c: "Gsm_Coder S s = Some (F, S1)" "codes_ok 4 F" "lars_ok (fp_LARc F)" "wav_fmt S1 = 0"
      "Gsm_Decoder T F = Some (r, T1)" "length r = 160" "\<forall>x \<in> set r. is_word x \<and> x mod 8 = 0" "in_step S1 T1" by blast
  define b where "b = pack_bytes (coded S1 F) encode_rfc"
  have e: "gsm_encode S s = Some (b, S1)" using c(1,4) by (simp add: gsm_encode_def b_def)
  have "wav_fmt T = 0" using Cons.prems by (simp add: in_step_def)
  then have d: "gsm_decode T b = Some (Inr (r, T1))"
    using decode_params_encoded [OF c(2,3), of T S1] c(5) by (simp add: gsm_decode_def b_def)
  have "length b = 33" by (simp add: b_def pack_bytes_def encode_rfc_def)
  moreover obtain cs S' rs T' where "encode_all S1 ss = Some (cs, S')" "decode_all T1 cs = Some (rs, T')" "in_step S' T'"
    "length rs = length ss" "\<forall>c \<in> set cs. length c = 33"
    "\<forall>r \<in> set rs. length r = 160 \<and> (\<forall>x \<in> set r. is_word x \<and> x mod 8 = 0)"
    using Cons.IH [OF c(8)] by blast
  ultimately show ?case using e d c(6,7)
    by (intro exI [of _ "b # cs"] exI [of _ S'] exI [of _ "r # rs"] exI [of _ T']) simp
qed simp

text \<open>
  C20: Any number of frames, from the initial states on: coding and decoding always return, every coded frame has 33 bytes
  and is accepted, every decoded frame has 160 samples, multiples of 8 in the range of a word, and at the end coder and decoder
  are in step: they have the same reconstructed history and the same coefficients to interpolate from.
\<close>

theorem codec_session:
  "\<exists>cs S rs T. encode_all gsm_create ss = Some (cs, S) \<and> decode_all gsm_create cs = Some (rs, T) \<and>
    length rs = length ss \<and> (\<forall>c \<in> set cs. length c = 33) \<and>
    (\<forall>r \<in> set rs. length r = 160 \<and> (\<forall>x \<in> set r. is_word x \<and> x mod 8 = 0)) \<and>
    take 120 (dp0 S) = take 120 (dp0 T) \<and> LARpp S = LARpp T \<and> gs_j S = gs_j T"
proof -
  have "in_step gsm_create gsm_create" by (simp add: in_step_def same_history_def gsm_create_def)
  from session_in_step [OF this, of ss] show ?thesis by (simp add: in_step_def same_history_def) metis
qed

theorem codec_session_witness:
  "\<exists>cs S rs T. encode_all gsm_create [replicate 160 1000, replicate 160 (- 20)] = Some (cs, S) \<and>
     decode_all gsm_create cs = Some (rs, T) \<and> length rs = 2 \<and> take 120 (dp0 S) = take 120 (dp0 T)"
  using codec_session [of "[replicate 160 1000, replicate 160 (- 20)]"] by auto

end
