(* ===== verification/GsmDecode.thy ===== *)
theory GsmDecode
  imports GsmSync
begin

unbundle bit_operations_syntax

text \<open>
  The decoder on any input (\<open>decode.c\<close> and \<open>gsm_decode.c\<close> under \<open>src/work/text/gsm/src\<close>): what a received frame may hold, the
  invariant of the decoder's state, and the proof that every frame of 33 bytes is refused or decoded with the
  invariant kept.
\<close>

section \<open>Any parameters\<close>

definition decoder_ok :: "gsm_state \<Rightarrow> bool" where
  "decoder_ok T \<longleftrightarrow> length (dp0 T) = 280 \<and> words (dp0 T) \<and> 40 \<le> nrp T \<and> nrp T \<le> 120 \<and> gs_j T < 2 \<and>
     length (LARpp T) = 2 \<and> (\<forall>p \<in> set (LARpp T). eight_words p) \<and> length (gs_v T) = 9 \<and> words (gs_v T) \<and> is_word (msr T)"

text \<open>Parameters as the unpacking gives them; the lag may be any value of seven bits.\<close>

definition received :: "frame_params \<Rightarrow> bool" where
  "received F \<longleftrightarrow> length (fp_LARc F) = 8 \<and> length (fp_Nc F) = 4 \<and> length (fp_bc F) = 4 \<and> length (fp_Mc F) = 4 \<and>
     length (fp_xmaxc F) = 4 \<and> length (fp_xMc F) = 52 \<and> (\<forall>x \<in> set (fp_Nc F). 0 \<le> x \<and> x \<le> 127) \<and>
     (\<forall>x \<in> set (fp_bc F). 0 \<le> x \<and> x \<le> 3) \<and> (\<forall>x \<in> set (fp_Mc F). 0 \<le> x \<and> x \<le> 3) \<and>
     (\<forall>x \<in> set (fp_xmaxc F). 0 \<le> x \<and> x \<le> 63)"

lemma received_segment:
  assumes "received F" and "j < 4"
  shows "0 \<le> fp_bc F ! j \<and> fp_bc F ! j \<le> 3" and "0 \<le> fp_Mc F ! j \<and> fp_Mc F ! j \<le> 3"
    and "0 \<le> fp_xmaxc F ! j \<and> fp_xmaxc F ! j \<le> 63" and "length (take 13 (drop (13 * j) (fp_xMc F))) = 13"
proof -
  have "fp_bc F ! j \<in> set (fp_bc F)" "fp_Mc F ! j \<in> set (fp_Mc F)" "fp_xmaxc F ! j \<in> set (fp_xmaxc F)"
    using assms by (simp_all add: received_def)
  then show "0 \<le> fp_bc F ! j \<and> fp_bc F ! j \<le> 3" "0 \<le> fp_Mc F ! j \<and> fp_Mc F ! j \<le> 3"
    "0 \<le> fp_xmaxc F ! j \<and> fp_xmaxc F ! j \<le> 63" using assms(1) by (simp_all add: received_def)
  show "length (take 13 (drop (13 * j) (fp_xMc F))) = 13" using assms by (simp add: received_def)
qed

lemma rpe_decoding_any:
  assumes "0 \<le> c" and "c \<le> 63" and "0 \<le> grid" and "grid \<le> 3" and "length xMc = 13"
  shows "\<exists>erp. Gsm_RPE_Decoding c grid xMc = Some erp \<and> length erp = 40 \<and> words erp"
proof -
  from exp_mant [OF assms(1,2)] obtain exp mant where
    e: "APCM_quantization_xmaxc_to_exp_mant c = Some (exp, mant)" by blast
  define q where "q = APCM_inverse_quantization xMc mant exp"
  have q: "length q = 13" "\<forall>x \<in> set q. is_word x" using inverse_quantization_words assms(5) by (simp_all add: q_def)
  have "set (RPE_grid_positioning grid q) \<subseteq> insert 0 (set q)" "length (RPE_grid_positioning grid q) = 40"
    using grid_positioning_props [OF assms(3,4) q(1)] by simp_all
  then show ?thesis using e q(2) by (auto simp: Gsm_RPE_Decoding_def words_def q_def)
qed

lemma rebuilt_words: "length ep = 40 \<Longrightarrow> words ep \<Longrightarrow> words (rebuilt ep lag gain dp base)"
  unfolding words_def rebuilt_def set_map ball_simps
proof (intro ballI)
  fix i assume "length ep = 40" "\<forall>x \<in> set ep. is_word x" "i \<in> set [0..<40]"
  then have "is_word (ep ! i)" by simp
  then show "is_word (GSM_ADD (ep ! i) (predicted (gsm_QLB ! nat gain) dp base lag i))"
    unfolding predicted_def by (rule GSM_ADD_word [OF _ s16_range])
qed

lemma synthesis_any:
  assumes "decoder_ok T" and "length erp = 40" and "words erp"
  shows "\<exists>n dp. Gsm_Long_Term_Synthesis_Filtering T Ncr bcr erp = T\<lparr>nrp := n, dp0 := dp\<rparr> \<and>
    decoder_ok (T\<lparr>nrp := n, dp0 := dp\<rparr>)"
proof -
  define n where "n = (if Ncr < 40 \<or> Ncr > 120 then nrp T else Ncr)"
  have n: "40 \<le> n" "n \<le> 120" using assms(1) by (auto simp: n_def decoder_ok_def)
  have len: "length (dp0 T) = 280" using assms(1) by (simp add: decoder_ok_def)
  define drp where "drp = take 120 (dp0 T) @ rebuilt erp n bcr (dp0 T) 120 @ drop 160 (dp0 T)"
  have "fold (synth_step (gsm_QLB ! nat bcr) n erp) [0..<40] (dp0 T) = drp"
    using synth_steps [OF n(1), of "dp0 T"] len by (simp add: drp_def rebuilt_def)
  then have "Gsm_Long_Term_Synthesis_Filtering T Ncr bcr erp = T\<lparr>nrp := n, dp0 := take 120 (drop 40 drp) @ drop 120 drp\<rparr>"
    using shift_steps [of drp] len by (simp add: Gsm_Long_Term_Synthesis_Filtering_def Let_def n_def drp_def)
  moreover have "words drp" using assms rebuilt_words [OF assms(2,3), of n bcr "dp0 T" 120]
    by (auto simp: drp_def words_def decoder_ok_def dest: in_set_takeD in_set_dropD)
  then have "words (take 120 (drop 40 drp) @ drop 120 drp)"
    by (auto simp: words_def dest: in_set_takeD in_set_dropD)
  ultimately show ?thesis using assms(1) n len
    by (intro exI [of _ n] exI [of _ "take 120 (drop 40 drp) @ drop 120 drp"]) (simp add: decoder_ok_def drp_def)
qed

lemma decoder_loop_any:
  assumes "decoder_ok T" and "received F" and "\<forall>j \<in> set js. j < 4"
  shows "\<exists>ws n dp. decoder_loop js F (wt, T) = Some (wt @ ws, T\<lparr>nrp := n, dp0 := dp\<rparr>) \<and>
    decoder_ok (T\<lparr>nrp := n, dp0 := dp\<rparr>) \<and> length ws = 40 * length js \<and> words ws"
  using assms(1,3)
proof (induction js arbitrary: wt T)
  case Nil
  then show ?case
    by (intro exI [of _ "[]"] exI [of _ "nrp T"] exI [of _ "dp0 T"]) (simp add: words_def)
next
  case (Cons j js)
  note g = received_segment [OF assms(2), of j]
  have j: "j < 4" using Cons.prems(2) by simp
  obtain erp where r: "Gsm_RPE_Decoding (fp_xmaxc F ! j) (fp_Mc F ! j) (take 13 (drop (13 * j) (fp_xMc F))) = Some erp"
    "length erp = 40" "words erp" using rpe_decoding_any g j by blast
  obtain n dp where s: "Gsm_Long_Term_Synthesis_Filtering T (fp_Nc F ! j) (fp_bc F ! j) erp = T\<lparr>nrp := n, dp0 := dp\<rparr>"
    "decoder_ok (T\<lparr>nrp := n, dp0 := dp\<rparr>)" using synthesis_any [OF Cons.prems(1) r(2,3)] by blast
  define w where "w = take 40 (drop 120 dp)"
  have w: "length w = 40" "words w" using s(2)
    by (auto simp: w_def decoder_ok_def words_def dest: in_set_takeD in_set_dropD)
  have "\<forall>j \<in> set js. j < 4" using Cons.prems(2) by simp
  from Cons.IH [OF s(2) this, of "wt @ w"] obtain ws m d where
    "decoder_loop js F (wt @ w, T\<lparr>nrp := n, dp0 := dp\<rparr>) = Some (wt @ w @ ws, T\<lparr>nrp := m, dp0 := d\<rparr>)"
    "decoder_ok (T\<lparr>nrp := m, dp0 := d\<rparr>)" "length ws = 40 * length js" "words ws" by auto
  then show ?case using r(1) s(1) w
    by (intro exI [of _ "w @ ws"] exI [of _ m] exI [of _ d]) (simp add: Let_def words_def w_def ball_Un)
qed

section \<open>The short term filter\<close>

lemma synth_mult_word: "is_word (synth_mult a b)"
  by (simp only: synth_mult_def s16_range)

lemma GSM_SUB_word: "is_word (GSM_SUB a b)"
  by (simp add: GSM_SUB_clamp)

lemma words_nth: "words xs \<Longrightarrow> i < length xs \<Longrightarrow> is_word (xs ! i)"
  by (auto simp: words_def)

lemma words_update: "words xs \<Longrightarrow> is_word x \<Longrightarrow> words (xs[i := x])"
  unfolding words_def using set_update_subset_insert by fastforce

lemma synth_loop_words:
  assumes "words v" and "n < length v" and "is_word w" and "synth_loop n rrp v w = (s, v')"
  shows "is_word s \<and> words v' \<and> length v' = length v"
  using assms
proof (induction n arbitrary: v w)
  case (Suc n)
  define s1 where "s1 = GSM_SUB w (synth_mult (rrp ! n) (v ! n))"
  define v1 where "v1 = v[Suc n := GSM_ADD (v ! n) (synth_mult (rrp ! n) s1)]"
  have "is_word (v ! n)" using Suc.prems(1,2) by (intro words_nth) auto
  then have "words v1" unfolding v1_def by (intro words_update Suc.prems(1) GSM_ADD_word synth_mult_word)
  moreover have "is_word s1" unfolding s1_def by (rule GSM_SUB_word)
  moreover have "synth_loop n rrp v1 s1 = (s, v')" using Suc.prems(4) by (simp add: Let_def s1_def v1_def)
  moreover have "n < length v1" "length v1 = length v" using Suc.prems(2) by (simp_all add: v1_def)
  ultimately show ?case using Suc.IH [of v1 s1] by simp
qed simp

lemma synthesis_loop_words:
  assumes "words v" and "length v = 9" and "words wt" and "synthesis_loop rrp wt v = (sr, v')"
  shows "words sr \<and> length sr = length wt \<and> words v' \<and> length v' = 9"
  using assms
proof (induction wt arbitrary: v sr)
  case (Cons w wt)
  obtain s v1 where s: "synth_loop 8 rrp v w = (s, v1)" by fastforce
  obtain sr' where r: "synthesis_loop rrp wt (v1[0 := s]) = (sr', v')" "sr = s # sr'"
    using Cons.prems(4) s by (cases "synthesis_loop rrp wt (v1[0 := s])") simp
  have "is_word w" "words wt" using Cons.prems(3) by (simp_all add: words_def)
  from synth_loop_words [OF Cons.prems(1) _ this(1) s] Cons.prems(2)
  have v1: "is_word s" "words v1" "length v1 = 9" by simp_all
  have "words (v1[0 := s])" by (rule words_update [OF v1(2,1)])
  from Cons.IH [OF this _ \<open>words wt\<close> r(1)] v1 r(2) show ?case by (simp add: words_def)
qed (simp add: words_def)

lemma stage_words:
  assumes "words (gs_v S)" and "length (gs_v S) = 9" and "words wt"
  obtains s v where "Short_term_synthesis_filtering S rrp wt = (s, S\<lparr>gs_v := v\<rparr>)" and "words s"
    and "length s = length wt" and "words v" and "length v = 9"
proof -
  obtain s v where l: "synthesis_loop rrp wt (gs_v S) = (s, v)" by fastforce
  note w = synthesis_loop_words [OF assms l]
  have "Short_term_synthesis_filtering S rrp wt = (s, S\<lparr>gs_v := v\<rparr>)"
    by (simp only: Short_term_synthesis_filtering_def l Let_def prod.case)
  with w that show ?thesis by blast
qed

lemma xor_below_2: "j < 2 \<Longrightarrow> j XOR Suc 0 < (2 :: nat)"
  by (auto simp: less_2_cases_iff)

lemma words_parts: "words xs \<Longrightarrow> words (take n xs)" "words xs \<Longrightarrow> words (drop n xs)"
  by (auto simp: words_def dest: in_set_takeD in_set_dropD)

lemma words_append: "words (xs @ ys) \<longleftrightarrow> words xs \<and> words ys"
  by (auto simp: words_def)

lemma synthesis_filter_words:
  assumes "decoder_ok T" and "words wt" and "length wt = 160" and "length lars = 8"
  obtains s T' where "Gsm_Short_Term_Synthesis_Filter T lars wt = (s, T')" and "words s" and "length s = 160" and "decoder_ok T'"
    and "wav_fmt T' = wav_fmt T"
proof -
  define q where "q = Decoding_of_the_coded_Log_Area_Ratios lars"
  define T0 where "T0 = T\<lparr>gs_j := gs_j T XOR 1, LARpp := (LARpp T)[gs_j T := q]\<rparr>"
  define p where "p = LARpp T0 ! (gs_j T XOR 1)"
  have v: "words (gs_v T0)" "length (gs_v T0) = 9" using assms(1) by (simp_all add: T0_def decoder_ok_def)
  obtain s0 v0 where 0: "Short_term_synthesis_filtering T0 (LARp_to_rp (Coefficients_0_12 p q)) (take 13 wt) = (s0, T0\<lparr>gs_v := v0\<rparr>)"
    "words s0" "length s0 = length (take 13 wt)" "words v0" "length v0 = 9"
    by (rule stage_words [OF v words_parts(1) [OF assms(2)]])
  obtain s1 v1 where 1: "Short_term_synthesis_filtering (T0\<lparr>gs_v := v0\<rparr>) (LARp_to_rp (Coefficients_13_26 p q)) (take 14 (drop 13 wt)) = (s1, T0\<lparr>gs_v := v1\<rparr>)"
    "words s1" "length s1 = length (take 14 (drop 13 wt))" "words v1" "length v1 = 9"
    by (rule stage_words [of "T0\<lparr>gs_v := v0\<rparr>" "take 14 (drop 13 wt)"]) (use 0 assms(2) words_parts in auto)
  obtain s2 v2 where 2: "Short_term_synthesis_filtering (T0\<lparr>gs_v := v1\<rparr>) (LARp_to_rp (Coefficients_27_39 p q)) (take 13 (drop 27 wt)) = (s2, T0\<lparr>gs_v := v2\<rparr>)"
    "words s2" "length s2 = length (take 13 (drop 27 wt))" "words v2" "length v2 = 9"
    by (rule stage_words [of "T0\<lparr>gs_v := v1\<rparr>" "take 13 (drop 27 wt)"]) (use 1 assms(2) words_parts in auto)
  obtain s3 v3 where 3: "Short_term_synthesis_filtering (T0\<lparr>gs_v := v2\<rparr>) (LARp_to_rp (Coefficients_40_159 q)) (take 120 (drop 40 wt)) = (s3, T0\<lparr>gs_v := v3\<rparr>)"
    "words s3" "length s3 = length (take 120 (drop 40 wt))" "words v3" "length v3 = 9"
    by (rule stage_words [of "T0\<lparr>gs_v := v2\<rparr>" "take 120 (drop 40 wt)"]) (use 2 assms(2) words_parts in auto)
  have "Gsm_Short_Term_Synthesis_Filter T lars wt = (s0 @ s1 @ s2 @ s3, T0\<lparr>gs_v := v3\<rparr>)"
    using 0(1) 1(1) 2(1) 3(1)
    by (simp add: Gsm_Short_Term_Synthesis_Filter_def Let_def T0_def p_def flip: q_def)
  moreover have "eight_words q" unfolding q_def by (rule Decoding_words [OF assms(4)])
  then have "decoder_ok (T0\<lparr>gs_v := v3\<rparr>)" using assms(1) 3(4,5)
    by (auto simp: decoder_ok_def T0_def xor_below_2 dest!: set_update_subset_insert [THEN subsetD])
  moreover have "words (s0 @ s1 @ s2 @ s3)" "length (s0 @ s1 @ s2 @ s3) = 160"
    using 0(2,3) 1(2,3) 2(2,3) 3(2,3) assms(3) by (simp_all add: words_append)
  moreover have "wav_fmt (T0\<lparr>gs_v := v3\<rparr>) = wav_fmt T" by (simp add: T0_def)
  ultimately show ?thesis using that by blast
qed

lemma post_loop_state: "is_word m \<Longrightarrow> words s \<Longrightarrow> is_word (snd (post_loop m s))"
proof (induction s arbitrary: m)
  case (Cons x s)
  have "is_word (GSM_ADD x (s16 (GSM_MULT_R m 28180)))"
    using Cons.prems(2) by (intro GSM_ADD_word s16_range) (simp add: words_def)
  from Cons.IH [OF this] Cons.prems(2) show ?case by (simp add: Let_def words_def case_prod_beta)
qed simp

section \<open>A received frame\<close>

lemma decoder_any:
  assumes "decoder_ok T" and "received F"
  shows "\<exists>r T'. Gsm_Decoder T F = Some (r, T') \<and> length r = 160 \<and> (\<forall>x \<in> set r. is_word x \<and> x mod 8 = 0) \<and>
    decoder_ok T' \<and> wav_fmt T' = wav_fmt T"
proof -
  have "\<forall>j \<in> set [0..<4]. j < 4" by simp
  from decoder_loop_any [OF assms this, of "[]"] obtain ws n dp where
    d: "decoder_loop [0..<4] F ([], T) = Some (ws, T\<lparr>nrp := n, dp0 := dp\<rparr>)" "decoder_ok (T\<lparr>nrp := n, dp0 := dp\<rparr>)"
      "length ws = 160" "words ws" by auto
  have "length (fp_LARc F) = 8" using assms(2) by (simp add: received_def)
  from synthesis_filter_words [OF d(2,4,3) this] obtain s T1 where
    s: "Gsm_Short_Term_Synthesis_Filter (T\<lparr>nrp := n, dp0 := dp\<rparr>) (fp_LARc F) ws = (s, T1)" "words s" "length s = 160"
      "decoder_ok T1" "wav_fmt T1 = wav_fmt T" by auto
  obtain r m where p: "post_loop (msr T1) s = (r, m)" by fastforce
  have "is_word m" using post_loop_state [of "msr T1" s] s(2,4) p by (simp add: decoder_ok_def)
  then have "decoder_ok (T1\<lparr>msr := m\<rparr>)" using s(4) by (simp add: decoder_ok_def)
  moreover have "Gsm_Decoder T F = Some (r, T1\<lparr>msr := m\<rparr>)"
    unfolding Gsm_Decoder_def d(1) option.case prod.case s(1) Let_def Postprocessing_def p ..
  ultimately show ?thesis using post_loop_result [of "msr T1" s] p s(3,5) by auto
qed

lemma narrow_range:
  assumes "take_bit n (w :: u16) = w" and "n \<le> 7"
  shows "0 \<le> sint w \<and> sint w < 2 ^ n"
proof -
  have "uint w < 2 ^ n" using assms(1) by (metis take_bit_int_less_exp unsigned_take_bit_eq)
  then show ?thesis using word_fits(2) [of "uint w" n] assms(2) by simp
qed

lemma uncoded_received:
  assumes "\<forall>f \<in> set frame_fields. take_bit (field_width f) (w f) = w f"
  shows "received (uncoded w)"
proof -
  have r: "0 \<le> sint (w f) \<and> sint (w f) < 2 ^ field_width f" if "f \<in> set frame_fields" for f
    using narrow_range assms that field_width_le by blast
  have "Nc k \<in> set frame_fields" "bc k \<in> set frame_fields" "Mc k \<in> set frame_fields" "xmaxc k \<in> set frame_fields" if "k < 4" for k
    using that by (auto simp: frame_fields_def)
  then have "0 \<le> sint (w (Nc k)) \<and> sint (w (Nc k)) \<le> 127" "0 \<le> sint (w (bc k)) \<and> sint (w (bc k)) \<le> 3"
    "0 \<le> sint (w (Mc k)) \<and> sint (w (Mc k)) \<le> 3" "0 \<le> sint (w (xmaxc k)) \<and> sint (w (xmaxc k)) \<le> 63" if "k < 4" for k
    using that r [of "Nc k"] r [of "bc k"] r [of "Mc k"] r [of "xmaxc k"] by simp_all
  then show ?thesis by (auto simp: received_def uncoded_def)
qed

lemma decode_frame_33:
  assumes "decoder_ok T" and "wav_fmt T = 0" and "length c = 33"
  shows "if drop_bit 4 (c ! 0) = 0xD
    then \<exists>r T'. gsm_decode T c = Some (Inr (r, T')) \<and> length r = 160 \<and> (\<forall>x \<in> set r. is_word x \<and> x mod 8 = 0) \<and>
      decoder_ok T' \<and> wav_fmt T' = 0
    else gsm_decode T c = Some (Inl NoGsmMagic)"
proof (cases "drop_bit 4 (c ! 0) = 0xD")
  case False
  then have "check_magic c = Some NoGsmMagic" using magic_nibble [OF assms(3)] by simp
  then show ?thesis using False assms(2) by (simp add: gsm_decode_def decode_params_def)
next
  case True
  then have m: "check_magic c = None" using magic_nibble [OF assms(3)] by simp
  obtain w where w: "run_unpack explode_rfc 0 c (blank_params T) = Some w"
      "\<forall>f \<in> set frame_fields. take_bit (field_width f) (w f) = w f"
    using frame_unpacks [OF assms(3)] by blast
  have "decode_params T c = Inr (uncoded w, T)"
    using m w(1) assms(2) by (simp add: decode_params_def read_frame_def decode_explode)
  moreover obtain r T' where "Gsm_Decoder T (uncoded w) = Some (r, T')" "length r = 160"
    "\<forall>x \<in> set r. is_word x \<and> x mod 8 = 0" "decoder_ok T'" "wav_fmt T' = wav_fmt T"
    using decoder_any [OF assms(1) uncoded_received [OF w(2)]] by blast
  ultimately show ?thesis using True assms(2) by (auto simp: gsm_decode_def)
qed

text \<open>
  C21: The decoder on any input: a frame of 33 bytes with another magic nibble is refused; every other frame, whatever its
  bits, is decoded to 160 samples, multiples of 8 in the range of a word, and leaves a state in which every element is a
  word, the lag to fall back to lies from 40 to 120, and every index of the next frame lies in its array.
\<close>

theorem decode_any_frame:
  assumes "decoder_ok T" and "wav_fmt T = 0" and "length c = 33"
  shows "if drop_bit 4 (c ! 0) = 0xD
    then \<exists>r T'. gsm_decode T c = Some (Inr (r, T')) \<and> length r = 160 \<and> (\<forall>x \<in> set r. is_word x \<and> x mod 8 = 0) \<and>
      decoder_ok T' \<and> wav_fmt T' = 0
    else gsm_decode T c = Some (Inl NoGsmMagic)"
  using assms by (rule decode_frame_33)

lemma decoder_ok_create: "decoder_ok gsm_create"
  by (auto simp: decoder_ok_def gsm_create_def words_def eight_words_def)

theorem decode_any_frame_witness:
  "(\<exists>r T'. gsm_decode gsm_create (0xD7 # replicate 32 0xFF) = Some (Inr (r, T')) \<and> length r = 160) \<and>
   gsm_decode gsm_create (replicate 33 0xC0) = Some (Inl NoGsmMagic)"
  using decode_any_frame [OF decoder_ok_create, of "0xD7 # replicate 32 0xFF"]
    decode_any_frame [OF decoder_ok_create, of "replicate 33 0xC0"]
  by (auto simp: gsm_create_def drop_bit_eq_div)

end
