(* ===== verification/Fifo.thy ===== *)
theory Fifo
  imports Prelude
begin

text \<open>
  The template \<open>Fifo<N, T>\<close> of \<open>src/inc/fifo.h\<close>.  \<open>N\<close> is the length of the array
  \<open>buf\<close>.  Part one: the two methods, run without interruption, implement a bounded queue (the
  locale \<open>bounded_queue\<close> states that contract; the serial class is verified against it).  Part
  two: the writer and the reader run as two threads whose steps interleave in any order (a main
  program and an interrupt handler), and only the change of \<open>len\<close> is one indivisible step.
\<close>

section \<open>The code\<close>

record 'a fifo =
  fbuf :: "'a list"
  rdi :: u32
  wri :: u32
  flen :: u32

definition fifo_N :: "'a fifo \<Rightarrow> u32" where
  "fifo_N f = of_nat (length (fbuf f))"

definition fifo_new :: "'a list \<Rightarrow> 'a fifo" where
  "fifo_new b = \<lparr> fbuf = b, rdi = 0, wri = 0, flen = 0 \<rparr>"

definition fifo_saturate :: "u32 \<Rightarrow> u32 \<Rightarrow> u32" where
  "fifo_saturate N index = (if index < N then index else 0)"

text \<open>The result of the method and the queue afterwards.\<close>

definition fifo_Write :: "'a \<Rightarrow> 'a fifo \<Rightarrow> bool \<times> 'a fifo" where
  "fifo_Write c f =
     (if flen f < fifo_N f then
        let f = f\<lparr>fbuf := (fbuf f)[unat (wri f) := c], wri := wri f + 1\<rparr>;
            f = f\<lparr>wri := fifo_saturate (fifo_N f) (wri f)\<rparr>;
            f = f\<lparr>flen := flen f + 1\<rparr>
        in (True, f)
      else (False, f))"

definition fifo_Read :: "'a fifo \<Rightarrow> 'a option \<times> 'a fifo" where
  "fifo_Read f =
     (if flen f > 0 then
        let c = fbuf f ! unat (rdi f);
            f = f\<lparr>rdi := rdi f + 1\<rparr>;
            f = f\<lparr>rdi := fifo_saturate (fifo_N f) (rdi f)\<rparr>;
            f = f\<lparr>flen := flen f - 1\<rparr>
        in (Some c, f)
      else (None, f))"

section \<open>The contract: a bounded queue\<close>

locale bounded_queue =
  fixes queue_abs :: "'s \<Rightarrow> 'a list"
    and queue_cap :: "'s \<Rightarrow> nat"
    and queue_inv :: "'s \<Rightarrow> bool"
    and enq :: "'a \<Rightarrow> 's \<Rightarrow> bool \<times> 's"
    and deq :: "'s \<Rightarrow> 'a option \<times> 's"
  assumes cap_pos: "queue_inv s \<Longrightarrow> 0 < queue_cap s"
    and abs_le: "queue_inv s \<Longrightarrow> length (queue_abs s) \<le> queue_cap s"
    and enq_inv: "queue_inv s \<Longrightarrow> queue_inv (snd (enq c s)) \<and> queue_cap (snd (enq c s)) = queue_cap s"
    and enq_abs: "queue_inv s \<Longrightarrow> fst (enq c s) = (length (queue_abs s) < queue_cap s)
      \<and> queue_abs (snd (enq c s)) =
          (if length (queue_abs s) < queue_cap s then queue_abs s @ [c] else queue_abs s)"
    and deq_inv: "queue_inv s \<Longrightarrow> queue_inv (snd (deq s)) \<and> queue_cap (snd (deq s)) = queue_cap s"
    and deq_abs: "queue_inv s \<Longrightarrow> (case queue_abs s of
        [] \<Rightarrow> deq s = (None, s)
      | x # xs \<Rightarrow> fst (deq s) = Some x \<and> queue_abs (snd (deq s)) = xs)"
begin

text \<open>Writing until the queue is full and reading until it is empty, as the clients do.\<close>

fun enq_all :: "'a list \<Rightarrow> 's \<Rightarrow> nat \<times> 's" where
  "enq_all [] s = (0, s)"
| "enq_all (c # cs) s = (case enq c s of
     (False, s) \<Rightarrow> (0, s)
   | (True, s) \<Rightarrow> (case enq_all cs s of (n, s) \<Rightarrow> (Suc n, s)))"

fun deq_upto :: "nat \<Rightarrow> 's \<Rightarrow> 'a list \<times> 's" where
  "deq_upto 0 s = ([], s)"
| "deq_upto (Suc n) s = (case deq s of
     (None, s) \<Rightarrow> ([], s)
   | (Some c, s) \<Rightarrow> (case deq_upto n s of (cs, s) \<Rightarrow> (c # cs, s)))"

lemma enq_all_spec:
  assumes "queue_inv s"
  shows "queue_inv (snd (enq_all cs s)) \<and> queue_cap (snd (enq_all cs s)) = queue_cap s
    \<and> fst (enq_all cs s) = min (length cs) (queue_cap s - length (queue_abs s))
    \<and> queue_abs (snd (enq_all cs s)) = queue_abs s @ take (fst (enq_all cs s)) cs"
  using assms
proof (induction cs arbitrary: s)
  case (Cons c cs)
  obtain ok s' where e: "enq c s = (ok, s')" by fastforce
  note spec = enq_abs [OF Cons.prems, of c] enq_inv [OF Cons.prems, of c] abs_le [OF Cons.prems]
  show ?case
  proof (cases ok)
    case True
    obtain n s'' where r: "enq_all cs s' = (n, s'')" by fastforce
    show ?thesis using spec Cons.IH [of s'] e r True by (auto simp: min_def)
  next
    case False
    then show ?thesis using spec e by auto
  qed
qed simp

lemma deq_upto_spec:
  assumes "queue_inv s"
  shows "queue_inv (snd (deq_upto n s)) \<and> queue_cap (snd (deq_upto n s)) = queue_cap s
    \<and> fst (deq_upto n s) = take n (queue_abs s)
    \<and> queue_abs (snd (deq_upto n s)) = drop n (queue_abs s)"
  using assms
proof (induction n arbitrary: s)
  case (Suc n)
  note spec = deq_abs [OF Suc.prems] deq_inv [OF Suc.prems]
  show ?case
  proof (cases "queue_abs s")
    case Nil
    then show ?thesis using spec Suc.prems by simp
  next
    case (Cons x xs)
    obtain s' where d: "deq s = (Some x, s')" using spec Cons by (cases "deq s") auto
    obtain cs s'' where r: "deq_upto n s' = (cs, s'')" by fastforce
    show ?thesis using spec Suc.IH [of s'] d r Cons by simp
  qed
qed simp

end

section \<open>\<open>Fifo\<close> is a bounded queue\<close>

definition fifo_inv :: "'a fifo \<Rightarrow> bool" where
  "fifo_inv f \<longleftrightarrow> 0 < length (fbuf f) \<and> length (fbuf f) < 2 ^ 32
     \<and> unat (rdi f) < length (fbuf f) \<and> unat (wri f) < length (fbuf f)
     \<and> unat (flen f) \<le> length (fbuf f)
     \<and> unat (wri f) = (unat (rdi f) + unat (flen f)) mod length (fbuf f)"

definition fifo_abs :: "'a fifo \<Rightarrow> 'a list" where
  "fifo_abs f = map (\<lambda>i. fbuf f ! ((unat (rdi f) + i) mod length (fbuf f))) [0..<unat (flen f)]"

definition fifo_cap :: "'a fifo \<Rightarrow> nat" where
  "fifo_cap f = length (fbuf f)"

lemma length_fifo_abs [simp]: "length (fifo_abs f) = unat (flen f)"
  by (simp add: fifo_abs_def)

lemma unat_fifo_N: "length (fbuf f) < 2 ^ 32 \<Longrightarrow> unat (fifo_N f) = length (fbuf f)"
  by (simp add: fifo_N_def unat_of_nat take_bit_nat_eq_self)

lemma unat_inc: "unat (x :: u32) < N \<Longrightarrow> N < 2 ^ 32 \<Longrightarrow> unat (x + 1) = unat x + 1"
  by (simp add: unat_plus_if_size word_size)

lemma saturate_next:
  assumes "unat i = x mod N + 1" and "0 < N" and "N < 2 ^ 32"
  shows "unat (fifo_saturate (of_nat N) i) = (x + 1) mod N"
proof -
  have N: "unat (of_nat N :: u32) = N" using assms by (simp add: unat_of_nat take_bit_nat_eq_self)
  have "Suc (x mod N) \<le> N" using assms(2) by (simp add: Suc_leI)
  then show ?thesis using assms N
    by (cases "x mod N + 1 = N") (auto simp: fifo_saturate_def word_less_nat_alt mod_Suc)
qed

lemma saturate_inc:
  assumes "unat x < N" and "N < 2 ^ 32"
  shows "unat (fifo_saturate (of_nat N) (x + 1)) = (unat x + 1) mod N"
  by (rule saturate_next) (use assms unat_inc [OF assms] in auto)

lemma mod_add_cancel:
  assumes "(r + i) mod N = (r + j) mod N" and "i < N" and "j < (N :: nat)"
  shows "i = j"
proof -
  have "int N dvd int (r + i) - int (r + j)"
    using assms(1) by (metis mod_eq_dvd_iff of_nat_mod)
  then have "int N dvd int i - int j" by simp
  then have "int i mod int N = int j mod int N" by (simp add: mod_eq_dvd_iff)
  then show ?thesis using assms(2,3) by simp
qed

lemma fifo_Write_full:
  "fifo_inv f \<Longrightarrow> unat (flen f) = length (fbuf f) \<Longrightarrow> fifo_Write c f = (False, f)"
  by (simp add: fifo_Write_def word_less_nat_alt unat_fifo_N fifo_inv_def)

lemma fifo_Write_room:
  assumes "fifo_inv f" and "unat (flen f) < length (fbuf f)"
  obtains g where "fifo_Write c f = (True, g)" and "fifo_inv g" and "fifo_abs g = fifo_abs f @ [c]"
    and "length (fbuf g) = length (fbuf f)"
proof -
  define g where "g = f\<lparr>fbuf := (fbuf f)[unat (wri f) := c],
    wri := fifo_saturate (of_nat (length (fbuf f))) (wri f + 1), flen := flen f + 1\<rparr>"
  have N: "0 < length (fbuf f)" "length (fbuf f) < 2 ^ 32" "unat (rdi f) < length (fbuf f)"
    "unat (wri f) < length (fbuf f)"
    and w: "unat (wri f) = (unat (rdi f) + unat (flen f)) mod length (fbuf f)"
    using assms(1) by (auto simp: fifo_inv_def)
  have "flen f < fifo_N f" using assms(2) N(2) by (simp add: word_less_nat_alt unat_fifo_N)
  then have eq: "fifo_Write c f = (True, g)" by (simp add: fifo_Write_def g_def Let_def fifo_N_def)
  have len: "unat (flen g) = unat (flen f) + 1"
    using assms(2) N by (simp add: g_def unat_inc)
  have wri: "unat (wri g) = (unat (rdi f) + unat (flen f) + 1) mod length (fbuf f)"
    using saturate_inc [OF N(4,2)] by (simp add: g_def w mod_Suc_eq)
  have inv: "fifo_inv g"
    using N assms(2) len wri by (simp add: fifo_inv_def, simp add: g_def)
  have "fbuf g ! ((unat (rdi f) + i) mod length (fbuf f)) =
      (if i = unat (flen f) then c else fbuf f ! ((unat (rdi f) + i) mod length (fbuf f)))"
    if "i \<le> unat (flen f)" for i
    using that N(4) mod_add_cancel [of "unat (rdi f)" i "length (fbuf f)" "unat (flen f)"] assms(2)
    by (auto simp: g_def w nth_list_update)
  then have "fifo_abs g = fifo_abs f @ [c]"
    using len by (auto simp: fifo_abs_def g_def intro!: nth_equalityI simp: nth_append)
  then show thesis using that [OF eq inv] by (simp add: g_def)
qed

lemma fifo_Read_empty: "fifo_abs f = [] \<Longrightarrow> fifo_Read f = (None, f)"
  by (simp add: fifo_abs_def fifo_Read_def word_less_nat_alt)

lemma fifo_Read_some:
  assumes "fifo_inv f" and "fifo_abs f = x # xs"
  obtains g where "fifo_Read f = (Some x, g)" and "fifo_inv g" and "fifo_abs g = xs"
    and "length (fbuf g) = length (fbuf f)"
proof -
  define g where "g = f\<lparr>rdi := fifo_saturate (of_nat (length (fbuf f))) (rdi f + 1), flen := flen f - 1\<rparr>"
  have pos: "0 < unat (flen f)" using assms(2) by (metis length_fifo_abs length_greater_0_conv list.discI)
  have N: "0 < length (fbuf f)" "length (fbuf f) < 2 ^ 32" "unat (rdi f) < length (fbuf f)"
    "unat (wri f) < length (fbuf f)" "unat (flen f) \<le> length (fbuf f)"
    and w: "unat (wri f) = (unat (rdi f) + unat (flen f)) mod length (fbuf f)"
    using assms(1) by (auto simp: fifo_inv_def)
  have x: "fbuf f ! unat (rdi f) = x"
    using pos N(3) arg_cong [OF assms(2), of "\<lambda>l. l ! 0"] by (simp add: fifo_abs_def)
  have eq: "fifo_Read f = (Some x, g)"
    using pos x by (simp add: fifo_Read_def word_less_nat_alt fifo_N_def Let_def g_def)
  have len: "unat (flen g) = unat (flen f) - 1"
    using pos by (simp add: g_def unat_minus_one word_neq_0_conv word_less_nat_alt unat_eq_zero)
  have rdi: "unat (rdi g) = (unat (rdi f) + 1) mod length (fbuf f)"
    using saturate_inc [OF N(3,2)] by (simp add: g_def)
  have "wri g = wri f" "fbuf g = fbuf f" by (simp_all add: g_def)
  moreover have "(unat (rdi g) + (unat (flen f) - 1)) mod length (fbuf f) = unat (wri f)"
    using pos by (cases "unat (flen f)") (simp_all add: rdi w mod_simps)
  ultimately have inv: "fifo_inv g"
    using N by (simp add: fifo_inv_def len) (simp add: rdi)
  have "xs = map (\<lambda>i. fbuf f ! ((unat (rdi f) + Suc i) mod length (fbuf f))) [0..<unat (flen f) - 1]"
    using arg_cong [OF assms(2), of tl] pos
    by (cases "unat (flen f)")
      (simp_all add: fifo_abs_def map_tl [symmetric] map_Suc_upt [symmetric] comp_def del: upt_Suc map_Suc_upt)
  then have "fifo_abs g = xs"
    by (simp add: fifo_abs_def len rdi, simp add: g_def mod_simps)
  then show thesis using that [OF eq inv] by (simp add: g_def)
qed

text \<open>All outcomes of the two methods.\<close>

lemma fifo_Write_cases:
  assumes "fifo_inv f"
  obtains "unat (flen f) = length (fbuf f)" and "fifo_Write c f = (False, f)"
  | g where "unat (flen f) < length (fbuf f)" and "fifo_Write c f = (True, g)" and "fifo_inv g"
      and "fifo_abs g = fifo_abs f @ [c]" and "length (fbuf g) = length (fbuf f)"
proof (cases "unat (flen f) < length (fbuf f)")
  case True
  with assms that(2) show ?thesis by (blast elim: fifo_Write_room)
next
  case False
  then have "unat (flen f) = length (fbuf f)" using assms by (simp add: fifo_inv_def)
  with assms that(1) show ?thesis by (blast intro: fifo_Write_full)
qed

lemma fifo_Read_cases:
  assumes "fifo_inv f"
  obtains "fifo_abs f = []" and "fifo_Read f = (None, f)"
  | x xs g where "fifo_abs f = x # xs" and "fifo_Read f = (Some x, g)" and "fifo_inv g"
      and "fifo_abs g = xs" and "length (fbuf g) = length (fbuf f)"
proof (cases "fifo_abs f")
  case Nil
  with that(1) show ?thesis by (blast intro: fifo_Read_empty)
next
  case (Cons x xs)
  with assms that(2) show ?thesis by (blast elim: fifo_Read_some)
qed

interpretation fq: bounded_queue fifo_abs fifo_cap fifo_inv fifo_Write fifo_Read
proof (unfold_locales, goal_cases)
  case (3 f c)
  then show ?case by (cases rule: fifo_Write_cases [OF 3, of c]) (auto simp: fifo_cap_def)
next
  case (4 f c)
  then show ?case by (rule fifo_Write_cases [of f c]) (auto simp: fifo_cap_def)
next
  case (5 f)
  then show ?case by (cases rule: fifo_Read_cases [OF 5]) (auto simp: fifo_cap_def)
next
  case (6 f)
  then show ?case by (rule fifo_Read_cases [of f]) auto
qed (auto simp: fifo_inv_def fifo_cap_def)

section \<open>Two threads\<close>

text \<open>
  Where each thread stands inside its method.  One thread writes and one reads; a step of either may
  come between any two steps of the other.  \<open>accepted\<close> and \<open>delivered\<close> record what the
  finished calls took and gave; they are not part of the program.
\<close>

datatype 'a write_pc = W_idle | W_store 'a | W_saturate 'a | W_count 'a
datatype 'a read_pc = R_idle | R_load | R_saturate 'a | R_count 'a

record 'a threads =
  queue :: "'a fifo"
  wpc :: "'a write_pc"
  rpc :: "'a read_pc"
  accepted :: "'a list"
  delivered :: "'a list"

definition threads_new :: "'a list \<Rightarrow> 'a threads" where
  "threads_new b = \<lparr> queue = fifo_new b, wpc = W_idle, rpc = R_idle, accepted = [], delivered = [] \<rparr>"

text \<open>\<open>safeInc\<close> and \<open>safeDec\<close> run with interrupts off, so each is a single step.\<close>

definition safeInc :: "'a fifo \<Rightarrow> 'a fifo" where
  "safeInc f = f\<lparr>flen := flen f + 1\<rparr>"

definition safeDec :: "'a fifo \<Rightarrow> 'a fifo" where
  "safeDec f = f\<lparr>flen := flen f - 1\<rparr>"

inductive thread_step :: "'a threads \<Rightarrow> 'a threads \<Rightarrow> bool" where
  write_check: "wpc s = W_idle \<Longrightarrow>
    thread_step s (s\<lparr>wpc := if flen (queue s) < fifo_N (queue s) then W_store c else W_idle\<rparr>)"
| write_store: "wpc s = W_store c \<Longrightarrow> f = queue s \<Longrightarrow>
    thread_step s (s\<lparr>queue := f\<lparr>fbuf := (fbuf f)[unat (wri f) := c], wri := wri f + 1\<rparr>, wpc := W_saturate c\<rparr>)"
| write_saturate: "wpc s = W_saturate c \<Longrightarrow> f = queue s \<Longrightarrow>
    thread_step s (s\<lparr>queue := f\<lparr>wri := fifo_saturate (fifo_N f) (wri f)\<rparr>, wpc := W_count c\<rparr>)"
| write_count: "wpc s = W_count c \<Longrightarrow>
    thread_step s (s\<lparr>queue := safeInc (queue s), wpc := W_idle, accepted := accepted s @ [c]\<rparr>)"
| read_check: "rpc s = R_idle \<Longrightarrow>
    thread_step s (s\<lparr>rpc := if flen (queue s) > 0 then R_load else R_idle\<rparr>)"
| read_load: "rpc s = R_load \<Longrightarrow> f = queue s \<Longrightarrow>
    thread_step s (s\<lparr>queue := f\<lparr>rdi := rdi f + 1\<rparr>, rpc := R_saturate (fbuf f ! unat (rdi f))\<rparr>)"
| read_saturate: "rpc s = R_saturate c \<Longrightarrow> f = queue s \<Longrightarrow>
    thread_step s (s\<lparr>queue := f\<lparr>rdi := fifo_saturate (fifo_N f) (rdi f)\<rparr>, rpc := R_count c\<rparr>)"
| read_count: "rpc s = R_count c \<Longrightarrow>
    thread_step s (s\<lparr>queue := safeDec (queue s), rpc := R_idle, delivered := delivered s @ [c]\<rparr>)"

inductive threads_reach :: "'a list \<Rightarrow> 'a threads \<Rightarrow> bool" for b where
  start: "threads_reach b (threads_new b)"
| step: "threads_reach b s \<Longrightarrow> thread_step s t \<Longrightarrow> threads_reach b t"

text \<open>The values stored but not yet counted by the writer.\<close>

definition put_in :: "'a threads \<Rightarrow> 'a list" where
  "put_in s = accepted s @ (case wpc s of W_saturate c \<Rightarrow> [c] | W_count c \<Rightarrow> [c] | _ \<Rightarrow> [])"

definition wri_ok :: "nat \<Rightarrow> 'a threads \<Rightarrow> bool" where
  "wri_ok N s = (case wpc s of
     W_saturate c \<Rightarrow> unat (wri (queue s)) = length (accepted s) mod N + 1
   | W_count c \<Rightarrow> unat (wri (queue s)) = (length (accepted s) + 1) mod N
   | _ \<Rightarrow> unat (wri (queue s)) = length (accepted s) mod N)"

definition rdi_ok :: "nat \<Rightarrow> 'a threads \<Rightarrow> bool" where
  "rdi_ok N s = (case rpc s of
     R_saturate c \<Rightarrow> unat (rdi (queue s)) = length (delivered s) mod N + 1
   | R_count c \<Rightarrow> unat (rdi (queue s)) = (length (delivered s) + 1) mod N
   | _ \<Rightarrow> unat (rdi (queue s)) = length (delivered s) mod N)"

definition reader_ok :: "'a threads \<Rightarrow> bool" where
  "reader_ok s = (case rpc s of
     R_idle \<Rightarrow> True
   | R_load \<Rightarrow> length (delivered s) < length (accepted s)
   | R_saturate c \<Rightarrow> length (delivered s) < length (accepted s) \<and> c = accepted s ! length (delivered s)
   | R_count c \<Rightarrow> length (delivered s) < length (accepted s) \<and> c = accepted s ! length (delivered s))"

definition threads_inv :: "nat \<Rightarrow> 'a threads \<Rightarrow> bool" where
  "threads_inv N s \<longleftrightarrow> 0 < N \<and> N < 2 ^ 32 \<and> length (fbuf (queue s)) = N
     \<and> delivered s = take (length (delivered s)) (accepted s)
     \<and> length (accepted s) = length (delivered s) + unat (flen (queue s))
     \<and> length (accepted s) + (if wpc s = W_idle then 0 else 1) \<le> length (delivered s) + N
     \<and> (\<forall>i. length (delivered s) \<le> i \<and> i < length (put_in s) \<longrightarrow> fbuf (queue s) ! (i mod N) = put_in s ! i)
     \<and> wri_ok N s \<and> rdi_ok N s \<and> reader_ok s"

lemmas threads_simps = threads_inv_def put_in_def wri_ok_def rdi_ok_def reader_ok_def

lemma threads_inv_new: "0 < length b \<Longrightarrow> length b < 2 ^ 32 \<Longrightarrow> threads_inv (length b) (threads_new b)"
  by (simp add: threads_simps threads_new_def fifo_new_def)

lemma mod_window:
  assumes "i mod N = j mod N" and "d \<le> i" and "i < j" and "j < d + (N :: nat)"
  shows False
proof -
  have "(d + (i - d)) mod N = (d + (j - d)) mod N" using assms by simp
  then have "i - d = j - d" by (rule mod_add_cancel) (use assms in auto)
  then show False using assms by simp
qed

lemma threads_inv_step:
  assumes "thread_step s t" and inv: "threads_inv N s"
  shows "threads_inv N t"
  using assms(1)
proof (cases rule: thread_step.cases)
  case (write_check c)
  have "unat (fifo_N (queue s)) = N" using inv by (simp add: threads_inv_def unat_fifo_N)
  then show ?thesis using inv write_check
    by (auto simp: threads_simps word_less_nat_alt split: read_pc.splits)
next
  case (write_store c f)
  have w: "unat (wri f) = length (accepted s) mod N" "length (fbuf f) = N" "0 < N" "N < 2 ^ 32"
    using inv write_store by (auto simp: threads_simps)
  then have inc: "unat (wri f + 1) = length (accepted s) mod N + 1"
    by (subst unat_inc [of _ N]) auto
  have fbuf: "(fbuf f)[unat (wri f) := c] ! (i mod N) = (accepted s @ [c]) ! i"
    if "length (delivered s) \<le> i" "i < Suc (length (accepted s))" for i
    using that inv write_store w mod_window [of i N "length (accepted s)" "length (delivered s)"]
    by (cases "i = length (accepted s)") (auto simp: threads_simps nth_append nth_list_update)
  show ?thesis using inv write_store(1,2) fbuf inc
    by (auto simp: threads_simps write_store(3) split: read_pc.splits)
next
  case (write_saturate c f)
  have w: "unat (wri f) = length (accepted s) mod N + 1" "fifo_N f = of_nat N" "0 < N" "N < 2 ^ 32"
    using inv write_saturate by (auto simp: threads_simps fifo_N_def)
  then have "unat (fifo_saturate (fifo_N f) (wri f)) = Suc (length (accepted s)) mod N"
    by (simp add: saturate_next)
  then show ?thesis using inv write_saturate
    by (auto simp: threads_simps split: read_pc.splits)
next
  case (write_count c)
  then have "unat (flen (queue s)) < N" "N < 2 ^ 32" using inv by (auto simp: threads_simps)
  then have "unat (flen (queue s) + 1) = unat (flen (queue s)) + 1" by (rule unat_inc)
  then show ?thesis using inv write_count
    by (auto simp: threads_simps safeInc_def nth_append split: read_pc.splits)
next
  case read_check
  then show ?thesis using inv
    by (auto simp: threads_simps word_less_nat_alt split: write_pc.splits)
next
  case (read_load f)
  then have r: "unat (rdi f) = length (delivered s) mod N" "length (delivered s) < length (accepted s)"
      "0 < N" "N < 2 ^ 32"
    using inv by (auto simp: threads_simps)
  then have inc: "unat (rdi f + 1) = length (delivered s) mod N + 1"
    by (subst unat_inc [of _ N]) auto
  have "fbuf f ! (length (delivered s) mod N) = accepted s ! length (delivered s)"
    using inv read_load r(2) by (auto simp: threads_inv_def put_in_def nth_append)
  then show ?thesis using inv read_load inc r
    by (auto simp: threads_simps split: write_pc.splits)
next
  case (read_saturate c f)
  have w: "unat (rdi f) = length (delivered s) mod N + 1" "fifo_N f = of_nat N" "0 < N" "N < 2 ^ 32"
    using inv read_saturate by (auto simp: threads_simps fifo_N_def)
  then have "unat (fifo_saturate (fifo_N f) (rdi f)) = Suc (length (delivered s)) mod N"
    by (simp add: saturate_next)
  then show ?thesis using inv read_saturate
    by (auto simp: threads_simps split: write_pc.splits)
next
  case (read_count c)
  then have r: "length (delivered s) < length (accepted s)" "c = accepted s ! length (delivered s)"
      "length (accepted s) = length (delivered s) + unat (flen (queue s))"
    using inv by (auto simp: threads_simps)
  then have "unat (flen (queue s) - 1) = unat (flen (queue s)) - 1"
    by (intro unat_minus_one) auto
  moreover have "delivered s @ [c] = take (Suc (length (delivered s))) (accepted s)"
    using inv r by (simp add: take_Suc_conv_app_nth threads_inv_def)
  ultimately show ?thesis using inv read_count r
    by (auto simp: threads_simps safeDec_def split: write_pc.splits)
qed

lemma threads_reach_inv:
  assumes "threads_reach b s" and "0 < length b" and "length b < 2 ^ 32"
  shows "threads_inv (length b) s"
  using assms by (induction rule: threads_reach.induct) (auto intro: threads_inv_new threads_inv_step)

text \<open>A call that is not interrupted is the sequence of its steps: the same as the whole method.\<close>

lemma write_call:
  assumes "threads_reach b s" and "wpc s = W_idle" and "fifo_Write c (queue s) = (True, f)"
  shows "threads_reach b (s\<lparr>queue := f, accepted := accepted s @ [c]\<rparr>)"
proof -
  have room: "flen (queue s) < fifo_N (queue s)"
    using assms(3) by (auto simp: fifo_Write_def Let_def split: if_splits)
  note step = threads_reach.step
  note s1 = step [OF assms(1) write_check [OF assms(2), of c]]
  note s2 = step [OF s1 write_store [of _ c, OF _ refl]]
  note s3 = step [OF s2 write_saturate [of _ c, OF _ refl]]
  note s4 = step [OF s3 write_count [of _ c]]
  from s4 have "threads_reach b (s\<lparr>queue := f, wpc := W_idle, accepted := accepted s @ [c]\<rparr>)"
    using room assms(2,3) by (simp add: fifo_Write_def Let_def safeInc_def fifo_N_def split: if_splits)
  moreover have "s\<lparr>queue := f, wpc := W_idle, accepted := accepted s @ [c]\<rparr> = s\<lparr>queue := f, accepted := accepted s @ [c]\<rparr>"
    using assms(2) by (cases s) simp
  ultimately show ?thesis by (rule back_subst)
qed

lemma read_call:
  assumes "threads_reach b s" and "rpc s = R_idle" and "fifo_Read (queue s) = (Some c, f)"
  shows "threads_reach b (s\<lparr>queue := f, delivered := delivered s @ [c]\<rparr>)"
proof -
  have some: "0 < flen (queue s)"
    using assms(3) by (auto simp: fifo_Read_def Let_def split: if_splits)
  note step = threads_reach.step
  note s1 = step [OF assms(1) read_check [OF assms(2)]]
  note s2 = step [OF s1 read_load [OF _ refl]]
  note s3 = step [OF s2 read_saturate [of _ c, OF _ refl]]
  note s4 = step [OF s3 read_count [of _ c]]
  from s4 have "threads_reach b (s\<lparr>queue := f, rpc := R_idle, delivered := delivered s @ [c]\<rparr>)"
    using some assms(2,3) by (simp add: fifo_Read_def Let_def safeDec_def fifo_N_def split: if_splits)
  moreover have "s\<lparr>queue := f, rpc := R_idle, delivered := delivered s @ [c]\<rparr> = s\<lparr>queue := f, delivered := delivered s @ [c]\<rparr>"
    using assms(2) by (cases s) simp
  ultimately show ?thesis by (rule back_subst)
qed

text \<open>
  C32: Whatever the interleaving of the writer's and the reader's steps, the values the reader gets are
  the first ones the writer put in, in the same order, at most N are in between, and when neither is inside
  its method the queue is consistent and holds exactly the values not delivered yet.
\<close>

theorem fifo_threads:
  assumes "threads_reach b s" and "0 < length b" and "length b < 2 ^ 32"
  shows "delivered s = take (length (delivered s)) (accepted s)
    \<and> length (delivered s) \<le> length (accepted s) \<and> length (accepted s) \<le> length (delivered s) + length b
    \<and> (wpc s = W_idle \<and> rpc s = R_idle \<longrightarrow>
        fifo_inv (queue s) \<and> accepted s = delivered s @ fifo_abs (queue s))"
proof -
  note inv = threads_reach_inv [OF assms]
  have "fifo_inv (queue s) \<and> accepted s = delivered s @ fifo_abs (queue s)"
    if idle: "wpc s = W_idle" "rpc s = R_idle"
  proof -
    have "fifo_inv (queue s)" using inv idle by (auto simp: threads_simps fifo_inv_def mod_simps)
    moreover have "fifo_abs (queue s) = drop (length (delivered s)) (accepted s)"
      using inv idle by (intro nth_equalityI) (auto simp: threads_simps fifo_abs_def mod_simps)
    moreover have "accepted s = delivered s @ drop (length (delivered s)) (accepted s)"
      using inv by (metis append_take_drop_id threads_inv_def)
    ultimately show ?thesis by simp
  qed
  then show ?thesis using inv by (auto simp: threads_inv_def split: if_splits)
qed

theorem fifo_threads_witness:
  "\<exists>s. threads_reach [0, 0 :: u8] s \<and> accepted s = [5, 6] \<and> delivered s = [5]
     \<and> delivered s = take 1 (accepted s) \<and> fifo_abs (queue s) = [6]"
proof -
  let ?s = "threads_new [0, 0 :: u8]"
  let ?t = "\<lparr> queue = \<lparr>fbuf = [5, 6 :: u8], rdi = 0, wri = 0, flen = 2\<rparr>, wpc = W_idle, rpc = R_idle,
    accepted = [5, 6], delivered = [] \<rparr>"
  have "threads_reach [0, 0] ?s" by (rule start)
  from write_call [OF this, of 5] have "threads_reach [0, 0] (?s\<lparr>queue := snd (fifo_Write 5 (queue ?s)), accepted := [5]\<rparr>)"
    by (simp add: threads_new_def fifo_new_def fifo_Write_def Let_def fifo_N_def)
  from write_call [OF this, of 6] have "threads_reach [0, 0] ?t"
    by (simp add: threads_new_def fifo_new_def fifo_Write_def Let_def fifo_N_def fifo_saturate_def)
  from read_call [OF this, of 5] have "threads_reach [0, 0]
      (?t\<lparr>queue := \<lparr>fbuf = [5, 6], rdi = 1, wri = 0, flen = 1\<rparr>, delivered := [5]\<rparr>)"
    by (simp add: fifo_Read_def Let_def fifo_N_def fifo_saturate_def)
  from fifo_threads [OF this] this show ?thesis by (auto simp: fifo_abs_def)
qed

end
