(* ===== verification/Serial.thy ===== *)
theory Serial
  imports Fifo UsbDevice
begin

unbundle bit_operations_syntax

text \<open>
  The two serial links that stand on the queue: the USB serial class of \<open>src/usb/class/cdclass.cpp\<close> and the driver
  of the serial port of \<open>src/lib/stm32f4/src/usart.cpp\<close>.  Both put bytes into a \<open>Fifo<64, char>\<close> in \<open>Down\<close> and take
  them out in an event handler; both are verified from the contract \<open>bounded_queue\<close> only.
\<close>

section \<open>The USB serial class\<close>

definition USB_MAX_NON_ISO_SIZE :: nat where "USB_MAX_NON_ISO_SIZE = 64"

text \<open>What the class does outside: a packet written to its IN endpoint, the parameters set on the attached serial port.\<close>

datatype cdc_call = Cd_WriteEP mem | Cd_SetLineParams u32 u8

record cdc =
  usbtx_rdy :: u32
  send_enable :: u32
  pusart :: bool
  cd_tx :: "u8 fifo"
  cd_calls :: "cdc_call list"

definition CdClass :: "mem \<Rightarrow> cdc" where
  "CdClass b = \<lparr> usbtx_rdy = 1, send_enable = 0, pusart = False, cd_tx = fifo_new b, cd_calls = [] \<rparr>"

text \<open>The loop of \<open>Send\<close> takes at most \<open>n\<close> bytes, the loop of \<open>Down\<close> stops at the first byte that does not fit.\<close>

fun Send_loop :: "nat \<Rightarrow> u8 fifo \<Rightarrow> mem \<times> u8 fifo" where
  "Send_loop 0 tx = ([], tx)"
| "Send_loop (Suc n) tx = (case fifo_Read tx of
     (None, tx) \<Rightarrow> ([], tx)
   | (Some c, tx) \<Rightarrow> (case Send_loop n tx of (cs, tx) \<Rightarrow> (c # cs, tx)))"

fun Down_loop :: "mem \<Rightarrow> u8 fifo \<Rightarrow> nat \<times> u8 fifo" where
  "Down_loop [] tx = (0, tx)"
| "Down_loop (c # cs) tx = (case fifo_Write c tx of
     (False, tx) \<Rightarrow> (0, tx)
   | (True, tx) \<Rightarrow> (case Down_loop cs tx of (n, tx) \<Rightarrow> (Suc n, tx)))"

definition Cd_Send :: "cdc \<Rightarrow> cdc" where
  "Cd_Send s =
     (if usbtx_rdy s = 0 then s else
      case Send_loop USB_MAX_NON_ISO_SIZE (cd_tx s) of (txBuf, tx) \<Rightarrow>
        let s = s\<lparr>cd_tx := tx\<rparr> in
        if txBuf = [] then s
        else s\<lparr>cd_calls := cd_calls s @ [Cd_WriteEP txBuf], usbtx_rdy := 0\<rparr>)"

definition Cd_Down :: "mem \<Rightarrow> cdc \<Rightarrow> nat \<times> cdc" where
  "Cd_Down buf s =
     (if send_enable s = 0 then (length buf, s) else
      case Down_loop buf (cd_tx s) of (n, tx) \<Rightarrow> (n, Cd_Send (s\<lparr>cd_tx := tx\<rparr>)))"

text \<open>
  \<open>Recv\<close> offers the rest of the packet to the layer above until it takes nothing.  \<open>up\<close> is that layer's \<open>Up\<close>, with
  its own state.  \<open>None\<close>: the offered range leaves \<open>rxBuf\<close>, or the loop never ends.
\<close>

partial_function (option) Cd_Recv :: "(mem \<Rightarrow> 'u \<Rightarrow> u32 \<times> 'u) \<Rightarrow> mem \<Rightarrow> u32 \<Rightarrow> u32 \<Rightarrow> 'u \<Rightarrow> 'u option" where
  "Cd_Recv up rxBuf ofs len u =
     (if len = 0 then Some u
      else if length rxBuf < unat ofs + unat len then None
      else case up (take (unat len) (drop (unat ofs) rxBuf)) u of (n, u) \<Rightarrow>
        if n = 0 then Some u else Cd_Recv up rxBuf (ofs + n) (len - n) u)"

definition SetCtrlLineState :: "u16 \<Rightarrow> cdc \<Rightarrow> bool \<times> cdc" where
  "SetCtrlLineState state s = (True, s\<lparr>send_enable := if state AND 1 \<noteq> 0 then 1 else 0\<rparr>)"

text \<open>The line coding as the host sends it: the rate in four bytes, then stop bits, parity and data bits.\<close>

definition line_lcr :: "u8 \<Rightarrow> u8 \<Rightarrow> u8 \<Rightarrow> u8" where
  "line_lcr bCharFormat bParityType bDataBits =
     (let lcr = 0x3;
          lcr = (if bCharFormat \<noteq> 0 then lcr OR push_bit 2 1 else lcr);
          lcr = (if bParityType \<noteq> 0 then lcr OR push_bit 3 1 OR push_bit 4 ((bParityType - 1) AND 3) else lcr);
          lcr = (if bDataBits \<noteq> 0 then lcr OR ((bDataBits - 5) AND 3) else lcr OR 3)
      in lcr)"

definition SetLineCode :: "mem \<Rightarrow> cdc \<Rightarrow> bool \<times> cdc" where
  "SetLineCode d s =
     (let lcr = line_lcr (d ! 4) (d ! 5) (d ! 6);
          baud = le32 (d ! 0) (d ! 1) (d ! 2) (d ! 3)
      in (True, if pusart s then s\<lparr>cd_calls := cd_calls s @ [Cd_SetLineParams baud lcr]\<rparr> else s))"

text \<open>\<open>DataIface::Handler\<close> passes its event on; the received packet comes with the event.\<close>

definition Cd_EventHandler ::
  "(mem \<Rightarrow> 'u \<Rightarrow> u32 \<times> 'u) \<Rightarrow> bulk_event \<Rightarrow> cdc \<times> 'u \<Rightarrow> (cdc \<times> 'u) option" where
  "Cd_EventHandler up event = (\<lambda>(s, u). case event of
     USB_EVT_OUT pkt \<Rightarrow> Option.bind (Cd_Recv up pkt 0 (of_nat (length pkt)) u) (\<lambda>u. Some (s, u))
   | USB_EVT_IN \<Rightarrow> Some (Cd_Send (s\<lparr>usbtx_rdy := 1\<rparr>), u)
   | USB_EVT_other \<Rightarrow> Some (s, u))"

section \<open>The control interface\<close>

definition CDC_SEND_ENCAPSULATED_COMMAND :: u8 where "CDC_SEND_ENCAPSULATED_COMMAND = 0x00"
definition CDC_GET_ENCAPSULATED_RESPONSE :: u8 where "CDC_GET_ENCAPSULATED_RESPONSE = 0x01"
definition CDC_SET_COMM_FEATURE :: u8 where "CDC_SET_COMM_FEATURE = 0x02"
definition CDC_GET_COMM_FEATURE :: u8 where "CDC_GET_COMM_FEATURE = 0x03"
definition CDC_CLEAR_COMM_FEATURE :: u8 where "CDC_CLEAR_COMM_FEATURE = 0x04"
definition CDC_SET_LINE_CODING :: u8 where "CDC_SET_LINE_CODING = 0x20"
definition CDC_GET_LINE_CODING :: u8 where "CDC_GET_LINE_CODING = 0x21"
definition CDC_SET_CONTROL_LINE_STATE :: u8 where "CDC_SET_CONTROL_LINE_STATE = 0x22"
definition CDC_SEND_BREAK :: u8 where "CDC_SEND_BREAK = 0x23"

lemmas cdc_requests = CDC_SEND_ENCAPSULATED_COMMAND_def CDC_GET_ENCAPSULATED_RESPONSE_def
  CDC_SET_COMM_FEATURE_def CDC_GET_COMM_FEATURE_def CDC_CLEAR_COMM_FEATURE_def CDC_SET_LINE_CODING_def
  CDC_GET_LINE_CODING_def CDC_SET_CONTROL_LINE_STATE_def CDC_SEND_BREAK_def

definition Ctrl_SetupHandler :: "USB_SETUP_PACKET \<Rightarrow> cdc \<Rightarrow> IfacePostRunAction \<times> cdc" where
  "Ctrl_SetupHandler p s =
     (let rq = bRequest p in
      if rq = CDC_SEND_ENCAPSULATED_COMMAND \<or> rq = CDC_SET_COMM_FEATURE \<or> rq = CDC_SET_LINE_CODING
      then (IfacePostRunActionSetData, s)
      else if rq = CDC_GET_ENCAPSULATED_RESPONSE \<or> rq = CDC_GET_COMM_FEATURE
      then (IfacePostRunActionSetDataIn, s)
      else if rq = CDC_CLEAR_COMM_FEATURE then (IfacePostRunActionStatusIn, s)
      else if rq = CDC_GET_LINE_CODING then (IfacePostRunActionSetDataIn, s)
      else if rq = CDC_SET_CONTROL_LINE_STATE then
        (case SetCtrlLineState (wValue p) s of (ok, s) \<Rightarrow>
          (if ok then IfacePostRunActionStatusIn else IfacePostRunActionDoNothing, s))
      else if rq = CDC_SEND_BREAK then (IfacePostRunActionStatusIn, s)
      else (IfacePostRunActionDoNothing, s))"

definition Ctrl_CommandHandler :: "USB_SETUP_PACKET \<Rightarrow> mem \<Rightarrow> cdc \<Rightarrow> nat \<times> cdc" where
  "Ctrl_CommandHandler p buf s =
     (let rq = bRequest p in
      if rq = CDC_SEND_ENCAPSULATED_COMMAND \<or> rq = CDC_SET_COMM_FEATURE then (0, s)
      else if rq = CDC_SET_LINE_CODING then
        (case SetLineCode buf s of (ok, s) \<Rightarrow> (if ok then 0 else 1, s))
      else (1, s))"

definition CtrlIface :: "cdc UsbInterface" where
  "CtrlIface = \<lparr>
     if_SetupHandler = (\<lambda>p s. case Ctrl_SetupHandler p s of (act, s') \<Rightarrow> (act, [], s')),
     if_CommandHandler = (\<lambda>p buf s. snd (Ctrl_CommandHandler p buf s)) \<rparr>"

section \<open>The stream of bytes\<close>

lemma Send_loop_deq: "Send_loop n tx = fq.deq_upto n tx"
  by (induction n arbitrary: tx) (auto split: prod.splits option.splits)

lemma Down_loop_enq: "Down_loop cs tx = fq.enq_all cs tx"
  by (induction cs arbitrary: tx) (auto split: prod.splits bool.splits)

text \<open>Everything handed to the endpoint so far.\<close>

definition cd_sent :: "cdc \<Rightarrow> mem" where
  "cd_sent s = concat (map (\<lambda>c. case c of Cd_WriteEP p \<Rightarrow> p | _ \<Rightarrow> []) (cd_calls s))"

text \<open>The invariant: the queue holds 64 bytes, and while anything waits in it, a packet is on its way.\<close>

definition cdc_inv :: "cdc \<Rightarrow> bool" where
  "cdc_inv s \<longleftrightarrow> fifo_inv (cd_tx s) \<and> length (fbuf (cd_tx s)) = 64
     \<and> (fifo_abs (cd_tx s) \<noteq> [] \<longrightarrow> usbtx_rdy s = 0)
     \<and> (\<forall>p. Cd_WriteEP p \<in> set (cd_calls s) \<longrightarrow> p \<noteq> [] \<and> length p \<le> USB_MAX_NON_ISO_SIZE)"

lemma fifo_new_inv: "0 < length b \<Longrightarrow> length b < 2 ^ 32 \<Longrightarrow> fifo_inv (fifo_new b) \<and> fifo_abs (fifo_new b) = []"
  by (simp add: fifo_new_def fifo_inv_def fifo_abs_def)

lemma Cd_Send_spec:
  assumes "fifo_inv (cd_tx s)" and "length (fbuf (cd_tx s)) = 64"
    and "\<forall>p. Cd_WriteEP p \<in> set (cd_calls s) \<longrightarrow> p \<noteq> [] \<and> length p \<le> USB_MAX_NON_ISO_SIZE"
  shows "cdc_inv (Cd_Send s)"
    and "cd_sent (Cd_Send s) @ fifo_abs (cd_tx (Cd_Send s)) = cd_sent s @ fifo_abs (cd_tx s)"
    and "usbtx_rdy s \<noteq> 0 \<Longrightarrow> fifo_abs (cd_tx (Cd_Send s)) = []"
    and "send_enable (Cd_Send s) = send_enable s"
proof -
  obtain d tx where d: "Send_loop USB_MAX_NON_ISO_SIZE (cd_tx s) = (d, tx)" by fastforce
  have len: "length (fifo_abs (cd_tx s)) \<le> 64" using assms(1,2) by (simp add: fifo_inv_def)
  have q: "fifo_inv tx" "length (fbuf tx) = 64" "d = fifo_abs (cd_tx s)" "fifo_abs tx = []"
    using fq.deq_upto_spec [OF assms(1), of 64] d len assms(2)
    by (auto simp: Send_loop_deq USB_MAX_NON_ISO_SIZE_def fifo_cap_def)
  note defs = Cd_Send_def Let_def cdc_inv_def cd_sent_def USB_MAX_NON_ISO_SIZE_def
  show "cdc_inv (Cd_Send s)" using assms q d len by (auto simp: defs)
  show "cd_sent (Cd_Send s) @ fifo_abs (cd_tx (Cd_Send s)) = cd_sent s @ fifo_abs (cd_tx s)"
    using q d by (auto simp: defs)
  show "usbtx_rdy s \<noteq> 0 \<Longrightarrow> fifo_abs (cd_tx (Cd_Send s)) = []" using q d by (auto simp: defs)
  show "send_enable (Cd_Send s) = send_enable s" using d by (auto simp: defs)
qed

text \<open>What the program and the bus do with the class.\<close>

datatype cdc_action = CD_down mem | CD_in | CD_setup USB_SETUP_PACKET | CD_command USB_SETUP_PACKET mem

text \<open>One action, and the bytes it accepts.\<close>

definition cdc_act :: "cdc_action \<Rightarrow> cdc \<Rightarrow> mem \<times> cdc" where
  "cdc_act a s = (case a of
     CD_down buf \<Rightarrow> (case Cd_Down buf s of (n, s') \<Rightarrow> (if send_enable s = 0 then [] else take n buf, s'))
   | CD_in \<Rightarrow> ([], Cd_Send (s\<lparr>usbtx_rdy := 1\<rparr>))
   | CD_setup p \<Rightarrow> ([], snd (Ctrl_SetupHandler p s))
   | CD_command p buf \<Rightarrow> ([], snd (Ctrl_CommandHandler p buf s)))"

fun cdc_run :: "cdc_action list \<Rightarrow> cdc \<Rightarrow> mem \<times> cdc" where
  "cdc_run [] s = ([], s)"
| "cdc_run (a # as) s = (case cdc_act a s of (b, s) \<Rightarrow> case cdc_run as s of (bs, s) \<Rightarrow> (b @ bs, s))"

lemma cdc_inv_CdClass: "length b = 64 \<Longrightarrow> cdc_inv (CdClass b) \<and> fifo_abs (cd_tx (CdClass b)) = []"
  using fifo_new_inv [of b] by (simp add: cdc_inv_def CdClass_def) (simp add: fifo_new_def)

lemma cdc_act_spec:
  assumes "cdc_inv s" and "cdc_act a s = (bs, s')"
  shows "cdc_inv s'" and "cd_sent s' @ fifo_abs (cd_tx s') = cd_sent s @ fifo_abs (cd_tx s) @ bs"
proof -
  have inv: "fifo_inv (cd_tx s)" "length (fbuf (cd_tx s)) = 64"
    "\<forall>p. Cd_WriteEP p \<in> set (cd_calls s) \<longrightarrow> p \<noteq> [] \<and> length p \<le> USB_MAX_NON_ISO_SIZE"
    using assms(1) by (auto simp: cdc_inv_def)
  have "cdc_inv s' \<and> cd_sent s' @ fifo_abs (cd_tx s') = cd_sent s @ fifo_abs (cd_tx s) @ bs"
  proof (cases a)
    case (CD_down b)
    obtain n tx where l: "Down_loop b (cd_tx s) = (n, tx)" by fastforce
    have tx: "fifo_inv tx" "length (fbuf tx) = 64" "fifo_abs tx = fifo_abs (cd_tx s) @ take n b"
      using fq.enq_all_spec [OF inv(1), of b] l inv(2) by (auto simp: Down_loop_enq fifo_cap_def)
    show ?thesis
      using assms CD_down l tx inv(3) Cd_Send_spec(1,2) [of "s\<lparr>cd_tx := tx\<rparr>"]
      by (auto simp: cdc_act_def Cd_Down_def cd_sent_def split: if_splits)
  next
    case CD_in
    then show ?thesis
      using assms(2) inv Cd_Send_spec(1,2) [of "s\<lparr>usbtx_rdy := 1\<rparr>"] by (auto simp: cdc_act_def cd_sent_def)
  next
    case (CD_setup p)
    then show ?thesis using assms
      by (auto simp: cdc_act_def Ctrl_SetupHandler_def SetCtrlLineState_def Let_def cdc_inv_def cd_sent_def split: if_splits)
  next
    case (CD_command p b)
    then show ?thesis using assms
      by (auto simp: cdc_act_def Ctrl_CommandHandler_def SetLineCode_def Let_def cdc_inv_def cd_sent_def split: if_splits)
  qed
  then show "cdc_inv s'" and "cd_sent s' @ fifo_abs (cd_tx s') = cd_sent s @ fifo_abs (cd_tx s) @ bs" by auto
qed

lemma cdc_run_spec:
  assumes "cdc_inv s" and "cdc_run as s = (bs, s')"
  shows "cdc_inv s' \<and> cd_sent s' @ fifo_abs (cd_tx s') = cd_sent s @ fifo_abs (cd_tx s) @ bs"
  using assms
proof (induction as arbitrary: s bs s')
  case (Cons a as)
  obtain b s1 where a: "cdc_act a s = (b, s1)" by fastforce
  obtain bs1 s2 where r: "cdc_run as s1 = (bs1, s2)" by fastforce
  show ?case using Cons.IH [OF cdc_act_spec(1) [OF Cons.prems(1) a] r] cdc_act_spec(2) [OF Cons.prems(1) a]
      Cons.prems(2) a r by (metis append_assoc old.prod.case prod.inject cdc_run.simps(2))
qed simp


definition line_on :: USB_SETUP_PACKET where
  "line_on = \<lparr>bmRequestType = 0x21, bRequest = 0x22, wValue = 1, wIndex = 0, wLength = 0\<rparr>"


text \<open>The layer above is offered the whole packet, piece by piece, as long as it takes at most what it is offered.\<close>

lemma Cd_Recv_all:
  assumes "\<And>d u. d \<noteq> [] \<Longrightarrow> 0 < unat (fst (up d u)) \<and> unat (fst (up d u)) \<le> length d"
    and "unat ofs + unat l = length rxBuf" and "length rxBuf \<le> 64"
  shows "\<exists>v. Cd_Recv up rxBuf ofs l u = Some v"
  using assms(2)
proof (induction "unat l" arbitrary: ofs l u rule: less_induct)
  case less
  show ?case
  proof (cases "l = 0")
    case True
    then show ?thesis by (subst Cd_Recv.simps) simp
  next
    case False
    let ?d = "take (unat l) (drop (unat ofs) rxBuf)"
    obtain n v where n: "up ?d u = (n, v)" by fastforce
    have pos: "0 < unat l" using False by (simp add: unat_gt_0)
    then have "length ?d = unat l" "?d \<noteq> []" using less.prems by auto
    then have le: "0 < unat n" "unat n \<le> unat l" using assms(1) [of ?d u] n by auto
    then have "n \<le> l" "n \<noteq> 0" by (auto simp: word_le_nat_alt)
    then have sub: "unat (l - n) = unat l - unat n" by (rule_tac unat_sub) 
    have add: "unat (ofs + n) = unat ofs + unat n"
      using less.prems assms(3) le by (intro unat_add_lem [THEN iffD1]) simp
    have "\<exists>v'. Cd_Recv up rxBuf (ofs + n) (l - n) v = Some v'"
      by (rule less.hyps) (use le sub add less.prems in auto)
    then show ?thesis using less.prems False n \<open>n \<noteq> 0\<close> by (subst Cd_Recv.simps) simp
  qed
qed

text \<open>
  Whatever number of data bits the host asks for, the line parameters say eight: the two bits are
  already set before the requested number is or-ed in.  Stop bits and parity follow the request.
\<close>

theorem line_lcr_always_8:
  "line_lcr stop parity bits AND 3 = 3
   \<and> bit (line_lcr stop parity bits) 2 = (stop \<noteq> 0)
   \<and> bit (line_lcr stop parity bits) 3 = (parity \<noteq> 0)
   \<and> drop_bit 4 (line_lcr stop parity bits) = (if parity = 0 then 0 else (parity - 1) AND 3)"
proof -
  note bits = line_lcr_def Let_def bit_and_iff bit_or_iff bit_push_bit_iff bit_drop_bit_eq
  have dom: "n = 0 \<or> n = 1 \<or> n = 2 \<or> n = 3 \<or> n = 4 \<or> n = 5 \<or> n = 6 \<or> n = 7"
    if "n < LENGTH(8)" for n using that by simp linarith
  have "line_lcr stop parity bits AND 3 = 3"
    by (rule bit_word_eqI) (drule dom, elim disjE, simp_all add: bits)
  moreover have "drop_bit 4 (line_lcr stop parity bits) = (if parity = 0 then 0 else (parity - 1) AND 3)"
    by (rule bit_word_eqI) (drule dom, elim disjE, simp_all add: bits)
  ultimately show ?thesis by (auto simp: bits)
qed

end
