(* ===== verification/Usart.thy ===== *)
theory Usart
  imports Serial
begin

unbundle bit_operations_syntax

text \<open>
  The driver of the serial ports, \<open>src/lib/stm32f4/src/usart.cpp\<close>: the interrupt handler, \<open>Down\<close>, the table
  from interrupt lines to instances and the computation of the baud rate register.  The registers are fields of the state; the
  ones of the clock tree are arguments.
\<close>

section \<open>The driver\<close>

definition USART_SR_RXNE :: u16 where "USART_SR_RXNE = 0x0020"
definition USART_SR_TXE :: u16 where "USART_SR_TXE = 0x0080"
definition USART_CR1_RE :: u16 where "USART_CR1_RE = 0x0004"
definition USART_CR1_TE :: u16 where "USART_CR1_TE = 0x0008"
definition USART_CR1_RXNEIE :: u16 where "USART_CR1_RXNEIE = 0x0020"
definition USART_CR1_TXEIE :: u16 where "USART_CR1_TXEIE = 0x0080"
definition USART_CR1_UE :: u16 where "USART_CR1_UE = 0x2000"
definition USART_CR1_OVER8 :: u16 where "USART_CR1_OVER8 = 0x8000"
definition USART_CR3_HDSEL :: u16 where "USART_CR3_HDSEL = 0x0008"

lemmas usart_bits = USART_SR_RXNE_def USART_SR_TXE_def USART_CR1_RE_def USART_CR1_TE_def USART_CR1_RXNEIE_def
  USART_CR1_TXEIE_def USART_CR1_UE_def USART_CR1_OVER8_def USART_CR3_HDSEL_def

text \<open>\<open>us_DR\<close> is what was written to the data register, \<open>us_up\<close> what was passed to the layer above.\<close>

record usart =
  CR1 :: u16
  CR2 :: u16
  CR3 :: u16
  BRR :: u16
  uno :: nat
  us_tx :: "u8 fifo"
  us_DR :: mem
  us_up :: mem

definition usart_irq :: "u16 \<Rightarrow> u8 \<Rightarrow> usart \<Rightarrow> usart" where
  "usart_irq status rdata s =
     (let s = (if status AND USART_SR_TXE \<noteq> 0 then
                 (case fifo_Read (us_tx s) of
                    (Some tdata, tx) \<Rightarrow> s\<lparr>us_tx := tx, us_DR := us_DR s @ [tdata]\<rparr>
                  | (None, tx) \<Rightarrow> s\<lparr>us_tx := tx, CR1 := CR1 s AND NOT USART_CR1_TXEIE\<rparr>)
               else s)
      in if status AND USART_SR_RXNE \<noteq> 0 then s\<lparr>us_up := us_up s @ [rdata]\<rparr> else s)"

definition usart_Down :: "mem \<Rightarrow> usart \<Rightarrow> nat \<times> usart" where
  "usart_Down data s =
     (case Down_loop data (us_tx s) of (res, tx) \<Rightarrow>
        let s = s\<lparr>us_tx := tx\<rparr> in
        if res = 0 then (res, s) else (res, s\<lparr>CR1 := CR1 s OR USART_CR1_TXEIE\<rparr>))"

definition SetHalfDuplex :: "bool \<Rightarrow> usart \<Rightarrow> usart" where
  "SetHalfDuplex on s =
     (let s = s\<lparr>CR1 := CR1 s AND NOT USART_CR1_UE\<rparr>;
          s = s\<lparr>CR3 := if on then CR3 s OR USART_CR3_HDSEL else CR3 s AND NOT USART_CR3_HDSEL\<rparr>
      in s\<lparr>CR1 := CR1 s OR USART_CR1_UE\<rparr>)"

text \<open>The exponent of the bus prescaler, from the three bits of the clock configuration register.\<close>

definition APBAHBPrescTable :: "nat list" where
  "APBAHBPrescTable = [0, 0, 0, 0, 1, 2, 3, 4, 1, 2, 3, 4, 6, 7, 8, 9]"

definition prescaler :: "nat \<Rightarrow> u32 \<Rightarrow> nat" where
  "prescaler no CFGR = APBAHBPrescTable !
     unat (if no \<noteq> 0 then drop_bit 10 (CFGR AND 0x1C00) else drop_bit 13 (CFGR AND 0xE000))"

text \<open>The value for the register, in 32-bit arithmetic; division by zero does not trap on this processor and gives zero.\<close>

definition baud_divider :: "bool \<Rightarrow> u32 \<Rightarrow> u32 \<Rightarrow> u16" where
  "baud_divider over8 apbclock baud =
     (let integerdivider = (if over8 then (25 * apbclock) div (2 * baud) else (25 * apbclock) div (4 * baud));
          tmp = push_bit 4 (integerdivider div 100);
          fractionaldivider = integerdivider - 100 * drop_bit 4 tmp
      in ucast (if over8 then tmp OR (((fractionaldivider * 8 + 50) div 100) AND 0x07)
                else tmp OR (((fractionaldivider * 16 + 50) div 100) AND 0x0F)))"

definition SetBaud :: "u32 \<Rightarrow> u32 \<Rightarrow> u32 \<Rightarrow> usart \<Rightarrow> usart" where
  "SetBaud CFGR SystemCoreClock baud s =
     (let s = s\<lparr>CR1 := CR1 s AND NOT USART_CR1_UE\<rparr>;
          apbclock = drop_bit (prescaler (uno s) CFGR) SystemCoreClock;
          s = s\<lparr>BRR := baud_divider (CR1 s AND USART_CR1_OVER8 \<noteq> 0) apbclock baud\<rparr>
      in s\<lparr>CR1 := CR1 s OR USART_CR1_UE\<rparr>)"

definition usart_Init :: "u32 \<Rightarrow> u32 \<Rightarrow> u32 \<Rightarrow> usart \<Rightarrow> usart" where
  "usart_Init CFGR SystemCoreClock baud s =
     (let s = s\<lparr>CR1 := CR1 s AND NOT USART_CR1_UE\<rparr>;
          s = s\<lparr>CR1 := USART_CR1_RE OR USART_CR1_TE OR USART_CR1_RXNEIE\<rparr>;
          s = s\<lparr>CR2 := 0\<rparr>
      in SetBaud CFGR SystemCoreClock baud s)"

text \<open>The four interrupt lines and the entry of the table that each one serves.\<close>

datatype usart_line = USART1_IRQ | USART2_IRQ | USART3_IRQ | UART4_IRQ

fun line_instance :: "usart_line \<Rightarrow> nat" where
  "line_instance USART1_IRQ = 0"
| "line_instance USART2_IRQ = 1"
| "line_instance USART3_IRQ = 1"
| "line_instance UART4_IRQ = 1"

type_synonym usart_table = "usart option list"

definition IRQHandler :: "usart_line \<Rightarrow> u16 \<Rightarrow> u8 \<Rightarrow> usart_table \<Rightarrow> usart_table" where
  "IRQHandler line status rdata tab = (case tab ! line_instance line of
     None \<Rightarrow> tab
   | Some inst \<Rightarrow> tab[line_instance line := Some (usart_irq status rdata inst)])"

text \<open>The constructor enters the first instance of a port into the table and leaves the second one alone.\<close>

definition UsartClass :: "nat \<Rightarrow> mem \<Rightarrow> u32 \<Rightarrow> u32 \<Rightarrow> u32 \<Rightarrow> usart_table \<Rightarrow> usart \<times> usart_table" where
  "UsartClass no b CFGR SystemCoreClock baud tab =
     (let s = \<lparr>CR1 = 0, CR2 = 0, CR3 = 0, BRR = 0, uno = no, us_tx = fifo_new b, us_DR = [], us_up = []\<rparr> in
      if tab ! no \<noteq> None then (s, tab)
      else let s = usart_Init CFGR SystemCoreClock baud s in (s, tab[no := Some s]))"

text \<open>The destructor takes the instance out of the table.\<close>

definition usart_Fini :: "usart \<Rightarrow> usart_table \<Rightarrow> usart_table" where
  "usart_Fini s tab = tab[uno s := None]"

section \<open>Bytes out and in\<close>

datatype usart_event = US_down mem | US_irq u16 u8 | US_duplex bool

definition usart_handle :: "usart_event \<Rightarrow> usart \<Rightarrow> mem \<times> usart" where
  "usart_handle e s = (case e of
     US_down data \<Rightarrow> (case usart_Down data s of (n, s) \<Rightarrow> (take n data, s))
   | US_irq status rdata \<Rightarrow> ([], usart_irq status rdata s)
   | US_duplex on \<Rightarrow> ([], SetHalfDuplex on s))"

fun usart_run :: "usart_event list \<Rightarrow> usart \<Rightarrow> mem \<times> usart" where
  "usart_run [] s = ([], s)"
| "usart_run (e # es) s = (case usart_handle e s of (b, s) \<Rightarrow> case usart_run es s of (bs, s) \<Rightarrow> (b @ bs, s))"

definition usart_inv :: "usart \<Rightarrow> bool" where
  "usart_inv s \<longleftrightarrow> fifo_inv (us_tx s) \<and> length (fbuf (us_tx s)) = 64
     \<and> (fifo_abs (us_tx s) \<noteq> [] \<longrightarrow> bit (CR1 s) 7)"

lemma TXEIE_bit: "bit USART_CR1_TXEIE n = (n = 7)"
proof -
  have eq: "USART_CR1_TXEIE = 2 ^ 7" by (simp add: usart_bits)
  show ?thesis unfolding eq bit_exp_iff by auto
qed

lemma UE_bit: "bit USART_CR1_UE n = (n = 13)"
proof -
  have eq: "USART_CR1_UE = 2 ^ 13" by (simp add: usart_bits)
  show ?thesis unfolding eq bit_exp_iff by auto
qed

lemma SetHalfDuplex_keeps [simp]:
  "us_tx (SetHalfDuplex on s) = us_tx s" "us_DR (SetHalfDuplex on s) = us_DR s" "us_up (SetHalfDuplex on s) = us_up s"
  "bit (CR1 (SetHalfDuplex on s)) 7 = bit (CR1 s) 7"
  by (auto simp: SetHalfDuplex_def Let_def bit_simps UE_bit)

lemma usart_event_spec:
  assumes "usart_inv s" and "usart_handle e s = (bs, s')"
  shows "usart_inv s' \<and> us_DR s' @ fifo_abs (us_tx s') = us_DR s @ fifo_abs (us_tx s) @ bs"
proof (cases e)
  case (US_down data)
  obtain n tx where l: "Down_loop data (us_tx s) = (n, tx)" by fastforce
  have tx: "fifo_inv tx" "length (fbuf tx) = 64" "fifo_abs tx = fifo_abs (us_tx s) @ take n data"
    using fq.enq_all_spec [of "us_tx s" data] l assms(1) by (auto simp: Down_loop_enq fifo_cap_def usart_inv_def)
  show ?thesis using assms US_down l tx
    by (auto simp: usart_handle_def usart_Down_def Let_def usart_inv_def bit_simps TXEIE_bit split: if_splits)
next
  case (US_irq status rdata)
  have inv: "fifo_inv (us_tx s)" using assms(1) by (simp add: usart_inv_def)
  show ?thesis
    by (cases rule: fifo_Read_cases [OF inv])
      (use assms US_irq in \<open>auto simp: usart_handle_def usart_irq_def Let_def usart_inv_def bit_simps\<close>)
next
  case (US_duplex on)
  then show ?thesis using assms by (auto simp: usart_handle_def usart_inv_def)
qed

lemma usart_run_spec:
  assumes "usart_inv s" and "usart_run es s = (bs, s')"
  shows "usart_inv s' \<and> us_DR s' @ fifo_abs (us_tx s') = us_DR s @ fifo_abs (us_tx s) @ bs"
  using assms
proof (induction es arbitrary: s bs)
  case (Cons e es)
  obtain b s1 where a: "usart_handle e s = (b, s1)" by fastforce
  obtain bs1 s2 where r: "usart_run es s1 = (bs1, s2)" by fastforce
  have s2: "s2 = s'" "bs = b @ bs1" using Cons.prems(2) a r by auto
  have "usart_inv s1" "us_DR s1 @ fifo_abs (us_tx s1) = us_DR s @ fifo_abs (us_tx s) @ b"
    using usart_event_spec [OF Cons.prems(1) a] by auto
  then show ?case using Cons.IH [of s1 bs1] r s2 by (metis append_assoc)
qed simp

text \<open>Enough transmit interrupts empty the queue.\<close>

lemma usart_drain:
  assumes "usart_inv s" and "length (fifo_abs (us_tx s)) \<le> k"
  shows "us_DR (snd (usart_run (replicate k (US_irq USART_SR_TXE 0)) s)) = us_DR s @ fifo_abs (us_tx s)"
  using assms
proof (induction k arbitrary: s)
  case (Suc k)
  have inv: "fifo_inv (us_tx s)" using Suc.prems(1) by (simp add: usart_inv_def)
  have bits: "USART_SR_TXE AND USART_SR_TXE \<noteq> 0" "USART_SR_TXE AND USART_SR_RXNE = 0" by (simp_all add: usart_bits)
  obtain s1 where s1: "usart_handle (US_irq USART_SR_TXE 0) s = ([], s1)" by (simp add: usart_handle_def)
  have step: "usart_inv s1" "us_DR s1 @ fifo_abs (us_tx s1) = us_DR s @ fifo_abs (us_tx s)"
    using usart_event_spec [OF Suc.prems(1) s1] by auto
  have "length (fifo_abs (us_tx s1)) \<le> k"
    by (cases rule: fifo_Read_cases [OF inv])
      (use s1 Suc.prems(2) bits in \<open>auto simp: usart_handle_def usart_irq_def Let_def simp del: length_fifo_abs\<close>)
  then show ?case using Suc.IH [OF step(1)] step(2) s1 by (auto split: prod.splits)
qed (auto simp: fifo_abs_def)


definition usart_example :: usart where
  "usart_example = fst (UsartClass 0 (replicate 64 0) 0 16000000 9600 (replicate 4 None))"

lemma usart_example_inv: "usart_inv usart_example \<and> fifo_abs (us_tx usart_example) = []"
  using fifo_new_inv [of "replicate 64 0 :: mem"]
  by (simp add: usart_example_def UsartClass_def usart_Init_def SetBaud_def Let_def usart_inv_def)
    (simp add: fifo_new_def)


text \<open>
  C35: The handlers of the third and the fourth port serve the second instance: no interrupt, of any
  line, ever reaches the instances of the last two ports, and the second one gets the interrupts of three lines.
\<close>

theorem usart_lines:
  "length tab = 4 \<Longrightarrow>
   IRQHandler line status rdata tab ! 2 = tab ! 2 \<and> IRQHandler line status rdata tab ! 3 = tab ! 3
   \<and> (line \<noteq> USART1_IRQ \<longrightarrow> tab ! 1 = Some inst \<longrightarrow>
       IRQHandler line status rdata tab ! 1 = Some (usart_irq status rdata inst))"
  by (cases line) (auto simp: IRQHandler_def split: option.splits)

theorem usart_lines_witness:
  "\<exists>tab. tab ! 2 = Some usart_example \<and> IRQHandler USART3_IRQ 0x20 7 tab ! 2 = Some usart_example"
  using usart_lines [where tab = "[None, None, Some usart_example, None]" and line = USART3_IRQ and status = "0x20" and rdata = "7"]
  by (intro exI [of _ "[None, None, Some usart_example, None]"]) simp

section \<open>The baud rate\<close>

lemma baud_carry:
  fixes q :: nat
  shows "16 * (q div 100) + ((16 * (q mod 100) + 50) div 100) mod 16
    = (16 * q + 50) div 100 - (if 97 \<le> q mod 100 then 16 else 0)"
proof -
  let ?r = "(16 * (q mod 100) + 50) div 100"
  have "(16 * q + 50) div 100 = 16 * (q div 100) + ?r"
  proof -
    have "16 * q + 50 = (16 * (q mod 100) + 50) + 16 * (q div 100) * 100"
      using div_mult_mod_eq [of q 100] by linarith
    then show ?thesis by (simp only: div_mult_self1)
  qed
  moreover have "?r mod 16 = ?r - (if 97 \<le> q mod 100 then 16 else 0)"
  proof (cases "97 \<le> q mod 100")
    case True
    have "q mod 100 < 100" by simp
    with True have "q mod 100 = 97 \<or> q mod 100 = 98 \<or> q mod 100 = 99" by linarith
    then show ?thesis by auto
  next
    case False
    then have "?r < 16" by (simp add: div_less_iff_less_mult)
    then show ?thesis using False by simp
  qed
  moreover have "97 \<le> q mod 100 \<longrightarrow> 16 \<le> ?r" by (simp add: less_eq_div_iff_mult_less_eq)
  ultimately show ?thesis by (auto split: if_splits)
qed

text \<open>
  With 16 samples a bit, the register holds the divider in sixteenths, rounded to the nearest, as long as the
  fraction is at most 0.96; above that the carry of the rounding is masked away and the register is 16 too small,
  the port too fast.
\<close>

theorem baud_rounding:
  assumes "unat clk * 25 < 2 ^ 32" and "0 < baud" and "unat baud * 4 < 2 ^ 32"
  defines "q \<equiv> (25 * unat clk) div (4 * unat baud)"
  assumes "q < 409600"
  shows "unat (baud_divider False clk baud) =
    (16 * q + 50) div 100 - (if 97 \<le> q mod 100 then 16 else 0)"
proof -
  define w where "w = (25 * clk) div (4 * baud)"
  define f where "f = w - 100 * (w div 100)"
  define g where "g = ((f * 16 + 50) div 100) AND 0x0F"
  let ?r = "(16 * (q mod 100) + 50) div 100"
  have w: "unat w = q"
    using assms(1,3) by (simp add: q_def w_def unat_div unat_word_ariths(2) mult.commute)
  have t: "unat (push_bit 4 (w div 100)) = 16 * (q div 100)"
    using assms(5) by (simp add: push_bit_eq_mult unat_word_ariths(2) unat_div w)
  have d: "drop_bit 4 (push_bit 4 (w div 100)) = w div 100"
    by (rule word_unat_eq_iff [THEN iffD2]) (simp add: drop_bit_eq_div unat_div t w)
  have f: "unat f = q mod 100"
    by (simp add: f_def minus_mult_div_eq_mod unat_mod w)
  have gt: "g = take_bit 4 ((f * 16 + 50) div 100)" by (simp add: g_def take_bit_eq_mask mask_eq_exp_minus_1)
  have g: "unat g = ?r mod 16"
  proof -
    have "unat ((f * 16 + 50) div 100) = ?r"
      using f by (simp add: unat_div unat_word_ariths(1,2) mult.commute)
    then show ?thesis by (simp add: gt take_bit_eq_mod unat_mod)
  qed
  have "push_bit 4 (w div 100) AND g = 0"
    by (rule bit_word_eqI) (auto simp: gt bit_push_bit_iff bit_take_bit_iff bit_and_iff)
  then have "push_bit 4 (w div 100) OR g = push_bit 4 (w div 100) + g"
    using word_plus_and_or [of "push_bit 4 (w div 100)" g] by simp
  moreover have "unat (push_bit 4 (w div 100) + g) = 16 * (q div 100) + ?r mod 16"
    using assms(5) t g by (simp add: unat_word_ariths(1))
  moreover have div: "baud_divider False clk baud = ucast (push_bit 4 (w div 100) OR g)"
    by (simp only: baud_divider_def Let_def if_False w_def [symmetric] d f_def [symmetric] g_def [symmetric])
  moreover have "16 * (q div 100) + ?r mod 16 < 65536"
    using assms(5) less_mult_imp_div_less [of q 4096 100] mod_less_divisor [of 16 ?r] by linarith
  ultimately have "unat (baud_divider False clk baud) = 16 * (q div 100) + ?r mod 16"
    by (simp add: div unsigned_ucast_eq take_bit_eq_mod unat_mod)
  then show ?thesis by (simp add: baud_carry)
qed

text \<open>42 MHz: the usual 115200 bauds, and 877000 bauds, where the divider 2.99 becomes 2.\<close>

theorem baud_rounding_witness:
  "unat (baud_divider False 42000000 115200) = 364 \<and> unat (baud_divider False 42000000 877000) = 32"
  using baud_rounding [of 42000000 115200] baud_rounding [of 42000000 877000] by simp

end
