(* ===== verification/PrintOut.thy ===== *)
theory PrintOut
  imports Usart
begin

unbundle bit_operations_syntax

text \<open>
  Formatted output, \<open>src/src/print.cpp\<close>, on top of the stack of layers of \<open>src/inc/baselayer.h\<close>.  What the layer
  below promises is the locale \<open>lower_layer\<close>; the serial port and the serial class are two such layers.
\<close>

section \<open>Output through the layer below\<close>

text \<open>
  \<open>BlockDown\<close> repeats until the layer has taken everything.  \<open>None\<close>: it never does, or it claims to have
  taken more than it was given.
\<close>

partial_function (option) BlockDown :: "(mem \<Rightarrow> 'd \<Rightarrow> nat \<times> 'd) \<Rightarrow> mem \<Rightarrow> 'd \<Rightarrow> 'd option" where
  "BlockDown down req d =
     (case down req d of (n, d) \<Rightarrow>
        if length req < n then None
        else if n = length req then Some d
        else BlockDown down (drop n req) d)"

locale lower_layer =
  fixes down :: "mem \<Rightarrow> 'd \<Rightarrow> nat \<times> 'd"
    and taken :: "'d \<Rightarrow> mem"
    and layer_inv :: "'d \<Rightarrow> bool"
    and patience :: "'d \<Rightarrow> nat"
  assumes down_spec: "layer_inv d \<Longrightarrow> down req d = (n, d') \<Longrightarrow>
      n \<le> length req \<and> layer_inv d' \<and> taken d' = taken d @ take n req"
    and down_progress: "layer_inv d \<Longrightarrow> down req d = (0, d') \<Longrightarrow> req \<noteq> [] \<Longrightarrow> patience d' < patience d"
begin

lemma BlockDown_all:
  "layer_inv d \<Longrightarrow> \<exists>d'. BlockDown down req d = Some d' \<and> layer_inv d' \<and> taken d' = taken d @ req"
proof (induction "(length req, patience d)" arbitrary: req d rule: wf_induct_rule [OF wf_lex_prod [OF wf_less wf_less]])
  case 1
  obtain n d1 where step: "down req d = (n, d1)" by fastforce
  note spec = down_spec [OF 1(2) step]
  show ?case
  proof (cases "n = length req")
    case True
    then show ?thesis using spec step by (subst BlockDown.simps) simp
  next
    case False
    have "((length (drop n req), patience d1), length req, patience d) \<in> {(x, y). x < y} <*lex*> {(x, y). x < y}"
      using down_progress [OF 1(2), of req d1] step spec False by (cases n) auto
    from 1(1) [OF this] spec
    obtain d2 where "BlockDown down (drop n req) d1 = Some d2" "layer_inv d2" "taken d2 = taken d1 @ drop n req" by auto
    then show ?thesis using spec step False by (subst BlockDown.simps) simp
  qed
qed

end

text \<open>
  The serial port below, where a transmit interrupt comes at least once between two calls, and the serial class below, where the
  host takes a packet between two calls.
\<close>

definition serial_down :: "mem \<Rightarrow> usart \<Rightarrow> nat \<times> usart" where
  "serial_down req s = usart_Down req (usart_irq USART_SR_TXE 0 s)"

definition usb_down :: "mem \<Rightarrow> cdc \<Rightarrow> nat \<times> cdc" where
  "usb_down req s = Cd_Down req (Cd_Send (s\<lparr>usbtx_rdy := 1\<rparr>))"

lemma TXE_only: "USART_SR_TXE AND USART_SR_TXE \<noteq> 0" "USART_SR_TXE AND USART_SR_RXNE = 0"
  by (simp_all add: usart_bits)

lemma Down_loop_spec:
  assumes "fifo_inv tx" and "length (fbuf tx) = 64" and "Down_loop req tx = (n, tx')"
  shows "n = min (length req) (64 - length (fifo_abs tx))"
  using fq.enq_all_spec [OF assms(1), of req] assms(2,3) by (simp add: Down_loop_enq fifo_cap_def)

lemma serial_down_spec:
  assumes "usart_inv s" and "serial_down req s = (n, s')"
  shows "n \<le> length req \<and> usart_inv s' \<and> us_DR s' @ fifo_abs (us_tx s') = (us_DR s @ fifo_abs (us_tx s)) @ take n req"
    and "req \<noteq> [] \<Longrightarrow> 0 < n"
proof -
  let ?s = "usart_irq USART_SR_TXE 0 s"
  have 1: "usart_inv ?s" "us_DR ?s @ fifo_abs (us_tx ?s) = us_DR s @ fifo_abs (us_tx s)"
    using usart_event_spec [OF assms(1), of "US_irq USART_SR_TXE 0" "[]" ?s] by (simp_all add: usart_handle_def)
  obtain tx where l: "Down_loop req (us_tx ?s) = (n, tx)"
    using assms(2) by (auto simp: serial_down_def usart_Down_def Let_def split: prod.splits if_splits)
  have inv: "fifo_inv (us_tx s)" "length (fbuf (us_tx s)) = 64" "fifo_inv (us_tx ?s)" "length (fbuf (us_tx ?s)) = 64"
    using assms(1) 1(1) by (auto simp: usart_inv_def)
  note n = Down_loop_spec [OF inv(3,4) l]
  have "usart_handle (US_down req) ?s = (take n req, s')" using assms(2) by (simp add: usart_handle_def serial_down_def)
  from usart_event_spec [OF 1(1) this] 1(2) n
  show "n \<le> length req \<and> usart_inv s' \<and> us_DR s' @ fifo_abs (us_tx s') = (us_DR s @ fifo_abs (us_tx s)) @ take n req"
    by simp
  have "length (fifo_abs (us_tx ?s)) < 64"
    by (cases rule: fifo_Read_cases [OF inv(1)])
      (use inv(1,2) TXE_only in \<open>auto simp: usart_irq_def Let_def fifo_inv_def simp flip: length_fifo_abs\<close>)
  then show "req \<noteq> [] \<Longrightarrow> 0 < n" using n by simp
qed

interpretation serial: lower_layer serial_down "\<lambda>s. us_DR s @ fifo_abs (us_tx s)" usart_inv "\<lambda>_. 0"
  by unfold_locales (use serial_down_spec in fastforce)+

definition usb_open :: "cdc \<Rightarrow> bool" where
  "usb_open s \<longleftrightarrow> cdc_inv s \<and> send_enable s \<noteq> 0"

lemma usb_down_spec:
  assumes "usb_open s" and "usb_down req s = (n, s')"
  shows "n \<le> length req \<and> usb_open s' \<and> cd_sent s' @ fifo_abs (cd_tx s') = (cd_sent s @ fifo_abs (cd_tx s)) @ take n req"
    and "req \<noteq> [] \<Longrightarrow> 0 < n"
proof -
  let ?s = "Cd_Send (s\<lparr>usbtx_rdy := 1\<rparr>)"
  have s: "cdc_inv s" "send_enable s \<noteq> 0" using assms(1) by (auto simp: usb_open_def)
  have 1: "cdc_inv ?s" "cd_sent ?s @ fifo_abs (cd_tx ?s) = cd_sent s @ fifo_abs (cd_tx s)"
    using cdc_act_spec [OF s(1), of CD_in "[]" ?s] by (simp_all add: cdc_act_def)
  have e: "send_enable ?s \<noteq> 0" "fifo_abs (cd_tx ?s) = []"
    using Cd_Send_spec(3,4) [of "s\<lparr>usbtx_rdy := 1\<rparr>"] s by (auto simp: cdc_inv_def)
  obtain tx where l: "Down_loop req (cd_tx ?s) = (n, tx)" "s' = Cd_Send (?s\<lparr>cd_tx := tx\<rparr>)"
    using assms(2) e(1) by (auto simp: usb_down_def Cd_Down_def split: prod.splits)
  have inv: "fifo_inv (cd_tx ?s)" "length (fbuf (cd_tx ?s)) = 64" using 1(1) by (auto simp: cdc_inv_def)
  note n = Down_loop_spec [OF inv l(1)]
  have "cdc_act (CD_down req) ?s = (take n req, s')" using assms(2) e(1) by (simp add: cdc_act_def usb_down_def)
  moreover have "send_enable s' = send_enable ?s"
    using fq.enq_all_spec [OF inv(1), of req] l 1(1) Cd_Send_spec(4) [of "?s\<lparr>cd_tx := tx\<rparr>"]
    by (simp add: Down_loop_enq fifo_cap_def cdc_inv_def)
  ultimately show "n \<le> length req \<and> usb_open s' \<and> cd_sent s' @ fifo_abs (cd_tx s') = (cd_sent s @ fifo_abs (cd_tx s)) @ take n req"
    using cdc_act_spec [OF 1(1)] 1(2) n e(1) by (auto simp: usb_open_def)
  show "req \<noteq> [] \<Longrightarrow> 0 < n" using n e(2) by simp
qed

interpretation usb: lower_layer usb_down "\<lambda>s. cd_sent s @ fifo_abs (cd_tx s)" usb_open "\<lambda>_. 0"
  by unfold_locales (use usb_down_spec in fastforce)+

section \<open>Numbers\<close>

datatype PrintBases = BIN | OCT | DEC | HEX

fun base_code :: "PrintBases \<Rightarrow> nat" where
  "base_code BIN = 1" | "base_code OCT = 3" | "base_code DEC = 10" | "base_code HEX = 4"

definition BUFLEN :: nat where "BUFLEN = 64"

definition hexStr :: mem where "hexStr = map of_char ''0123456789ABCDEF''"
definition numLen :: "nat list" where "numLen = [1, 32, 1, 11, 8, 0]"

text \<open>The decimal digits, filled into the buffer from its end.\<close>

function dec_loop :: "u32 \<Rightarrow> mem \<Rightarrow> mem" where
  "dec_loop u buf =
     (let buf = hexStr ! unat (u mod 10) # buf; u = u div 10 in
      if u = 0 then buf else dec_loop u buf)"
  by auto
termination
  by (relation "measure (\<lambda>(u, _). unat u)") (auto simp: unat_div unat_gt_0 intro!: div_less_dividend)

declare dec_loop.simps [simp del]

primrec bits_loop :: "nat \<Rightarrow> nat \<Rightarrow> u32 \<Rightarrow> mem \<Rightarrow> mem" where
  "bits_loop b 0 u buf = buf"
| "bits_loop b (Suc n) u buf = bits_loop b n (drop_bit b u) (hexStr ! unat (u AND mask b) # buf)"

text \<open>
  The text of \<open>operator<< (const int)\<close>.  \<open>None\<close>: the smallest number, whose negation the language does not
  define, and a text longer than the buffer.
\<close>

definition number_text :: "PrintBases \<Rightarrow> u32 \<Rightarrow> mem option" where
  "number_text base num =
     (let text =
        (if base = DEC then
           (let buf = dec_loop (if sint num < 0 then - num else num) []
            in if sint num < 0 then of_char (CHR ''-'') # buf else buf)
         else
           (let buf = bits_loop (base_code base) (numLen ! base_code base) num [];
                buf = (if base = BIN then of_char (CHR ''b'') # buf else buf);
                buf = (if base = HEX then of_char (CHR ''x'') # buf else buf)
            in of_char (CHR ''0'') # buf))
      in if base = DEC \<and> sint num = - (2 ^ 31) then None
         else if BUFLEN < length text then None else Some text)"

definition print_number :: "(mem \<Rightarrow> 'd \<Rightarrow> nat \<times> 'd) \<Rightarrow> PrintBases \<Rightarrow> u32 \<Rightarrow> 'd \<Rightarrow> 'd option" where
  "print_number down base num d = Option.bind (number_text base num) (\<lambda>text. BlockDown down text d)"

text \<open>A string goes out up to its zero byte.\<close>

definition print_string :: "(mem \<Rightarrow> 'd \<Rightarrow> nat \<times> 'd) \<Rightarrow> mem \<Rightarrow> 'd \<Rightarrow> 'd option" where
  "print_string down s d = BlockDown down (takeWhile (\<lambda>c. c \<noteq> 0) s) d"

text \<open>\<open>out\<close>: every byte in angle brackets, then the end of the line, in the buffer of 64 bytes.\<close>

definition dump_text :: "mem \<Rightarrow> mem" where
  "dump_text q = concat (map (\<lambda>uc. [of_char (CHR ''<''), hexStr ! unat (drop_bit 4 uc), hexStr ! unat (uc AND 0x0F), of_char (CHR ''>'')]) q)
     @ [13, 10]"

definition print_out :: "(mem \<Rightarrow> 'd \<Rightarrow> nat \<times> 'd) \<Rightarrow> mem \<Rightarrow> 'd \<Rightarrow> 'd option" where
  "print_out down q d = (if BUFLEN < length (dump_text q) then None else BlockDown down (dump_text q) d)"

section \<open>The texts can be read back\<close>

lemma unat_numeral_10: "unat (10 :: u32) = 10"
  by simp

text \<open>The value of a text of digits.\<close>

definition hex_value :: "u8 \<Rightarrow> nat" where
  "hex_value c = (if c \<le> of_char (CHR ''9'') then unat c - 48 else unat c - 55)"

definition text_value :: "nat \<Rightarrow> mem \<Rightarrow> nat" where
  "text_value b = foldl (\<lambda>v c. b * v + hex_value c) 0"

lemma hexStr_value: "d < 16 \<Longrightarrow> hex_value (hexStr ! d) = d"
proof -
  have "\<forall>d \<in> set [0..<16]. hex_value (hexStr ! d) = d" by code_simp
  then show "d < 16 \<Longrightarrow> hex_value (hexStr ! d) = d" by simp
qed

lemma text_value_snoc: "text_value b (cs @ [c]) = b * text_value b cs + hex_value c"
  by (simp add: text_value_def)

lemma text_value_fold: "foldl (\<lambda>v c. b * v + hex_value c) v cs = v * b ^ length cs + text_value b cs"
proof (induction cs arbitrary: v)
  case (Cons c cs)
  show ?case using Cons.IH [of "b * v + hex_value c"] Cons.IH [of "hex_value c"]
    by (simp add: text_value_def algebra_simps)
qed (simp add: text_value_def)

lemma text_value_Cons: "text_value b (c # cs) = hex_value c * b ^ length cs + text_value b cs"
  using text_value_fold [of b "hex_value c" cs] by (simp add: text_value_def)

lemma dec_loop_append: "dec_loop u buf = dec_loop u [] @ buf"
proof (induction u buf rule: dec_loop.induct)
  case (1 u buf)
  have "dec_loop v (xs @ buf) = dec_loop v xs @ buf" for v xs
  proof (induction v xs rule: dec_loop.induct)
    case (1 v xs)
    then show ?case by (subst (1 2) dec_loop.simps) (simp add: Let_def)
  qed
  from this [of u "[]"] show ?case by simp
qed

lemma dec_loop_digits:
  "dec_loop u [] = (if u div 10 = 0 then [] else dec_loop (u div 10) []) @ [hexStr ! (unat u mod 10)]"
  by (subst dec_loop.simps) (simp add: Let_def unat_mod dec_loop_append [of _ "[_]"])

lemma dec_loop_value: "text_value 10 (dec_loop u []) = unat u"
proof (induction "unat u" arbitrary: u rule: less_induct)
  case less
  show ?case
  proof (cases "u div 10 = 0")
    case True
    have "unat u div 10 = 0" using arg_cong [OF True, of unat] by (simp add: unat_div)
    then show ?thesis using True by (simp add: dec_loop_digits [of u] text_value_def hexStr_value)
  next
    case False
    then have "u \<noteq> 0" by auto
    then have "unat (u div 10) < unat u" by (simp add: unat_div unat_gt_0)
    then show ?thesis using False less by (simp add: dec_loop_digits [of u] text_value_snoc hexStr_value unat_div)
  qed
qed

lemma decimal_digit: "d < 10 \<Longrightarrow> hexStr ! d \<in> set (take 10 hexStr)"
proof -
  have "list_all (\<lambda>d. hexStr ! d \<in> set (take 10 hexStr)) [0..<10]" by code_simp
  then show "d < 10 \<Longrightarrow> hexStr ! d \<in> set (take 10 hexStr)" by (simp only: list_all_iff set_upt) simp
qed

lemma dec_loop_text:
  "dec_loop u [] \<noteq> [] \<and> set (dec_loop u []) \<subseteq> set (take 10 hexStr) \<and> (hd (dec_loop u []) = hexStr ! 0 \<longrightarrow> u = 0)
    \<and> (\<forall>n. unat u < 10 ^ Suc n \<longrightarrow> length (dec_loop u []) \<le> Suc n)"
proof (induction "unat u" arbitrary: u rule: less_induct)
  case less
  have d: "hexStr ! (unat u mod 10) \<in> set (take 10 hexStr)" by (rule decimal_digit) simp
  show ?case
  proof (cases "u div 10 = 0")
    case True
    have small: "unat u < 10" using arg_cong [OF True, of unat] by (simp add: unat_div)
    have "u = 0" if eq: "hexStr ! (unat u mod 10) = hexStr ! 0"
    proof -
      have "hex_value (hexStr ! (unat u mod 10)) = hex_value (hexStr ! 0)" by (simp only: eq)
      then have "unat u mod 10 = 0" by (simp add: hexStr_value)
      then show "u = 0" using small by (simp add: unat_eq_zero)
    qed
    then show ?thesis using True d by (simp add: dec_loop_digits [of u])
  next
    case False
    then have "u \<noteq> 0" by auto
    then have "unat (u div 10) < unat u" by (simp add: unat_div unat_gt_0)
    note ih = less(1) [OF this]
    have "length (dec_loop (u div 10) []) \<le> n" if "unat u < 10 ^ Suc n" for n
    proof -
      have "0 < unat (u div 10)" using False by (simp add: unat_gt_0)
      then have "0 < unat u div 10" by (simp add: unat_div)
      then have "n \<noteq> 0" using that by (cases n) auto
      then obtain m where m: "n = Suc m" using not0_implies_Suc by blast
      have "unat (u div 10) < 10 ^ Suc m" using that m by (simp add: unat_div less_mult_imp_div_less)
      then show ?thesis using ih m by blast
    qed
    then show ?thesis using ih False d by (simp add: dec_loop_digits [of u])
  qed
qed

lemma hex_value_bits: "b \<le> 4 \<Longrightarrow> hex_value (hexStr ! unat (u AND mask b :: u32)) = unat u mod 2 ^ b"
proof -
  assume b: "b \<le> 4"
  have m: "unat (u AND mask b) = unat u mod 2 ^ b"
    unfolding take_bit_eq_mask [symmetric] unsigned_take_bit_eq by (simp add: take_bit_eq_mod)
  have "(2 :: nat) ^ b \<le> 2 ^ 4" by (rule power_increasing) (use b in simp_all)
  moreover have "unat u mod 2 ^ b < 2 ^ b" by simp
  ultimately have "unat u mod 2 ^ b < 2 ^ 4" by (rule order.strict_trans2 [rotated])
  then have "unat u mod 2 ^ b < 16" by simp
  then show ?thesis by (simp only: m hexStr_value)
qed

lemma bits_loop_spec:
  assumes "b \<le> 4"
  shows "\<exists>ds. bits_loop b n u buf = ds @ buf \<and> length ds = n \<and> text_value (2 ^ b) ds = unat u mod (2 ^ b) ^ n"
proof (induction n arbitrary: u buf)
  case (Suc n)
  let ?c = "hexStr ! unat (u AND mask b)"
  from Suc.IH [of "drop_bit b u" "?c # buf"]
  obtain ds where ds: "bits_loop b n (drop_bit b u) (?c # buf) = ds @ ?c # buf" "length ds = n"
    "text_value (2 ^ b) ds = unat (drop_bit b u) mod (2 ^ b) ^ n" by blast
  have "unat u mod (2 ^ b * (2 ^ b) ^ n) = 2 ^ b * (unat u div 2 ^ b mod (2 ^ b) ^ n) + unat u mod 2 ^ b"
    by (rule mod_mult2_eq)
  moreover have "unat (drop_bit b u) = unat u div 2 ^ b"
    using take_bit_nat_eq_self [of "unat u" 32] unsigned_less [of u, where 'a = nat]
    unfolding unsigned_drop_bit_eq by (simp add: drop_bit_eq_div)
  ultimately have "text_value (2 ^ b) (ds @ [?c]) = unat u mod (2 ^ b) ^ Suc n"
    using hex_value_bits [OF assms, of u] ds(3) by (simp add: text_value_snoc)
  then show ?case using ds by (intro exI [of _ "ds @ [?c]"]) simp
qed (simp add: text_value_def)

definition sign_of :: "u32 \<Rightarrow> mem" where
  "sign_of num = (if sint num < 0 then [of_char (CHR ''-'')] else [])"

definition base_prefix :: "PrintBases \<Rightarrow> mem" where
  "base_prefix base = (case base of BIN \<Rightarrow> map of_char ''0b'' | OCT \<Rightarrow> map of_char ''0'' | DEC \<Rightarrow> [] | HEX \<Rightarrow> map of_char ''0x'')"

lemma unat_abs_sint:
  assumes "sint (num :: u32) \<noteq> - (2 ^ 31)"
  shows "int (unat (if sint num < 0 then - num else num)) = \<bar>sint num\<bar>"
proof (cases "sint num < 0")
  case True
  have "sint num \<ge> - (2 ^ 31)" using sint_ge [of num] by simp
  then have "0 \<le> - sint num" "- sint num < 2 ^ 31" using True assms by auto
  moreover have "- num = word_of_int (- sint num)" by simp
  ultimately have "uint (- num) = - sint num" by (simp only: uint_word_of_int) (simp add: take_bit_int_eq_self)
  then show ?thesis using True by simp
next
  case False
  have "sint num < 2 ^ 31" using sint_lt [of num] by simp
  then have "uint (word_of_int (sint num) :: u32) = sint num" using False by (simp only: uint_word_of_int) simp
  then have "uint num = sint num" by simp
  then show ?thesis using False by simp
qed

lemma decimal_text:
  assumes "sint num \<noteq> - (2 ^ 31)"
  shows "\<exists>ds. number_text DEC num = Some (sign_of num @ ds) \<and> int (text_value 10 ds) = \<bar>sint num\<bar>
      \<and> ds \<noteq> [] \<and> set ds \<subseteq> set (take 10 hexStr) \<and> (hd ds = hexStr ! 0 \<longrightarrow> num = 0) \<and> length ds \<le> 10"
proof -
  let ?u = "if sint num < 0 then - num else num"
  let ?ds = "dec_loop ?u []"
  have "unat ?u < 10 ^ Suc 9" using unsigned_less [of ?u, where 'a = nat] by simp
  then have "length ?ds \<le> Suc 9" using dec_loop_text [of ?u] by blast
  then have len: "length ?ds \<le> 10" by simp
  have out: "number_text DEC num = Some (sign_of num @ ?ds)"
    using assms len by (auto simp: number_text_def Let_def sign_of_def BUFLEN_def)
  have "?u = 0 \<longrightarrow> num = 0" by simp
  then show ?thesis using out len dec_loop_text [of ?u] dec_loop_value [of ?u] unat_abs_sint [OF assms] by auto
qed

lemma bits_text:
  assumes "base \<noteq> DEC"
  shows "\<exists>ds. number_text base num = Some (base_prefix base @ ds) \<and> text_value (2 ^ base_code base) ds = unat num
      \<and> length ds = numLen ! base_code base"
proof -
  have b: "base_code base \<le> 4" "numLen ! base_code base \<le> 32" "32 \<le> base_code base * (numLen ! base_code base)"
    using assms by (cases base; simp add: numLen_def)+
  obtain ds where ds: "bits_loop (base_code base) (numLen ! base_code base) num [] = ds"
    "length ds = numLen ! base_code base" "text_value (2 ^ base_code base) ds = unat num mod (2 ^ base_code base) ^ (numLen ! base_code base)"
    using bits_loop_spec [OF b(1), of "numLen ! base_code base" num "[]"] by auto
  have "unat num < 2 ^ 32" using unsigned_less [of num, where 'a = nat] by simp
  also have "\<dots> \<le> (2 ^ base_code base) ^ (numLen ! base_code base)"
    unfolding power_mult [symmetric] using b(3) by (intro power_increasing) simp_all
  finally have "text_value (2 ^ base_code base) ds = unat num" by (simp add: ds(3))
  moreover have "number_text base num = Some (base_prefix base @ ds)"
    using ds(1,2) b(2) assms by (cases base) (simp_all add: number_text_def Let_def base_prefix_def BUFLEN_def)
  ultimately show ?thesis using ds(2) by blast
qed

text \<open>
  C39: Every number except the smallest one has a text that fits the buffer and from which it can be read back: in decimal
  the sign and the digits of the absolute value, without leading zeros; in the other bases a prefix and all 32 bits,
  in groups of one, three and four.
\<close>

theorem number_text_roundtrip:
  "(sint num \<noteq> - (2 ^ 31) \<longrightarrow> (\<exists>ds. number_text DEC num = Some (sign_of num @ ds) \<and> int (text_value 10 ds) = \<bar>sint num\<bar>
      \<and> ds \<noteq> [] \<and> set ds \<subseteq> set (take 10 hexStr) \<and> (hd ds = hexStr ! 0 \<longrightarrow> num = 0) \<and> length ds \<le> 10))
   \<and> (base \<noteq> DEC \<longrightarrow> (\<exists>ds. number_text base num = Some (base_prefix base @ ds)
      \<and> text_value (2 ^ base_code base) ds = unat num \<and> length ds = numLen ! base_code base))"
  using decimal_text bits_text by blast

theorem number_text_roundtrip_witness:
  "(\<exists>ds. number_text DEC (- 120) = Some (0x2D # ds) \<and> int (text_value 10 ds) = 120)
   \<and> (\<exists>ds. number_text HEX 0xBEEF = Some (0x30 # 0x78 # ds) \<and> text_value 16 ds = 0xBEEF \<and> length ds = 8)"
  using number_text_roundtrip [of "- 120" HEX] number_text_roundtrip [of "0xBEEF" HEX]
  by (auto simp: sign_of_def base_prefix_def numLen_def)



text \<open>
  Dumping bytes needs four characters for each and two for the end of the line: from sixteen bytes on the text is
  longer than the buffer and is written behind it; a shorter dump goes out completely.
\<close>

theorem dump_overrun:
  "(length q \<le> 15 \<longrightarrow> usart_inv u \<longrightarrow> (\<exists>u'. print_out serial_down q u = Some u'
      \<and> us_DR u' @ fifo_abs (us_tx u') = (us_DR u @ fifo_abs (us_tx u)) @ dump_text q))
   \<and> (15 < length q \<longrightarrow> print_out serial_down q u = None)"
proof -
  have "length (dump_text q) = 4 * length q + 2" by (induction q) (auto simp: dump_text_def)
  then show ?thesis using serial.BlockDown_all [of u "dump_text q"] by (auto simp: print_out_def BUFLEN_def)
qed

theorem dump_overrun_witness:
  "print_out serial_down (replicate 16 0) usart_example = None
   \<and> (\<exists>u'. print_out serial_down [0xAB] usart_example = Some u'
      \<and> us_DR u' @ fifo_abs (us_tx u') = us_DR usart_example @ dump_text [0xAB])"
  using dump_overrun [of "replicate 16 0" usart_example] dump_overrun [of "[0xAB]" usart_example] usart_example_inv
  by simp

end
