(* ===== verification/KeyServer.thy ===== *)
theory KeyServer
  imports Fat12 Image
begin

unbundle bit_operations_syntax

text \<open>
  The server that hands out firmware, \<open>src/work/http\<close>: \<open>main.cpp\<close> accepts connections and answers each one in a
  process of its own, \<open>contextserver.cpp\<close> turns the path of a request into an answer.  The files of the server are a parameter.
  Text is a list of bytes.  The HTML around the list of images is not modelled, and what \<open>printf\<close> logs is not.  The scanning
  functions are those of \<open>sscanf\<close> for the two formats in use.  \<open>None\<close> stands for undefined behaviour.
\<close>

section \<open>Text\<close>

definition str :: "string \<Rightarrow> mem" where
  "str s = map of_char s"

definition is_space :: "u8 \<Rightarrow> bool" where
  "is_space c \<longleftrightarrow> c = 0x20 \<or> 9 \<le> c \<and> c \<le> 13"

definition digit_value :: "u8 \<Rightarrow> nat option" where
  "digit_value c =
     (if 0x30 \<le> c \<and> c \<le> 0x39 then Some (unat c - 0x30)
      else if 0x41 \<le> c \<and> c \<le> 0x46 then Some (unat c - 0x41 + 10)
      else if 0x61 \<le> c \<and> c \<le> 0x66 then Some (unat c - 0x61 + 10)
      else None)"

text \<open>At most \<open>width\<close> digits; the value so far and the rest.\<close>

fun scan_digits :: "nat \<Rightarrow> nat \<Rightarrow> nat \<Rightarrow> mem \<Rightarrow> nat \<times> mem" where
  "scan_digits base width v [] = (v, [])"
| "scan_digits base 0 v cs = (v, cs)"
| "scan_digits base (Suc width) v (c # cs) = (case digit_value c of
     Some d \<Rightarrow> if d < base then scan_digits base width (base * v + d) cs else (v, c # cs)
   | None \<Rightarrow> (v, c # cs))"

fun scan_sign :: "nat \<Rightarrow> mem \<Rightarrow> bool \<times> nat \<times> mem" where
  "scan_sign (Suc width) (c # cs) =
     (if c = 0x2D then (True, width, cs) else if c = 0x2B then (False, width, cs)
      else (False, Suc width, c # cs))"
| "scan_sign width cs = (False, width, cs)"

fun scan_prefix :: "nat \<Rightarrow> mem \<Rightarrow> nat \<times> mem" where
  "scan_prefix (Suc (Suc width)) (a # b # cs) =
     (if a = 0x30 \<and> (b = 0x78 \<or> b = 0x58) then (width, cs) else (Suc (Suc width), a # b # cs))"
| "scan_prefix width cs = (width, cs)"

text \<open>\<open>%08X\<close>: white space, a sign and a prefix are allowed, and at most eight characters are read.\<close>

definition scan_hex :: "mem \<Rightarrow> (u32 \<times> mem) option" where
  "scan_hex cs =
     (case scan_sign 8 (dropWhile is_space cs) of (neg, width, cs) \<Rightarrow>
      case scan_prefix width cs of (width, cs) \<Rightarrow>
      case scan_digits 16 width 0 cs of (v, rest) \<Rightarrow>
        if length rest = length cs then None
        else Some (if neg then - of_nat v else of_nat v, rest))"

text \<open>\<open>%d\<close>: a decimal number that is clipped to 64 bits and then stored in 32.\<close>

definition scan_dec :: "mem \<Rightarrow> (u32 \<times> mem) option" where
  "scan_dec cs =
     (let cs = dropWhile is_space cs in
      case scan_sign (length cs) cs of (neg, width, cs) \<Rightarrow>
      case scan_digits 10 width 0 cs of (v, rest) \<Rightarrow>
        if length rest = length cs then None
        else Some (of_int (max (- (2 ^ 63)) (min (2 ^ 63 - 1) (if neg then - int v else int v))), rest))"

text \<open>\<open>%s\<close>: the next word.\<close>

definition scan_word :: "mem \<Rightarrow> mem option" where
  "scan_word cs = (let w = takeWhile (\<lambda>c. \<not> is_space c) (dropWhile is_space cs) in
     if w = [] then None else Some w)"

fun scan_lit :: "mem \<Rightarrow> mem \<Rightarrow> mem option" where
  "scan_lit [] cs = Some cs"
| "scan_lit (l # ls) (c # cs) = (if l = c then scan_lit ls cs else None)"
| "scan_lit (l # ls) [] = None"

section \<open>The answers\<close>

text \<open>The images on offer, with the null pointer that ends the array, and the chips that are paid for.\<close>

definition Images :: "mem option list" where
  "Images = [Some (str ''../blik/firmware.bin''), Some (str ''../midi/playmidi.bin''),
             Some (str ''../text/gsm.bin''), None]"

definition payed :: "u32 list list" where
  "payed = [[0x001e0027, 0x33314718, 0x35373532, 0x00000400],
            [0x001e0027, 0x33314718, 0x35373532, 0x00000000]]"

datatype reply =
    No_reply
  | Reply_file mem
  | Reply_form "nat list"
  | Reply_firmware mem
  | Reply_not_found "mem option"
  | Reply_bad_request

type_synonym files = "mem \<Rightarrow> mem option"

definition sendFile :: "files \<Rightarrow> mem \<Rightarrow> bool \<times> reply" where
  "sendFile fs name = (case fs name of None \<Rightarrow> (False, No_reply) | Some c \<Rightarrow> (True, Reply_file c))"

definition notFound :: "files \<Rightarrow> reply" where
  "notFound fs = Reply_not_found (fs (str ''not_found.html''))"

text \<open>The loop over the images up to the null pointer, with the numbers of those that can be read.\<close>

fun sel_loop :: "files \<Rightarrow> nat \<Rightarrow> mem option list \<Rightarrow> nat list" where
  "sel_loop fs i [] = []"
| "sel_loop fs i (None # ims) = []"
| "sel_loop fs i (Some f # ims) = (if fs f \<noteq> None then i # sel_loop fs (i + 1) ims else sel_loop fs (i + 1) ims)"

definition sendSel :: "files \<Rightarrow> bool \<times> reply" where
  "sendSel fs = (True, Reply_form (sel_loop fs 0 Images))"

definition sendFw :: "files \<Rightarrow> mem option \<Rightarrow> u32 list \<Rightarrow> (bool \<times> reply) option" where
  "sendFw fs name loader_key =
     (case FwCheck (Option.bind name fs) of
        Inl OutOfBounds \<Rightarrow> None
      | Inl _ \<Rightarrow> Some (False, No_reply)
      | Inr img \<Rightarrow> Option.bind (encrypt_block img (of_nat (length img)) loader_key)
          (\<lambda>cipher. Some (True, Reply_firmware cipher)))"

text \<open>The link: \<open>"/%08X%08X%08X%08X/%s"\<close>, four words and the rest.\<close>

definition parse_link :: "mem \<Rightarrow> (u32 list \<times> mem) option" where
  "parse_link name =
     Option.bind (scan_lit (str ''/'') name) (\<lambda>cs.
     Option.bind (scan_hex cs) (\<lambda>(a, cs).
     Option.bind (scan_hex cs) (\<lambda>(b, cs).
     Option.bind (scan_hex cs) (\<lambda>(c, cs).
     Option.bind (scan_hex cs) (\<lambda>(d, cs).
     Option.bind (scan_lit (str ''/'') cs) (\<lambda>cs.
     Option.bind (scan_word cs) (\<lambda>w. Some ([a, b, c, d], w))))))))"

definition parse_choice :: "mem \<Rightarrow> u32 option" where
  "parse_choice w =
     Option.bind (scan_lit (str ''FIRMWARE.BIN?volby='') w) (\<lambda>cs.
     Option.bind (scan_dec cs) (\<lambda>(v, _). Some v))"

text \<open>
  The answer, whether the request was handled, and \<open>GeneratedKeys.loader\<close> of the process afterwards.
  \<open>strbuf\<close> has 1024 bytes and the scan does not know it.
\<close>

definition sendImage :: "files \<Rightarrow> mem \<Rightarrow> u32 list \<Rightarrow> ((bool \<times> reply) \<times> u32 list) option" where
  "sendImage fs name key = (case parse_link name of
     None \<Rightarrow> Some ((False, No_reply), key)
   | Some (cuid, strbuf) \<Rightarrow>
       if 0x400 \<le> length strbuf then None
       else if strbuf = str ''FIRMWARE.BIN'' then
         (let uuid = xor_key cuid (server SecretKeys) in
          if \<not> list_ex (\<lambda>p. uuid = p) payed
          then Some ((True, snd (sendFile fs (str ''not_payed.html''))), key)
          else Some (sendSel fs, xor_key uuid (loader SecretKeys)))
       else (case parse_choice strbuf of
         None \<Rightarrow> Some ((False, No_reply), key)
       | Some value \<Rightarrow>
           if length Images \<le> unat value then None
           else Option.bind (sendFw fs (Images ! unat value) key) (\<lambda>r. Some (r, key))))"

text \<open>\<open>path\<close> has a buffer of 10000 bytes.\<close>

definition serve_path :: "files \<Rightarrow> mem \<Rightarrow> mem \<Rightarrow> u32 list \<Rightarrow> (reply \<times> u32 list) option" where
  "serve_path fs root rq key =
     Option.bind (sendImage fs rq key) (\<lambda>((handled, r), key).
       if handled then Some (r, key)
       else if 10000 \<le> length root + length rq then None
       else (case sendFile fs (root @ rq) of
         (True, r) \<Rightarrow> Some (r, key)
       | (False, _) \<Rightarrow> Some (notFound fs, key)))"

section \<open>A connection\<close>

text \<open>\<open>strtok\<close>: the next token and what follows it, behind the delimiter that ends it.\<close>

definition strtok :: "(u8 \<Rightarrow> bool) \<Rightarrow> mem \<Rightarrow> mem option \<times> mem" where
  "strtok delim cs = (let cs = dropWhile delim cs; t = takeWhile (\<lambda>c. \<not> delim c) cs in
     if cs = [] then (None, []) else (Some t, drop (length t + 1) cs))"

definition blank :: "u8 \<Rightarrow> bool" where "blank c \<longleftrightarrow> c = 0x20 \<or> c = 9"
definition blank_line :: "u8 \<Rightarrow> bool" where "blank_line c \<longleftrightarrow> blank c \<or> c = 10"

text \<open>
  \<open>respond\<close> on the bytes received, at most 100000 into a buffer of zeros of that size.  A missing token is a null
  pointer that is then read.
\<close>

definition respond :: "files \<Rightarrow> mem \<Rightarrow> mem \<Rightarrow> u32 list \<Rightarrow> (reply \<times> u32 list) option" where
  "respond fs root received key =
     (if received = [] then Some (No_reply, key)
      else if 100000 \<le> length received \<and> 0 \<notin> set received then None
      else let mesg = takeWhile (\<lambda>c. c \<noteq> 0) received in
        case strtok blank_line mesg of
          (None, _) \<Rightarrow> None
        | (Some reqline0, rest) \<Rightarrow>
            if reqline0 \<noteq> str ''GET'' then Some (No_reply, key) else
            (case strtok blank rest of (reqline1, rest) \<Rightarrow>
             case strtok blank_line rest of (reqline2, _) \<Rightarrow>
             case reqline2 of None \<Rightarrow> None
             | Some version \<Rightarrow>
                 if take 8 version \<noteq> str ''HTTP/1.0'' \<and> take 8 version \<noteq> str ''HTTP/1.1''
                 then Some (Reply_bad_request, key)
                 else (case reqline1 of None \<Rightarrow> None
                   | Some rq \<Rightarrow> serve_path fs root (if rq = str ''/'' then str ''/index.html'' else rq) key)))"

text \<open>
  \<open>main\<close>: the child answers with its copy of the state and exits, the parent keeps its own.  Nothing in the server
  writes \<open>GeneratedKeys\<close> before the first request.
\<close>

fun accept_all :: "files \<Rightarrow> mem \<Rightarrow> u32 list \<Rightarrow> mem list \<Rightarrow> reply option list" where
  "accept_all fs root key [] = []"
| "accept_all fs root key (m # ms) =
     map_option fst (respond fs root m key) # accept_all fs root key ms"

definition server_start :: "u32 list" where
  "server_start = [0, 0, 0, 0]"

text \<open>
  The table of the connections, true where the parent has a descriptor.  The children's \<open>clients[n] = -1\<close> happens in their
  copy.  \<open>None\<close>: the loop never ends.
\<close>

definition CONNMAX :: nat where "CONNMAX = 1000"

partial_function (option) next_slot :: "bool list \<Rightarrow> nat \<Rightarrow> nat option" where
  "next_slot clients slot =
     (if clients ! slot then next_slot clients ((slot + 1) mod CONNMAX) else Some slot)"

fun accept_loop :: "nat \<Rightarrow> bool list \<Rightarrow> nat \<Rightarrow> nat option" where
  "accept_loop 0 clients slot = Some slot"
| "accept_loop (Suc n) clients slot =
     Option.bind (next_slot (clients[slot := True]) slot) (accept_loop n (clients[slot := True]))"

section \<open>The link of a device\<close>

lemma hex_digit_value: "d < 16 \<Longrightarrow> digit_value (hex_digits ! d) = Some d"
proof -
  have "\<forall>d \<in> set [0..<16]. digit_value (hex_digits ! d) = Some d" by code_simp
  then show "d < 16 \<Longrightarrow> digit_value (hex_digits ! d) = Some d" by simp
qed

lemma unat_low4: "unat (w AND 0x0F :: u32) = unat w mod 16"
proof -
  have "w AND 0x0F = take_bit 4 w" by (simp add: take_bit_eq_mask mask_eq_exp_minus_1)
  then show ?thesis by (simp add: take_bit_eq_mod unat_mod)
qed

lemma scan_toHex_loop:
  "scan_digits 16 (n + k) v (toHex_loop n w p) = scan_digits 16 k (16 ^ n * v + unat w mod 16 ^ n) p"
proof (induction n arbitrary: k w p)
  case (Suc n)
  have "16 * (16 ^ n * v + unat (drop_bit 4 w) mod 16 ^ n) + unat w mod 16 = 16 ^ Suc n * v + unat w mod 16 ^ Suc n"
    using mod_mult2_eq [of "unat w" 16 "16 ^ n"] by (simp add: drop_bit_eq_div unat_div)
  then show ?case
    using Suc.IH [of "Suc k" "drop_bit 4 w" "hex_digits ! (unat w mod 16) # p"]
    by (simp add: unat_low4 hex_digit_value del: power_Suc)
qed simp

lemma toHex_loop_append: "toHex_loop n w (p @ q) = toHex_loop n w p @ q"
proof (induction n arbitrary: w p)
  case (Suc n)
  show ?case using Suc.IH [of "drop_bit 4 w" "hex_digits ! unat (w AND 0x0F) # p"] by simp
qed simp

lemma set_toHex: "set (toHex w) \<subseteq> set hex_digits"
proof -
  have "set (toHex_loop n w p) \<subseteq> set hex_digits \<union> set p" for n p and w :: u32
  proof (induction n arbitrary: w p)
    case (Suc n)
    have "hex_digits ! (unat w mod 16) \<in> set hex_digits" by (rule nth_mem) (simp add: hex_digits_def)
    then show ?case using Suc.IH [of "drop_bit 4 w" "hex_digits ! (unat w mod 16) # p"] by (auto simp: unat_low4)
  qed simp
  from this [where n = 8 and p = "[]"] show ?thesis by (simp add: toHex_def)
qed

lemma hex_digit_plain:
  "c \<in> set hex_digits \<Longrightarrow> \<not> is_space c \<and> c \<noteq> 0x2D \<and> c \<noteq> 0x2B \<and> c \<noteq> 0x78 \<and> c \<noteq> 0x58 \<and> c \<noteq> 0"
proof -
  have "list_all (\<lambda>c. \<not> is_space c \<and> c \<noteq> 0x2D \<and> c \<noteq> 0x2B \<and> c \<noteq> 0x78 \<and> c \<noteq> 0x58 \<and> c \<noteq> 0) hex_digits"
    by code_simp
  then show "c \<in> set hex_digits \<Longrightarrow> \<not> is_space c \<and> c \<noteq> 0x2D \<and> c \<noteq> 0x2B \<and> c \<noteq> 0x78 \<and> c \<noteq> 0x58 \<and> c \<noteq> 0"
    by (simp add: list_all_iff)
qed

lemma scan_hex_toHex: "scan_hex (toHex w @ rest) = Some (w, rest)"
proof -
  have "toHex w \<noteq> []" "tl (toHex w) \<noteq> []"
    using length_toHex [of w] length_tl [of "toHex w"] by (auto simp del: length_toHex length_tl)
  then obtain a b cs where t: "toHex w = a # b # cs" by (metis list.collapse)
  have ab: "a \<in> set hex_digits" "b \<in> set hex_digits" using set_toHex [of w] t by auto
  have loop: "toHex_loop 8 w rest = toHex w @ rest"
    using toHex_loop_append [of 8 w "[]" rest] by (simp add: toHex_def)
  have "scan_digits 16 8 0 (toHex_loop 8 w rest) = (unat w, rest)"
    using scan_toHex_loop [of 8 0 0 w rest] unsigned_less [of w, where 'a = nat] by (cases rest) simp_all
  then have v: "scan_digits 16 8 0 (toHex w @ rest) = (unat w, rest)" by (simp only: loop)
  have "scan_sign 8 (toHex w @ rest) = (False, 8, toHex w @ rest)"
    "scan_prefix 8 (toHex w @ rest) = (8, toHex w @ rest)" "dropWhile is_space (toHex w @ rest) = toHex w @ rest"
    using ab [THEN hex_digit_plain] by (simp_all add: t eval_nat_numeral)
  then show ?thesis using v by (simp add: scan_hex_def)
qed

text \<open>The path that the page on the disk links to, and a request below it.\<close>

definition link :: "u32 list \<Rightarrow> mem \<Rightarrow> mem" where
  "link key w = page key (str ''/%/'') @ w"

lemma page_link: "page key (str ''/%/FIRMWARE.BIN'') = link key (str ''FIRMWARE.BIN'')"
  by (simp add: page_def link_def str_def)

lemma link_words: "link [a, b, c, d] w = 0x2F # toHex a @ toHex b @ toHex c @ toHex d @ 0x2F # w"
  by (simp add: link_def page_def str_def)

lemma link_roundtrip_words:
  assumes "length key = 4" and "w \<noteq> []" and "\<forall>c \<in> set w. \<not> is_space c"
  shows "parse_link (link key w) = Some (key, w)"
proof -
  obtain a b c d where key: "key = [a, b, c, d]" using assms(1) by (auto simp: length_4_conv)
  have w: "dropWhile is_space w = w" "takeWhile (\<lambda>c. \<not> is_space c) w = w"
    using assms(2,3) by (simp_all add: takeWhile_eq_all_conv dropWhile_eq_self_iff)
  show ?thesis
    using assms(2) by (simp add: key link_words parse_link_def str_def scan_hex_toHex scan_word_def Let_def w)
qed

text \<open>
  The link that the emulated disk shows is understood by the server: whatever the key, it reads exactly the
  four words of the key and the rest of the path.
\<close>

theorem link_roundtrip:
  assumes "length key = 4" and "w \<noteq> []" and "\<forall>c \<in> set w. \<not> is_space c"
  shows "parse_link (link key w) = Some (key, w)"
  using assms by (rule link_roundtrip_words)

theorem link_roundtrip_witness:
  "parse_link (page (server generate_keys_host) (str ''/%/FIRMWARE.BIN''))
    = Some (server generate_keys_host, str ''FIRMWARE.BIN'')"
  unfolding page_link
  by (rule link_roundtrip) (simp_all add: generate_keys_host_def generate_keys_for_def str_def is_space_def)

section \<open>Sessions\<close>

lemma scan_dec_digit: "d < 10 \<Longrightarrow> \<not> is_space c \<Longrightarrow> digit_value c = Some d \<Longrightarrow> c \<noteq> 0x2D \<Longrightarrow> c \<noteq> 0x2B \<Longrightarrow>
    rest = [] \<or> digit_value (hd rest) = None \<Longrightarrow> scan_dec (c # rest) = Some (of_nat d, rest)"
  by (cases rest) (auto simp: scan_dec_def)

text \<open>The request that the form sends for image \<open>n\<close>.\<close>

definition choice :: "nat \<Rightarrow> mem" where
  "choice n = str ''FIRMWARE.BIN?volby='' @ [0x30 + of_nat n] @ str ''&ok=Odeslat''"

lemma parse_choice_digit:
  assumes "n < 10"
  shows "parse_choice (choice n) = Some (of_nat n)"
proof -
  have "\<forall>n \<in> set [0..<10]. parse_choice (choice n) = Some (of_nat n)" by code_simp
  then show ?thesis using assms by simp
qed

lemma choice_plain:
  assumes "n < 10"
  shows "choice n \<noteq> []" "choice n \<noteq> str ''FIRMWARE.BIN''" "\<forall>c \<in> set (choice n). \<not> is_space c" "length (choice n) = 31"
    "0 \<notin> set (choice n)"
proof -
  have "\<forall>n \<in> set [0..<10]. choice n \<noteq> [] \<and> choice n \<noteq> str ''FIRMWARE.BIN'' \<and> list_all (\<lambda>c. \<not> is_space c) (choice n)
      \<and> length (choice n) = 31 \<and> 0 \<notin> set (choice n)"
    by code_simp
  then show "choice n \<noteq> []" "choice n \<noteq> str ''FIRMWARE.BIN''" "\<forall>c \<in> set (choice n). \<not> is_space c" "length (choice n) = 31"
    "0 \<notin> set (choice n)"
    using assms by (auto simp: list_all_iff)
qed

lemma sendImage_choice:
  assumes "length cuid = 4" and "n < 10"
  shows "sendImage fs (link cuid (choice n)) key =
    (if 4 \<le> n then None else Option.bind (sendFw fs (Images ! n) key) (\<lambda>r. Some (r, key)))"
proof -
  have "unat (of_nat n :: u32) = n" using assms(2) by (simp add: unat_of_nat take_bit_nat_eq_self)
  then show ?thesis
    using link_roundtrip_words [OF assms(1) choice_plain(1,3) [OF assms(2)]] assms(2) choice_plain [OF assms(2)]
    by (simp add: sendImage_def parse_choice_digit Images_def)
qed

lemma sendFw_sealed:
  assumes "Option.bind name fs = Some content" and "FwCheck (Some content) = Inr img" and "length key = 4"
  shows "sendFw fs name key = Some (True, Reply_firmware (map_chunks8 (enc8 key) img))"
proof -
  have "8 dvd length img" "length img < 2 ^ 32" using sealed_image [OF assms(2)] by auto
  then have "encrypt_block img (of_nat (length img)) key = Some (map_chunks8 (enc8 key) img)"
    using encrypt_block_eq [of "of_nat (length img)" img key]
    by (simp add: unat_of_nat take_bit_nat_eq_self)
  then show ?thesis by (simp add: sendFw_def assms)
qed


lemma example_content: "\<exists>content img. FwCheck (Some content) = Inr img \<and> content = replicate 392 0 @ [0x78, 0x56, 0x34, 0x12] @ replicate 8 0xAB @ [7]"
proof -
  let ?c = "replicate 392 0 @ [0x78, 0x56, 0x34, 0x12] @ replicate 8 0xAB @ [7] :: mem"
  have "UserMagicNumber = le32 0x78 0x56 0x34 0x12"
    by (simp add: UserMagicNumber_def le32_def push_bit_eq_mult)
  then have "\<exists>img. FwCheck (Some ?c) = Inr img"
    by (intro FwCheck_large(2)) (simp_all add: fw_buffer_def word_at_def nth_append)
  then show ?thesis by blast
qed

definition one_file :: "mem \<Rightarrow> files" where
  "one_file content = (\<lambda>name. if name = str ''../blik/firmware.bin'' then Some content else None)"

lemma one_file_image: "Option.bind (Images ! 0) (one_file content) = Some content"
  by (simp add: Images_def one_file_def)


section \<open>One process for each connection\<close>

definition get_request :: "mem \<Rightarrow> mem" where
  "get_request rq = str ''GET '' @ rq @ str '' HTTP/1.1'' @ [13, 10, 13, 10]"

lemma strtok_token:
  assumes "w \<noteq> []" and "\<forall>c \<in> set w. \<not> delim c" and "delim d"
  shows "strtok delim (w @ d # cs) = (Some w, cs)"
proof -
  have "takeWhile (\<lambda>c. \<not> delim c) (w @ d # cs) = w" using assms(2,3) by (subst takeWhile_append2) auto
  moreover have "dropWhile delim (w @ d # cs) = w @ d # cs" using assms(1,2) by (cases w) auto
  ultimately show ?thesis by (simp add: strtok_def Let_def)
qed

lemma respond_get:
  assumes "rq \<noteq> []" and "rq \<noteq> str ''/''" and "\<forall>c \<in> set rq. \<not> is_space c" and "0 \<notin> set rq" and "length rq < 90000"
  shows "respond fs root (get_request rq) key = serve_path fs root rq key"
proof -
  have version: "\<forall>c \<in> set (str ''HTTP/1.1'' @ [13]). \<not> blank_line c \<and> c \<noteq> 0" "length (str ''HTTP/1.1'') = 8"
    by (simp_all add: str_def blank_line_def blank_def)
  have parts: "get_request rq = str ''GET'' @ 0x20 # rq @ 0x20 # (str ''HTTP/1.1'' @ [13]) @ 10 # [13, 10]"
    by (simp add: get_request_def str_def)
  have get: "\<forall>c \<in> set (str ''GET''). \<not> blank_line c \<and> c \<noteq> 0" "str ''GET'' \<noteq> []"
    by (simp_all add: str_def blank_line_def blank_def)
  have "0 \<notin> set (get_request rq)" using assms(4) version(1) get(1) by (auto simp: parts)
  then have mesg: "takeWhile (\<lambda>c. c \<noteq> 0) (get_request rq) = get_request rq" by (auto simp: takeWhile_eq_all_conv)
  have "get_request rq \<noteq> []" "length (get_request rq) < 100000" using assms(5) by (auto simp: parts str_def)
  moreover have "strtok blank_line (get_request rq) = (Some (str ''GET''), rq @ 0x20 # (str ''HTTP/1.1'' @ [13]) @ 10 # [13, 10])"
    unfolding parts by (rule strtok_token) (use get in \<open>auto simp: blank_line_def blank_def\<close>)
  moreover have "strtok blank (rq @ 0x20 # (str ''HTTP/1.1'' @ [13]) @ 10 # [13, 10]) = (Some rq, (str ''HTTP/1.1'' @ [13]) @ 10 # [13, 10])"
    by (rule strtok_token) (use assms(1,3) in \<open>auto simp: is_space_def blank_def\<close>)
  moreover have "strtok blank_line ((str ''HTTP/1.1'' @ [13]) @ 10 # [13, 10]) = (Some (str ''HTTP/1.1'' @ [13]), [13, 10])"
    by (rule strtok_token) (use version(1) in \<open>auto simp: blank_line_def\<close>)
  ultimately show ?thesis using assms(2) version(2) by (simp add: respond_def Let_def mesg)
qed

lemma accept_all_last: "accept_all fs root key (ms @ [m]) = accept_all fs root key ms @ [map_option fst (respond fs root m key)]"
  by (induction ms) auto

lemma link_request:
  assumes "length cuid = 4" and "n < 10"
  shows "respond fs root (get_request (link cuid (choice n))) key = serve_path fs root (link cuid (choice n)) key"
proof (rule respond_get)
  obtain a b c d where cuid: "cuid = [a, b, c, d]" using assms(1) by (auto simp: length_4_conv)
  note w = choice_plain [OF assms(2)]
  have hex: "\<forall>c \<in> set (toHex x). \<not> is_space c \<and> c \<noteq> 0" for x
    using set_toHex [of x] hex_digit_plain by blast
  show "link cuid (choice n) \<noteq> []" "link cuid (choice n) \<noteq> str ''/''"
    by (auto simp: cuid link_words str_def)
  show "\<forall>c \<in> set (link cuid (choice n)). \<not> is_space c" using w hex by (auto simp: cuid link_words is_space_def)
  show "0 \<notin> set (link cuid (choice n))" using w hex by (auto simp: cuid link_words)
  show "length (link cuid (choice n)) < 90000" using w by (simp add: cuid link_words)
qed

text \<open>
  C30: As the program is written, every connection is answered by a process that starts without a key.  Whatever was
  requested before, the image is sent to anybody who asks for it, paid for or not, and it is encrypted with the
  key of four zero words and not with the key of the device the link names.
\<close>

theorem forked_key:
  assumes "length cuid = 4" and "n < 3" and "Option.bind (Images ! n) fs = Some content"
    and "FwCheck (Some content) = Inr img"
  shows "last (accept_all fs root server_start (ms @ [get_request (link cuid (choice n))]))
    = Some (Reply_firmware (map_chunks8 (enc8 [0, 0, 0, 0]) img))"
  using sendImage_choice [OF assms(1), of n fs server_start] sendFw_sealed [OF assms(3,4), of server_start] assms(2)
  by (simp add: accept_all_last link_request assms(1) serve_path_def server_start_def)

theorem forked_key_witness:
  "\<exists>content img. last (accept_all (one_file content) [] server_start
      [get_request (page (server generate_keys_host) (str ''/%/FIRMWARE.BIN'')), get_request (link [1, 2, 3, 4] (choice 0))])
    = Some (Reply_firmware (map_chunks8 (enc8 [0, 0, 0, 0]) img))"
proof -
  obtain content img where f: "FwCheck (Some content) = Inr img" using example_content by blast
  show ?thesis
    using forked_key [OF _ _ one_file_image f, of "[1, 2, 3, 4]" "[]"
        "[get_request (page (server generate_keys_host) (str ''/%/FIRMWARE.BIN''))]"] by auto
qed

text \<open>
  The number of the image is not checked: from 4 on the array is read behind its end, whoever asks.
\<close>

theorem image_number_unchecked:
  assumes "length cuid = 4" and "4 \<le> n" and "n < 10"
  shows "respond fs root (get_request (link cuid (choice n))) key = None"
  using sendImage_choice [OF assms(1,3), of fs key] assms(2)
  by (simp add: link_request assms(1,3) serve_path_def)

theorem image_number_unchecked_witness:
  "respond (\<lambda>_. None) [] (get_request (link [0, 0, 0, 0] (choice 7))) server_start = None"
  by (rule image_number_unchecked) simp_all

section \<open>The table of connections\<close>

lemma next_slot_full:
  assumes "next_slot clients slot = Some s"
  shows "slot < 1000 \<longrightarrow> clients = replicate 1000 True \<longrightarrow> False"
proof (rule next_slot.raw_induct [OF _ assms, where P = "\<lambda>clients slot s. slot < 1000 \<longrightarrow> clients = replicate 1000 True \<longrightarrow> False"], goal_cases)
  case (1 f clients slot y)
  then show ?case by (auto simp: CONNMAX_def split: if_splits)
qed

lemma next_slot_free:
  assumes "slot < 999" and "clients ! slot" and "\<not> clients ! (slot + 1)"
  shows "next_slot clients slot = Some (slot + 1)"
  using assms by (subst next_slot.simps, subst next_slot.simps) (simp add: CONNMAX_def)

lemma slots_set:
  "slot < 1000 \<Longrightarrow> (replicate slot True @ replicate (1000 - slot) False)[slot := True]
    = replicate (Suc slot) True @ replicate (1000 - Suc slot) False"
proof -
  assume "slot < 1000"
  then obtain k where k: "1000 - slot = Suc k" "1000 - Suc slot = k" by (metis Suc_diff_Suc)
  show ?thesis unfolding k by (simp add: list_update_append replicate_app_Cons_same)
qed

lemma accept_loop_from:
  "slot + n < 1000 \<Longrightarrow> accept_loop n (replicate slot True @ replicate (1000 - slot) False) slot = Some (slot + n)"
proof (induction n arbitrary: slot)
  case (Suc n)
  let ?c = "replicate slot True @ replicate (1000 - slot) False"
  have c: "?c[slot := True] = replicate (Suc slot) True @ replicate (1000 - Suc slot) False"
    using Suc.prems by (intro slots_set) simp
  have "next_slot (?c[slot := True]) slot = Some (slot + 1)"
    unfolding c by (rule next_slot_free) (use Suc.prems in \<open>auto simp: nth_append nth_Cons'\<close>)
  then show ?case using Suc.IH [of "Suc slot"] Suc.prems c by simp
qed simp

lemma accept_loop_append:
  "accept_loop (m + n) clients slot = None" if "accept_loop m clients slot = None"
  using that
proof (induction m arbitrary: clients slot)
  case (Suc m)
  then show ?case by (cases "next_slot (clients[slot := True]) slot") auto
qed simp

lemma accept_loop_stuck:
  "slot < 1000 \<Longrightarrow> accept_loop (1000 - slot) (replicate slot True @ replicate (1000 - slot) False) slot = None"
proof (induction "1000 - slot" arbitrary: slot)
  case (Suc k)
  let ?c = "replicate slot True @ replicate (1000 - slot) False"
  have c: "?c[slot := True] = replicate (Suc slot) True @ replicate (1000 - Suc slot) False"
    using Suc.prems by (intro slots_set) simp
  show ?case
  proof (cases "Suc slot = 1000")
    case True
    then have "next_slot (?c[slot := True]) slot = None"
      using next_slot_full [of "?c[slot := True]" slot] Suc.prems unfolding c by (cases "next_slot (replicate (Suc slot) True @ replicate (1000 - Suc slot) False) slot") auto
    moreover have "slot = 999" using True by simp
    ultimately show ?thesis by simp
  next
    case False
    then have "next_slot (?c[slot := True]) slot = Some (slot + 1)"
      unfolding c by (intro next_slot_free) (use Suc.prems in \<open>auto simp: nth_append nth_Cons'\<close>)
    moreover have "1000 - slot = Suc (1000 - Suc slot)" using Suc.prems by simp
    ultimately show ?thesis using Suc.hyps(1) [of "Suc slot"] Suc.hyps(2) Suc.prems False c by simp
  qed
qed simp

text \<open>
  C31: The parent never sees that a child has closed its connection, so its table fills up: the first 999
  connections are accepted, and after the 1000th the search for a free slot does not end.
\<close>

theorem server_stops:
  "accept_loop n (replicate 1000 False) 0 = (if n < 1000 then Some n else None)"
proof (cases "n < 1000")
  case True
  then show ?thesis using accept_loop_from [of 0 n] by simp
next
  case False
  then obtain k where "n = 1000 + k" by (metis le_Suc_ex not_less)
  then show ?thesis using accept_loop_append [OF accept_loop_stuck [of 0, simplified], of k] by simp
qed

end
