(* ===== verification/Fat32.thy ===== *)
theory Fat32
  imports Prelude
begin

unbundle bit_operations_syntax

text \<open>
  The read-only file system of the player, \<open>src/xsdc/play/fat32ro.cpp\<close>: it reads the boot sector, walks the directories
  for \<open>MP3\<close> files, and gives the decoder 512 bytes at a time through \<open>get_mpg\<close>.  The disk is a function from
  block numbers to blocks, \<open>None\<close> where the reader fails.  All block and cluster numbers are 32-bit words.
\<close>

type_synonym disk = "u32 \<Rightarrow> mem option"

definition load16 :: "mem \<Rightarrow> nat \<Rightarrow> u16" where
  "load16 m a = ucast (m ! a) OR push_bit 8 (ucast (m ! (a + 1)))"

definition word32 :: "mem \<Rightarrow> nat \<Rightarrow> u32" where
  "word32 m a = le32 (m ! a) (m ! (a + 1)) (m ! (a + 2)) (m ! (a + 3))"

section \<open>The boot sector\<close>

record fat32 =
  RootDirCluster :: u32
  ClusterSize :: u32
  ReferenceClusterZero :: u32
  FatTable1 :: u32
  FatTable2 :: u32
  Segment :: u32
  block_buffer :: mem
  mdata_buffer :: mem
  current_block :: u32
  current_cluster :: u32
  pass_block :: u32

definition FAT32RO :: fat32 where
  "FAT32RO = \<lparr> RootDirCluster = 0, ClusterSize = 0, ReferenceClusterZero = 0, FatTable1 = 0, FatTable2 = 0, Segment = 0,
     block_buffer = replicate 512 0, mdata_buffer = replicate 512 0, current_block = 0, current_cluster = 0, pass_block = 0 \<rparr>"

text \<open>The members of the packed structure by their offsets.\<close>

definition bs_Bytes_Per_Logical_Sector :: "mem \<Rightarrow> u16" where "bs_Bytes_Per_Logical_Sector b = load16 b 11"
definition bs_Logical_Sectors_Per_Cluster :: "mem \<Rightarrow> u8" where "bs_Logical_Sectors_Per_Cluster b = b ! 13"
definition bs_Reserved_Logical_Sectors :: "mem \<Rightarrow> u16" where "bs_Reserved_Logical_Sectors b = load16 b 14"
definition bs_Number_Of_FATs :: "mem \<Rightarrow> u8" where "bs_Number_Of_FATs b = b ! 16"
definition bs_Maximum_Directory_Entries :: "mem \<Rightarrow> u16" where "bs_Maximum_Directory_Entries b = load16 b 17"
definition bs_Sectors_Per_FAT16 :: "mem \<Rightarrow> u16" where "bs_Sectors_Per_FAT16 b = load16 b 22"
definition bs_Sectors_Per_FAT32 :: "mem \<Rightarrow> u32" where "bs_Sectors_Per_FAT32 b = word32 b 36"
definition bs_Cluster_directory_start :: "mem \<Rightarrow> u32" where "bs_Cluster_directory_start b = word32 b 44"
definition bs_Signature :: "mem \<Rightarrow> u16" where "bs_Signature b = load16 b 510"

definition Identify :: "disk \<Rightarrow> fat32 \<Rightarrow> bool \<times> fat32" where
  "Identify rd s = (case rd 0 of
     None \<Rightarrow> (False, s)
   | Some boot \<Rightarrow>
       if bs_Signature boot \<noteq> 0xAA55 then (False, s)
       else if bs_Bytes_Per_Logical_Sector boot \<noteq> 512 then (False, s)
       else if bs_Sectors_Per_FAT16 boot \<noteq> 0 then (False, s)
       else
         let s = (if bs_Maximum_Directory_Entries boot = 0
                  then s\<lparr>RootDirCluster := bs_Cluster_directory_start boot\<rparr> else s);
             offset = ucast (bs_Reserved_Logical_Sectors boot);
             s = s\<lparr>FatTable1 := offset\<rparr>;
             offset = offset + bs_Sectors_Per_FAT32 boot;
             (s, offset) = (if bs_Number_Of_FATs boot > 1
               then (s\<lparr>FatTable2 := offset\<rparr>, offset + bs_Sectors_Per_FAT32 boot)
               else (s\<lparr>FatTable2 := FatTable1 s\<rparr>, offset));
             s = s\<lparr>ClusterSize := ucast (bs_Logical_Sectors_Per_Cluster boot)\<rparr>
         in (True, s\<lparr>ReferenceClusterZero := offset\<rparr>))"

section \<open>Directories\<close>

text \<open>The characters up to the last one that is not a blank.\<close>

definition right_space_ignore :: "mem \<Rightarrow> mem" where
  "right_space_ignore src = rev (dropWhile (\<lambda>c. c = 0x20) (rev src))"

text \<open>The loop over the name: the position in \<open>".MP3"\<close> moves on at each match and never goes back.\<close>

fun ismp3_loop :: "mem \<Rightarrow> nat \<Rightarrow> bool" where
  "ismp3_loop [] i = False"
| "ismp3_loop (c # name) i =
     (if c = 0 then False
      else if c = [0x2E, 0x4D, 0x50, 0x33] ! i then
        (if 3 < i + 1 then True else ismp3_loop name (i + 1))
      else ismp3_loop name i)"

definition ismp3file :: "mem \<Rightarrow> bool" where
  "ismp3file name = ismp3_loop name 0"

definition de_Filename :: "mem \<Rightarrow> mem" where "de_Filename e = take 8 e"
definition de_Extension :: "mem \<Rightarrow> mem" where "de_Extension e = take 3 (drop 8 e)"
definition de_Attributes :: "mem \<Rightarrow> u8" where "de_Attributes e = e ! 11"
definition de_Subdirectory :: "mem \<Rightarrow> bool" where "de_Subdirectory e = bit (de_Attributes e) 4"
definition de_cluster :: "mem \<Rightarrow> u32" where
  "de_cluster e = ucast (load16 e 26) + push_bit 16 (ucast (load16 e 20))"
definition de_File_Size :: "mem \<Rightarrow> u32" where "de_File_Size e = word32 e 28"

text \<open>The name with its extension; the text ends at the first zero byte.\<close>

definition osname :: "mem \<Rightarrow> mem" where
  "osname e =
     (let name = right_space_ignore (de_Filename e); ext = right_space_ignore (de_Extension e) in
      takeWhile (\<lambda>c. c \<noteq> 0) (if ext = [] then name else name @ [0x2E] @ ext))"

text \<open>
  One entry, with the recursive call as an argument: whether to go on, and the files that are opened, each with its
  first cluster and its length.  \<open>None\<close> when the stack is exhausted.
\<close>

type_synonym opened = "(u32 \<times> u32) list"

definition ReadEntry :: "(u32 \<Rightarrow> (bool \<times> opened) option) \<Rightarrow> mem \<Rightarrow> (bool \<times> opened) option" where
  "ReadEntry dir de =
     (if de_Attributes de = 0x0F then Some (True, [])
      else if de_Filename de ! 0 = 0xE5 then Some (True, [])
      else let flc = de_cluster de; name = osname de in
        if name = [] then Some (False, [])
        else let opens = (if ismp3file name then [(flc, de_File_Size de)] else []) in
          if de_Subdirectory de then
            (if name = [0x2E] \<or> name = [0x2E, 0x2E] then Some (True, opens)
             else Option.bind (dir flc) (\<lambda>(_, fs). Some (True, opens @ fs)))
          else Some (True, opens))"

fun entries_loop :: "(u32 \<Rightarrow> (bool \<times> opened) option) \<Rightarrow> mem list \<Rightarrow> (bool \<times> opened) option" where
  "entries_loop dir [] = Some (True, [])"
| "entries_loop dir (e # es) =
     Option.bind (ReadEntry dir e) (\<lambda>(ok, fs).
       if \<not> ok then Some (False, fs)
       else Option.bind (entries_loop dir es) (\<lambda>(c, gs). Some (c, fs @ gs)))"

definition dir_entries :: "mem \<Rightarrow> mem list" where
  "dir_entries b = map (\<lambda>n. take 32 (drop (32 * n) b)) [0..<16]"

fun sectors_loop :: "(u32 \<Rightarrow> (bool \<times> opened) option) \<Rightarrow> disk \<Rightarrow> u32 \<Rightarrow> nat \<Rightarrow> (bool \<times> opened) option" where
  "sectors_loop dir rd addr 0 = Some (True, [])"
| "sectors_loop dir rd addr (Suc n) = (case rd addr of
     None \<Rightarrow> Some (False, [])
   | Some b \<Rightarrow> Option.bind (entries_loop dir (dir_entries b)) (\<lambda>(cont, fs).
       if \<not> cont then Some (True, fs)
       else Option.bind (sectors_loop dir rd (addr + 1) n) (\<lambda>(ok, gs). Some (ok, fs @ gs))))"

definition ClusterToBlock :: "fat32 \<Rightarrow> u32 \<Rightarrow> u32" where
  "ClusterToBlock s cluster = (cluster - 2) * ClusterSize s + ReferenceClusterZero s"

definition BlockToCluster :: "fat32 \<Rightarrow> u32 \<Rightarrow> u32" where
  "BlockToCluster s block = (block - ReferenceClusterZero s) div ClusterSize s + 2"

text \<open>\<open>depth\<close> is the number of calls the stack has room for.\<close>

primrec ReadDir :: "nat \<Rightarrow> disk \<Rightarrow> fat32 \<Rightarrow> u32 \<Rightarrow> (bool \<times> opened) option" where
  "ReadDir 0 rd s cluster = None"
| "ReadDir (Suc depth) rd s cluster =
     sectors_loop (ReadDir depth rd s) rd (ClusterToBlock s cluster) (unat (ClusterSize s))"

definition ReadRootDir :: "nat \<Rightarrow> disk \<Rightarrow> fat32 \<Rightarrow> (bool \<times> opened) option" where
  "ReadRootDir depth rd s = ReadDir depth rd s (RootDirCluster s)"

section \<open>Reading a file\<close>

definition OpenFile :: "u32 \<Rightarrow> fat32 \<Rightarrow> fat32" where
  "OpenFile start s = s\<lparr>current_cluster := start, current_block := ClusterToBlock s start, pass_block := 0, Segment := 0\<rparr>"

definition NextCluster :: "disk \<Rightarrow> u32 \<Rightarrow> fat32 \<Rightarrow> u32 \<times> fat32" where
  "NextCluster rd cluster s =
     (let segment = cluster div 128 + FatTable1 s in
      if segment \<noteq> Segment s then
        (case rd segment of
           None \<Rightarrow> (0xFFFFFFF8, s)
         | Some b \<Rightarrow> (word32 b (4 * unat (cluster mod 128)), s\<lparr>block_buffer := b, Segment := segment\<rparr>))
      else (word32 (block_buffer s) (4 * unat (cluster mod 128)), s))"

text \<open>The last step of \<open>ReadBlock\<close>; a failure of the reader leaves the old data.\<close>

definition fetch :: "disk \<Rightarrow> u32 \<Rightarrow> fat32 \<Rightarrow> fat32" where
  "fetch rd ofs_block s =
     (if pass_block s \<noteq> ofs_block then
        s\<lparr>mdata_buffer := (case rd ofs_block of Some b \<Rightarrow> b | None \<Rightarrow> mdata_buffer s), pass_block := ofs_block\<rparr>
      else s)"

definition ReadBlock :: "disk \<Rightarrow> u32 \<Rightarrow> fat32 \<Rightarrow> fat32" where
  "ReadBlock rd block s =
     (let ofs_block = block + current_block s;
          cluster = BlockToCluster s ofs_block in
      if pass_block s \<ge> ofs_block \<and> cluster \<noteq> current_cluster s then
        (case NextCluster rd (current_cluster s) s of (next_cluster, s) \<Rightarrow>
           let s = s\<lparr>current_cluster := next_cluster\<rparr> in
           if next_cluster \<ge> 0x0FFFFFFF then s
           else let ofs_block = ClusterToBlock s next_cluster in
             fetch rd ofs_block (s\<lparr>current_block := ofs_block - block\<rparr>))
      else fetch rd ofs_block s)"

text \<open>The bytes copied to \<open>data\<close>.  \<open>None\<close>: the length is less than what the block still holds, and wraps.\<close>

definition get_mpg :: "disk \<Rightarrow> u32 \<Rightarrow> u32 \<Rightarrow> fat32 \<Rightarrow> (mem \<times> fat32) option" where
  "get_mpg rd ofs len s =
     (let ofs_block = ofs div 512; ofs_bytes = ofs mod 512;
          s = ReadBlock rd ofs_block s;
          tocpy = 512 - ofs_bytes;
          d = drop (unat ofs_bytes) (mdata_buffer s) in
      if len < tocpy then None
      else if len - tocpy = 0 then Some (d, s)
      else if len - tocpy > 512 then None
      else let s = ReadBlock rd (ofs_block + 1) s in
        Some (d @ take (unat (len - tocpy)) (mdata_buffer s), s))"

text \<open>The decoder asks for 512 bytes at each of its positions.\<close>

fun get_all :: "disk \<Rightarrow> u32 list \<Rightarrow> fat32 \<Rightarrow> mem list option" where
  "get_all rd [] s = Some []"
| "get_all rd (ofs # os) s = Option.bind (get_mpg rd ofs 512 s) (\<lambda>(d, s).
     Option.bind (get_all rd os s) (\<lambda>ds. Some (d # ds)))"

section \<open>A file and its clusters\<close>

definition all_read :: "(u32 \<Rightarrow> mem) \<Rightarrow> disk" where
  "all_read D = (\<lambda>b. Some (D b))"

definition fat_entry :: "(u32 \<Rightarrow> mem) \<Rightarrow> fat32 \<Rightarrow> u32 \<Rightarrow> u32" where
  "fat_entry D s c = word32 (D (c div 128 + FatTable1 s)) (4 * unat (c mod 128))"

definition block_of :: "fat32 \<Rightarrow> u32 list \<Rightarrow> nat \<Rightarrow> u32" where
  "block_of s ch b = ClusterToBlock s (ch ! (b div unat (ClusterSize s))) + of_nat (b mod unat (ClusterSize s))"

text \<open>The clusters of a file, linked by the table, all of their blocks numbered without overflow.\<close>

definition file_on_disk :: "(u32 \<Rightarrow> mem) \<Rightarrow> fat32 \<Rightarrow> u32 list \<Rightarrow> bool" where
  "file_on_disk D s ch \<longleftrightarrow> ch \<noteq> [] \<and> 0 < unat (ClusterSize s)
     \<and> 0 < unat (FatTable1 s) \<and> unat (FatTable1 s) < 2 ^ 31 \<and> 0 < unat (ReferenceClusterZero s)
     \<and> (\<forall>c \<in> set ch. 2 \<le> unat c \<and> unat c < 0x0FFFFFFF
         \<and> (unat c - 2) * unat (ClusterSize s) + unat (ReferenceClusterZero s) + unat (ClusterSize s) < 2 ^ 32)
     \<and> (\<forall>i. i + 1 < length ch \<longrightarrow> fat_entry D s (ch ! i) = ch ! (i + 1))"

definition same_volume :: "fat32 \<Rightarrow> fat32 \<Rightarrow> bool" where
  "same_volume s t \<longleftrightarrow> ClusterSize t = ClusterSize s \<and> ReferenceClusterZero t = ReferenceClusterZero s
     \<and> FatTable1 t = FatTable1 s"

lemma unat_block:
  assumes "file_on_disk D s ch" and "c \<in> set ch" and "j \<le> unat (ClusterSize s)"
  shows "unat (ClusterToBlock s c + of_nat j) = (unat c - 2) * unat (ClusterSize s) + unat (ReferenceClusterZero s) + j"
    and "unat (ClusterToBlock s c + of_nat j - ReferenceClusterZero s) = (unat c - 2) * unat (ClusterSize s) + j"
proof -
  let ?n = "(unat c - 2) * unat (ClusterSize s)" and ?R = "unat (ReferenceClusterZero s)"
  have c: "2 \<le> unat c" "?n + ?R + j < 2 ^ 32" using assms by (auto simp: file_on_disk_def)
  have "c - 2 = of_nat (unat c - 2)" using c(1) by (simp add: of_nat_diff)
  then have x: "ClusterToBlock s c + of_nat j = of_nat (?n + ?R + j)" "ClusterToBlock s c + of_nat j - ReferenceClusterZero s = of_nat (?n + j)"
    by (simp_all add: ClusterToBlock_def)
  show "unat (ClusterToBlock s c + of_nat j) = ?n + ?R + j"
    unfolding x(1) unat_of_nat using c(2) by (simp add: take_bit_nat_eq_self)
  show "unat (ClusterToBlock s c + of_nat j - ReferenceClusterZero s) = ?n + j"
    unfolding x(2) unat_of_nat using c(2) by (simp add: take_bit_nat_eq_self)
qed

lemma BlockToCluster_block:
  assumes "file_on_disk D s ch" and "c \<in> set ch" and "j \<le> unat (ClusterSize s)"
  shows "BlockToCluster s (ClusterToBlock s c + of_nat j) = (if j < unat (ClusterSize s) then c else c + 1)"
proof -
  let ?S = "unat (ClusterSize s)"
  have S: "0 < ?S" and c: "2 \<le> unat c" using assms(1,2) by (auto simp: file_on_disk_def)
  let ?q = "(ClusterToBlock s c + of_nat j - ReferenceClusterZero s) div ClusterSize s"
  have "unat ?q = (if j < ?S then unat c - 2 else unat c - 1)"
    using unat_block(2) [OF assms] assms(3) S c by (auto simp: unat_div le_less)
  then have "of_nat (unat ?q) = (of_nat (if j < ?S then unat c - 2 else unat c - 1) :: u32)" by (rule arg_cong)
  then have "?q = of_nat (if j < ?S then unat c - 2 else unat c - 1)" by simp
  moreover have "of_nat (unat c - 2) + 2 = c" "of_nat (unat c - 1) + 2 = c + 1"
    using c by (simp_all add: of_nat_diff)
  ultimately show ?thesis by (simp add: BlockToCluster_def)
qed

section \<open>Reading in order\<close>

text \<open>The state after block \<open>b\<close> of the file, or (\<open>k = 1\<close>) also the one behind it on the disk, was read.\<close>

definition at_block :: "(u32 \<Rightarrow> mem) \<Rightarrow> fat32 \<Rightarrow> u32 list \<Rightarrow> nat \<Rightarrow> nat \<Rightarrow> fat32 \<Rightarrow> bool" where
  "at_block D s0 ch b k s \<longleftrightarrow> same_volume s0 s \<and> b < unat (ClusterSize s0) * length ch \<and> k \<le> 1
     \<and> current_cluster s = ch ! (b div unat (ClusterSize s0))
     \<and> current_block s + of_nat b = block_of s0 ch b
     \<and> pass_block s = block_of s0 ch b + of_nat k
     \<and> mdata_buffer s = D (pass_block s) \<and> (Segment s \<noteq> 0 \<longrightarrow> block_buffer s = D (Segment s))"

lemma same_volume_eqs:
  "same_volume s t \<Longrightarrow> ClusterToBlock t = ClusterToBlock s" "same_volume s t \<Longrightarrow> BlockToCluster t = BlockToCluster s"
  "same_volume s t \<Longrightarrow> fat_entry D t = fat_entry D s"
  by (auto simp: same_volume_def ClusterToBlock_def BlockToCluster_def fat_entry_def)

lemma ClusterToBlock_current [simp]: "ClusterToBlock (s\<lparr>current_cluster := c\<rparr>) = ClusterToBlock s"
  by (simp add: ClusterToBlock_def fun_eq_iff)

lemma fetch_at:
  assumes "mdata_buffer s = D (pass_block s)"
  shows "fetch (all_read D) x s = s\<lparr>mdata_buffer := D x, pass_block := x\<rparr>"
  using assms by (cases s) (auto simp: fetch_def all_read_def)

lemma NextCluster_entry:
  assumes "file_on_disk D s ch" and "c \<in> set ch" and "same_volume s t"
    and "Segment t \<noteq> 0 \<longrightarrow> block_buffer t = D (Segment t)"
  obtains u where "NextCluster (all_read D) c t = (fat_entry D s c, u)" and "same_volume s u"
    and "Segment u \<noteq> 0 \<longrightarrow> block_buffer u = D (Segment u)" and "pass_block u = pass_block t"
    and "mdata_buffer u = mdata_buffer t"
proof -
  have c: "unat c < 0x0FFFFFFF" and F: "0 < unat (FatTable1 s)" "unat (FatTable1 s) < 2 ^ 31"
    using assms(1,2) by (auto simp: file_on_disk_def)
  have "unat (c div 128 + FatTable1 s) = unat c div 128 + unat (FatTable1 s)"
    using c F(2) by (simp add: unat_word_ariths(1) unat_div)
  then have nz: "c div 128 + FatTable1 t \<noteq> 0" using F(1) assms(3) by (auto simp: same_volume_def)
  have volume: "FatTable1 t = FatTable1 s" using assms(3) by (simp add: same_volume_def)
  show ?thesis
  proof (cases "c div 128 + FatTable1 t = Segment t")
    case True
    then have "NextCluster (all_read D) c t = (fat_entry D s c, t)"
      using assms(4) nz by (simp add: NextCluster_def fat_entry_def Let_def volume [symmetric])
    then show ?thesis using assms(3,4) by (rule that) simp_all
  next
    case False
    let ?u = "t\<lparr>block_buffer := D (c div 128 + FatTable1 t), Segment := c div 128 + FatTable1 t\<rparr>"
    have "NextCluster (all_read D) c t = (fat_entry D s c, ?u)"
      using False by (simp add: NextCluster_def fat_entry_def Let_def all_read_def volume [symmetric])
    then show ?thesis by (rule that) (use assms(3) in \<open>simp_all add: same_volume_def\<close>)
  qed
qed

lemma at_block_facts:
  assumes "file_on_disk D s0 ch" and "at_block D s0 ch b k s"
  shows "ch ! (b div unat (ClusterSize s0)) \<in> set ch" "0 < unat (ClusterSize s0)" "b mod unat (ClusterSize s0) < unat (ClusterSize s0)"
    "of_nat b + current_block s = block_of s0 ch b" "BlockToCluster s = BlockToCluster s0"
  using assms same_volume_eqs(2) [of s0 s]
  by (auto simp: file_on_disk_def at_block_def less_mult_imp_div_less mult.commute add.commute)

lemma ReadBlock_same:
  assumes "file_on_disk D s0 ch" and "at_block D s0 ch b k s"
  shows "at_block D s0 ch b 0 (ReadBlock (all_read D) (of_nat b) s)"
proof -
  note f = at_block_facts [OF assms]
  have "BlockToCluster s (block_of s0 ch b) = current_cluster s"
    using BlockToCluster_block [OF assms(1) f(1), of "b mod unat (ClusterSize s0)"] f(3) assms(2)
    by (simp add: block_of_def at_block_def f(5))
  then have "ReadBlock (all_read D) (of_nat b) s = s\<lparr>mdata_buffer := D (block_of s0 ch b), pass_block := block_of s0 ch b\<rparr>"
    using assms(2) by (simp add: ReadBlock_def Let_def f(4) fetch_at at_block_def)
  then show ?thesis using assms(2) by (simp add: at_block_def same_volume_def)
qed

lemma ReadBlock_behind:
  assumes "file_on_disk D s0 ch" and "at_block D s0 ch b 0 s"
  shows "at_block D s0 ch b 1 (ReadBlock (all_read D) (of_nat b + 1) s)"
proof -
  note f = at_block_facts [OF assms]
  have ofs: "of_nat b + 1 + current_block s = block_of s0 ch b + 1" using f(4) by (simp add: algebra_simps)
  have "unat (block_of s0 ch b + 1) = unat (block_of s0 ch b) + 1"
    using unat_block(1) [OF assms(1) f(1), of "b mod unat (ClusterSize s0)"]
      unat_block(1) [OF assms(1) f(1), of "Suc (b mod unat (ClusterSize s0))"] f(3)
    by (simp add: block_of_def algebra_simps)
  then have "\<not> pass_block s \<ge> block_of s0 ch b + 1" using assms(2) by (simp add: at_block_def word_le_nat_alt)
  then have "ReadBlock (all_read D) (of_nat b + 1) s
      = s\<lparr>mdata_buffer := D (block_of s0 ch b + 1), pass_block := block_of s0 ch b + 1\<rparr>"
    using assms(2) by (simp only: ReadBlock_def Let_def ofs) (simp add: fetch_at at_block_def)
  then show ?thesis using assms(2) by (simp add: at_block_def same_volume_def)
qed

text \<open>Whether block \<open>b + 1\<close> is behind block \<open>b\<close> in the same cluster.\<close>

lemma next_in_cluster:
  fixes S :: nat
  assumes "0 < S"
  shows "Suc b mod S \<noteq> 0 \<Longrightarrow> Suc b div S = b div S \<and> Suc b mod S = Suc (b mod S)"
    and "Suc b mod S = 0 \<Longrightarrow> Suc b div S = Suc (b div S) \<and> Suc (b mod S) = S"
  using assms by (auto simp: mod_Suc div_Suc split: if_splits)

lemma block_of_next:
  assumes "file_on_disk D s0 ch" and "Suc b mod unat (ClusterSize s0) \<noteq> 0"
  shows "block_of s0 ch (Suc b) = block_of s0 ch b + 1"
  using next_in_cluster(1) [OF _ assms(2)] assms(1) by (simp add: block_of_def file_on_disk_def algebra_simps)

lemma ReadBlock_advance:
  assumes "file_on_disk D s0 ch" and "at_block D s0 ch b 1 s" and "Suc b < unat (ClusterSize s0) * length ch"
  shows "at_block D s0 ch (Suc b) 0 (ReadBlock (all_read D) (of_nat (Suc b)) s)"
proof -
  let ?S = "unat (ClusterSize s0)"
  note f = at_block_facts [OF assms(1,2)]
  have ofs: "of_nat (Suc b) + current_block s = block_of s0 ch b + 1" using f(4) by (simp add: algebra_simps)
  have cluster: "BlockToCluster s (block_of s0 ch b + 1) = (if Suc (b mod ?S) < ?S then current_cluster s else current_cluster s + 1)"
    using BlockToCluster_block [OF assms(1) f(1), of "Suc (b mod ?S)"] f(3) assms(2)
    by (simp add: block_of_def at_block_def f(5) algebra_simps)
  show ?thesis
  proof (cases "Suc b mod ?S = 0")
    case False
    note n = next_in_cluster(1) [OF f(2) False]
    then have "Suc (b mod ?S) < ?S" using mod_less_divisor [OF f(2), of "Suc b"] by simp
    then have "ReadBlock (all_read D) (of_nat (Suc b)) s = s\<lparr>mdata_buffer := D (block_of s0 ch b + 1), pass_block := block_of s0 ch b + 1\<rparr>"
      using assms(2) cluster by (simp only: ReadBlock_def Let_def ofs) (simp add: fetch_at at_block_def)
    then show ?thesis using assms(2,3) n block_of_next [OF assms(1) False] f(4)
      by (simp add: at_block_def same_volume_def algebra_simps)
  next
    case True
    note n = next_in_cluster(2) [OF f(2) True]
    let ?i = "b div ?S"
    have i: "Suc ?i < length ch" using assms(3) n f(2) by (metis less_mult_imp_div_less mult.commute)
    then have entry: "fat_entry D s0 (ch ! ?i) = ch ! Suc ?i" and next_cluster: "unat (ch ! Suc ?i) < 0x0FFFFFFF"
      using assms(1) by (auto simp: file_on_disk_def)
    have state: "same_volume s0 s" "Segment s \<noteq> 0 \<longrightarrow> block_buffer s = D (Segment s)" "current_cluster s = ch ! ?i"
      "pass_block s = block_of s0 ch b + 1" "mdata_buffer s = D (pass_block s)"
      using assms(2) by (auto simp: at_block_def)
    obtain u where u: "NextCluster (all_read D) (ch ! ?i) s = (ch ! Suc ?i, u)" "same_volume s0 u"
        "Segment u \<noteq> 0 \<longrightarrow> block_buffer u = D (Segment u)" "pass_block u = pass_block s" "mdata_buffer u = mdata_buffer s"
      using NextCluster_entry [OF assms(1) f(1) state(1,2)] entry by metis
    let ?x = "ClusterToBlock s0 (ch ! Suc ?i)"
    have "\<not> ch ! Suc ?i \<ge> 0x0FFFFFFF" using next_cluster by (simp add: word_le_nat_alt)
    then have run: "ReadBlock (all_read D) (of_nat (Suc b)) s = fetch (all_read D) ?x
        (u\<lparr>current_cluster := ch ! Suc ?i, current_block := ?x - of_nat (Suc b)\<rparr>)"
      using cluster n state u(1) same_volume_eqs(1) [OF u(2)]
      by (simp only: ReadBlock_def Let_def ofs) simp
    have "block_of s0 ch (Suc b) = ?x" using n True by (simp add: block_of_def)
    then show ?thesis unfolding run using u state assms(3) n
      by (subst fetch_at) (auto simp: at_block_def same_volume_def)
  qed
qed

text \<open>What \<open>get_mpg\<close> delivers at a position: the rest of its block, and bytes of the block behind that one on the disk.\<close>

definition window :: "(u32 \<Rightarrow> mem) \<Rightarrow> fat32 \<Rightarrow> u32 list \<Rightarrow> nat \<Rightarrow> mem" where
  "window D s ch p =
     (let b = block_of s ch (p div 512) in drop (p mod 512) (D b) @ take (p mod 512) (D (b + 1)))"

lemma position_words:
  assumes "p < 2 ^ 32"
  shows "of_nat p div 512 = (of_nat (p div 512) :: u32)" "of_nat p mod 512 = (of_nat (p mod 512) :: u32)"
    "unat (of_nat (p mod 512) :: u32) = p mod 512"
    "unat (512 - of_nat (p mod 512) :: u32) = 512 - p mod 512"
proof -
  have p: "unat (of_nat p :: u32) = p" using assms by (simp add: unat_of_nat take_bit_nat_eq_self)
  have small: "unat (of_nat m :: u32) = m" if "m \<le> p" for m
    using that assms by (simp add: unat_of_nat take_bit_nat_eq_self)
  show "of_nat p div 512 = (of_nat (p div 512) :: u32)"
    by (rule word_unat_eq_iff [THEN iffD2]) (simp add: unat_div p small)
  show "of_nat p mod 512 = (of_nat (p mod 512) :: u32)"
    by (rule word_unat_eq_iff [THEN iffD2]) (simp add: unat_mod p small)
  show m: "unat (of_nat (p mod 512) :: u32) = p mod 512" by (simp add: small)
  have "of_nat (p mod 512) \<le> (512 :: u32)" using m by (simp add: word_le_nat_alt less_imp_le)
  then show "unat (512 - of_nat (p mod 512) :: u32) = 512 - p mod 512" using m by (simp add: unat_sub)
qed

lemma get_mpg_window:
  assumes "file_on_disk D s0 ch" and "at_block D s0 ch (p div 512) 0 (ReadBlock (all_read D) (of_nat (p div 512)) s)"
    and "p < 2 ^ 32" and "\<And>b. length (D b) = 512"
  shows "\<exists>t. get_mpg (all_read D) (of_nat p) 512 s = Some (window D s0 ch p, t)
    \<and> at_block D s0 ch (p div 512) (if p mod 512 = 0 then 0 else 1) t"
proof -
  note w = position_words [OF assms(3)]
  let ?s = "ReadBlock (all_read D) (of_nat (p div 512)) s" and ?b = "block_of s0 ch (p div 512)"
  have m: "mdata_buffer ?s = D ?b" using assms(2) by (simp add: at_block_def)
  have sub: "512 - (512 - of_nat (p mod 512)) = (of_nat (p mod 512) :: u32)" by simp
  show ?thesis
  proof (cases "p mod 512 = 0")
    case True
    then have "get_mpg (all_read D) (of_nat p) 512 s = Some (window D s0 ch p, ?s)"
      using m by (simp add: get_mpg_def Let_def w(1,2) window_def)
    with assms(2) True show ?thesis by simp
  next
    case False
    let ?t = "ReadBlock (all_read D) (of_nat (p div 512) + 1) ?s"
    have t: "at_block D s0 ch (p div 512) 1 ?t" by (rule ReadBlock_behind [OF assms(1,2)])
    then have mt: "mdata_buffer ?t = D (?b + 1)" by (simp add: at_block_def)
    have "\<not> 512 < 512 - (of_nat (p mod 512) :: u32)" "of_nat (p mod 512) \<noteq> (0 :: u32)" "\<not> of_nat (p mod 512) > (512 :: u32)"
      using w(3,4) False by (auto simp: word_less_nat_alt simp flip: unat_eq_zero)
    then have "get_mpg (all_read D) (of_nat p) 512 s = Some (window D s0 ch p, ?t)"
      using m mt by (simp add: get_mpg_def Let_def w window_def sub)
    with t False show ?thesis by simp
  qed
qed

text \<open>
  The positions of the decoder: each one in the block of the one before or in the next block, and apart from the first one
  never at the start of a block.
\<close>

fun positions_from :: "nat \<Rightarrow> nat \<Rightarrow> nat list \<Rightarrow> bool" where
  "positions_from n p [] = True"
| "positions_from n p (q # qs) \<longleftrightarrow> p \<le> q \<and> q div 512 \<le> p div 512 + (if p mod 512 = 0 then 0 else 1)
     \<and> q mod 512 \<noteq> 0 \<and> q div 512 < n \<and> q < 2 ^ 32 \<and> positions_from n q qs"

lemma get_all_from:
  assumes "file_on_disk D s0 ch" and "\<And>b. length (D b) = 512"
    and "at_block D s0 ch (p div 512) (if p mod 512 = 0 then 0 else 1) s"
    and "positions_from (unat (ClusterSize s0) * length ch) p ps"
  shows "get_all (all_read D) (map of_nat ps) s = Some (map (window D s0 ch) ps)"
  using assms(3,4)
proof (induction ps arbitrary: p s)
  case (Cons q qs)
  have "at_block D s0 ch (q div 512) 0 (ReadBlock (all_read D) (of_nat (q div 512)) s)"
  proof (cases "q div 512 = p div 512")
    case True
    then show ?thesis using ReadBlock_same [OF assms(1) Cons.prems(1)] by simp
  next
    case False
    then have "q div 512 = Suc (p div 512)" "p mod 512 \<noteq> 0"
      using Cons.prems(2) div_le_mono [of p q 512] by (auto split: if_splits)
    then show ?thesis using ReadBlock_advance [OF assms(1)] Cons.prems by simp
  qed
  from get_mpg_window [OF assms(1) this _ assms(2)] Cons.prems(2)
  obtain t where t: "get_mpg (all_read D) (of_nat q) 512 s = Some (window D s0 ch q, t)"
    "at_block D s0 ch (q div 512) (if q mod 512 = 0 then 0 else 1) t" by auto
  from Cons.IH [OF t(2)] Cons.prems(2) show ?case by (simp add: t(1))
qed simp

lemma OpenFile_first:
  assumes "file_on_disk D s ch"
  shows "at_block D s ch 0 0 (ReadBlock (all_read D) 0 (OpenFile (ch ! 0) s))"
proof -
  let ?c = "ch ! 0"
  have c: "?c \<in> set ch" "0 < unat (ClusterSize s)" "0 < unat (ReferenceClusterZero s)" "0 < length ch"
    using assms by (auto simp: file_on_disk_def)
  have pos: "0 < unat (ClusterToBlock s ?c)" using unat_block(1) [OF assms c(1), of 0] c(3) by simp
  then have "ReadBlock (all_read D) 0 (OpenFile ?c s) = (OpenFile ?c s)\<lparr>mdata_buffer := D (ClusterToBlock s ?c), pass_block := ClusterToBlock s ?c\<rparr>"
    by (auto simp: ReadBlock_def Let_def OpenFile_def fetch_def all_read_def word_le_nat_alt unat_eq_zero)
  then show ?thesis using c by (simp add: at_block_def same_volume_def OpenFile_def block_of_def)
qed

definition file_content :: "(u32 \<Rightarrow> mem) \<Rightarrow> fat32 \<Rightarrow> u32 list \<Rightarrow> mem" where
  "file_content D s ch = concat (map (\<lambda>b. D (block_of s ch b)) [0..<unat (ClusterSize s) * length ch])"

lemma drop_blocks:
  assumes "\<And>b. length (f b) = 512" and "b \<le> n"
  shows "drop (512 * b) (concat (map f [0..<n])) = concat (map f [b..<n])"
  using assms(2)
proof (induction b)
  case (Suc b)
  then have "drop (512 * b) (concat (map f [0..<n])) = f b @ concat (map f [Suc b..<n])"
    by (simp add: upt_conv_Cons)
  then have "drop 512 (drop (512 * b) (concat (map f [0..<n]))) = concat (map f [Suc b..<n])"
    by (simp add: assms(1))
  then show ?case by (simp add: add.commute)
qed simp

lemma content_window:
  assumes "\<And>b. length (D b) = 512" and "Suc (p div 512) < unat (ClusterSize s) * length ch"
  shows "take 512 (drop p (file_content D s ch)) = drop (p mod 512) (D (block_of s ch (p div 512)))
    @ take (p mod 512) (D (block_of s ch (Suc (p div 512))))"
proof -
  let ?n = "unat (ClusterSize s) * length ch" and ?f = "\<lambda>b. D (block_of s ch b)"
  have "drop (512 * (p div 512)) (file_content D s ch) = concat (map ?f [p div 512..<?n])"
    unfolding file_content_def by (rule drop_blocks) (use assms in simp_all)
  also have "\<dots> = ?f (p div 512) @ ?f (Suc (p div 512)) @ concat (map ?f [Suc (Suc (p div 512))..<?n])"
    using assms(2) by (simp add: upt_conv_Cons)
  finally have "drop (p mod 512) (drop (512 * (p div 512)) (file_content D s ch))
      = drop (p mod 512) (?f (p div 512)) @ ?f (Suc (p div 512)) @ concat (map ?f [Suc (Suc (p div 512))..<?n])"
    using assms(1) by simp
  moreover have "drop (p mod 512) (drop (512 * (p div 512)) (file_content D s ch)) = drop p (file_content D s ch)"
    by simp
  ultimately show ?thesis using assms(1) by simp
qed

text \<open>The block behind block \<open>b\<close> on the disk is the next one of the file.\<close>

definition adjacent :: "fat32 \<Rightarrow> u32 list \<Rightarrow> nat \<Rightarrow> bool" where
  "adjacent s ch b \<longleftrightarrow> Suc b mod unat (ClusterSize s) \<noteq> 0
     \<or> ch ! (Suc b div unat (ClusterSize s)) = ch ! (b div unat (ClusterSize s)) + 1"

lemma block_of_adjacent:
  assumes "file_on_disk D s ch" and "adjacent s ch b"
  shows "block_of s ch (Suc b) = block_of s ch b + 1"
proof (cases "Suc b mod unat (ClusterSize s) = 0")
  case False
  then show ?thesis by (rule block_of_next [OF assms(1)])
next
  case True
  have S: "0 < unat (ClusterSize s)" using assms(1) by (simp add: file_on_disk_def)
  have n: "Suc (b mod unat (ClusterSize s)) = unat (ClusterSize s)" using next_in_cluster(2) [OF S True] by simp
  have "of_nat (Suc (b mod unat (ClusterSize s))) = ClusterSize s" unfolding n by simp
  then have "of_nat (b mod unat (ClusterSize s)) = ClusterSize s - 1" by (simp add: algebra_simps eq_diff_eq)
  then show ?thesis using assms(2) True by (simp add: block_of_def adjacent_def ClusterToBlock_def algebra_simps)
qed


text \<open>Two disks: block 1 holds the table, and each other block is filled with its number.\<close>

definition example_volume :: fat32 where
  "example_volume = FAT32RO\<lparr>ClusterSize := 1, ReferenceClusterZero := 2, FatTable1 := 1\<rparr>"

definition example_fat :: "u8 \<Rightarrow> u32 \<Rightarrow> mem" where
  "example_fat n b = (if b = 1 then replicate 8 0 @ [n, 0, 0, 0] @ replicate 500 0 else replicate 512 (ucast b))"

lemma example_files:
  assumes "n = 3 \<or> n = (5 :: u8)"
  shows "file_on_disk (example_fat n) example_volume [2, ucast n]" "length (example_fat n b) = 512"
  using assms by (auto simp: file_on_disk_def example_volume_def FAT32RO_def fat_entry_def example_fat_def word32_def
      nth_append le32_def less_Suc_eq)

lemma example_file_on_disk:
  "file_on_disk (example_fat 3) example_volume [2, 3]" "file_on_disk (example_fat 5) example_volume [2, 5]"
  "length (example_fat 3 b) = 512" "length (example_fat 5 b) = 512"
  using example_files [of 3] example_files [of 5] by simp_all


text \<open>
  C37: At the first reading of a cluster that does not follow its predecessor on the disk, the decoder gets bytes of the
  block that happens to lie behind the old cluster, and not those of the file.
\<close>

theorem fragment_start_wrong:
  assumes "file_on_disk D s ch" and "\<And>b. length (D b) = 512"
    and "positions_from (unat (ClusterSize s) * length ch) 0 (ps @ [p])"
    and "Suc (p div 512) < unat (ClusterSize s) * length ch"
    and "D (block_of s ch (Suc (p div 512))) ! 0 \<noteq> D (block_of s ch (p div 512) + 1) ! 0"
  shows "\<exists>ds. get_all (all_read D) (0 # map of_nat (ps @ [p])) (OpenFile (ch ! 0) s) = Some ds
    \<and> last ds \<noteq> take 512 (drop p (file_content D s ch))"
proof -
  let ?w = "window D s ch p"
  obtain t where t: "get_mpg (all_read D) 0 512 (OpenFile (ch ! 0) s) = Some (window D s ch 0, t)" "at_block D s ch 0 0 t"
    using get_mpg_window [OF assms(1), of 0 "OpenFile (ch ! 0) s"] OpenFile_first [OF assms(1)] assms(2) by auto
  have "positions_from n q (ps @ [p]) \<Longrightarrow> p mod 512 \<noteq> 0" for n q by (induction ps arbitrary: q) auto
  then have "0 < p mod 512" using assms(3) by auto
  then have "?w ! (512 - p mod 512) = D (block_of s ch (p div 512) + 1) ! 0"
    "take 512 (drop p (file_content D s ch)) ! (512 - p mod 512) = D (block_of s ch (Suc (p div 512))) ! 0"
    using content_window [OF assms(2,4)] assms(2) by (simp_all add: window_def Let_def nth_append)
  with assms(5) have "?w \<noteq> take 512 (drop p (file_content D s ch))" by auto
  then show ?thesis using get_all_from [OF assms(1,2), of 0 t "ps @ [p]"] t assms(3) by simp
qed

theorem fragment_start_wrong_witness:
  "\<exists>ds. get_all (all_read (example_fat 5)) [0, 100] (OpenFile 2 example_volume) = Some ds
    \<and> last ds \<noteq> take 512 (drop 100 (file_content (example_fat 5) example_volume [2, 5]))"
proof -
  have pos: "positions_from (unat (ClusterSize example_volume) * length [2 :: u32, 5]) 0 ([] @ [100])"
    by (simp add: example_volume_def FAT32RO_def)
  have b: "block_of example_volume [2, 5] 0 = 2" "block_of example_volume [2, 5] 1 = 5" "unat (ClusterSize example_volume) = 1"
    by (simp_all add: block_of_def ClusterToBlock_def example_volume_def FAT32RO_def)
  have "D (block_of example_volume [2, 5] (Suc (100 div 512))) ! 0 \<noteq> D (block_of example_volume [2, 5] (100 div 512) + 1) ! 0"
    if "D = example_fat 5" for D using b(1,2) by (simp add: that example_fat_def)
  from fragment_start_wrong [OF example_file_on_disk(2,4) pos _ this] b(3) show ?thesis by simp
qed

section \<open>A directory\<close>

text \<open>The files that an entry of a flat directory opens.\<close>

definition entry_files :: "mem \<Rightarrow> opened" where
  "entry_files e = (if de_Attributes e \<noteq> 0x0F \<and> de_Filename e ! 0 \<noteq> 0xE5 \<and> ismp3file (osname e)
     then [(de_cluster e, de_File_Size e)] else [])"

definition end_entry :: "mem \<Rightarrow> bool" where
  "end_entry e \<longleftrightarrow> de_Attributes e \<noteq> 0x0F \<and> de_Filename e ! 0 \<noteq> 0xE5 \<and> osname e = []"

lemma entries_loop_flat:
  assumes "\<forall>e \<in> set es. \<not> de_Subdirectory e"
  shows "entries_loop dir es = Some (list_all (\<lambda>e. \<not> end_entry e) es, concat (map entry_files (takeWhile (\<lambda>e. \<not> end_entry e) es)))"
  using assms by (induction es) (auto simp: ReadEntry_def Let_def entry_files_def end_entry_def ismp3file_def)

lemma sectors_loop_flat:
  assumes "\<forall>i < n. \<forall>e \<in> set (dir_entries (D (addr + of_nat i))). \<not> de_Subdirectory e"
  shows "sectors_loop dir (all_read D) addr n = Some (True, concat (map entry_files
    (takeWhile (\<lambda>e. \<not> end_entry e) (concat (map (\<lambda>i. dir_entries (D (addr + of_nat i))) [0..<n])))))"
  using assms
proof (induction n arbitrary: addr)
  case (Suc n)
  have head: "\<forall>e \<in> set (dir_entries (D addr)). \<not> de_Subdirectory e" using Suc.prems by force
  have "\<forall>i < n. \<forall>e \<in> set (dir_entries (D (addr + 1 + of_nat i))). \<not> de_Subdirectory e"
    using Suc.prems by (metis Suc_less_eq add.assoc of_nat_Suc)
  note tail = Suc.IH [OF this]
  have split: "concat (map (\<lambda>i. dir_entries (D (addr + of_nat i))) [0..<Suc n])
      = dir_entries (D addr) @ concat (map (\<lambda>i. dir_entries (D (addr + 1 + of_nat i))) [0..<n])"
    by (simp add: upt_conv_Cons map_Suc_upt [symmetric] comp_def add.assoc del: upt_Suc)
  show ?case
  proof (cases "list_all (\<lambda>e. \<not> end_entry e) (dir_entries (D addr))")
    case True
    then show ?thesis unfolding split
      by (simp add: all_read_def [of D] entries_loop_flat [OF head] tail [unfolded all_read_def] takeWhile_append2 list_all_iff
          takeWhile_eq_all_conv [THEN iffD2])
  next
    case False
    then obtain e where "e \<in> set (dir_entries (D addr))" "end_entry e" by (auto simp: list_all_iff)
    with False show ?thesis unfolding split
      by (simp add: all_read_def [of D] entries_loop_flat [OF head] takeWhile_append1 [of e])
  qed
qed simp

text \<open>The name test on a name of the usual form: the extension is \<open>MP3\<close>.\<close>

lemma ismp3_name:
  assumes "0x2E \<notin> set n" and "0 \<notin> set n"
  shows "ismp3_loop (n @ r) 0 = ismp3_loop r 0"
  using assms by (induction n) auto

lemma ismp3file_ext:
  assumes "0x2E \<notin> set (de_Filename e) \<union> set (de_Extension e)" and "0 \<notin> set (de_Filename e) \<union> set (de_Extension e)"
  shows "ismp3file (osname e) = (right_space_ignore (de_Extension e) = [0x4D, 0x50, 0x33])"
proof -
  let ?n = "right_space_ignore (de_Filename e)" and ?x = "right_space_ignore (de_Extension e)"
  have sub: "set (right_space_ignore l) \<subseteq> set l" for l
    by (auto simp: right_space_ignore_def dest: set_dropWhileD)
  have n: "0x2E \<notin> set ?n" "0 \<notin> set ?n" and x: "0x2E \<notin> set ?x" "0 \<notin> set ?x"
    using assms sub by blast+
  have len: "length ?x \<le> 3"
    using length_dropWhile_le [of "\<lambda>c. c = 0x20" "rev (de_Extension e)"] by (simp add: right_space_ignore_def de_Extension_def)
  have os: "osname e = (if ?x = [] then ?n else ?n @ [0x2E] @ ?x)"
    using n x by (auto simp: osname_def Let_def takeWhile_eq_all_conv)
  have "ismp3_loop ?x 1 = (?x = [0x4D, 0x50, 0x33])"
  proof -
    consider "?x = []" | a where "?x = [a]" | a b where "?x = [a, b]" | a b c where "?x = [a, b, c]"
      using len by (cases ?x rule: remdups_adj.cases) (auto simp: eval_nat_numeral le_Suc_eq length_Suc_conv)
    then show ?thesis using x by cases (auto simp: eval_nat_numeral)
  qed
  then show ?thesis using ismp3_name [OF n, of "[]"] ismp3_name [OF n, of "[0x2E] @ ?x"] by (auto simp: ismp3file_def os)
qed

lemma concat_map_if:
  "\<forall>e \<in> set xs. f e = (if P e then [g e] else []) \<Longrightarrow> concat (map f xs) = map g (filter P xs)"
  by (induction xs) auto


definition example_directory :: mem where
  "example_directory =
     map of_char ''SONG    MP3'' @ [0x20] @ replicate 14 0 @ [5, 0, 0, 4, 0, 0] @
     0xE5 # map of_char ''LD     MP3'' @ [0x20] @ replicate 20 0 @
     map of_char ''NOTES   TXT'' @ [0x20] @ replicate 20 0 @ replicate 416 0"


section \<open>Directories that contain themselves\<close>

text \<open>
  A directory that an entry of another name than the two dots links to from inside itself exhausts the stack,
  however large it is: the recursion does not remember where it has been.
\<close>

theorem directory_loop:
  assumes "dir_entries (D (ClusterToBlock s c)) = e # es" and "0 < unat (ClusterSize s)"
    and "de_Attributes e \<noteq> 0x0F" and "de_Filename e ! 0 \<noteq> 0xE5" and "de_Subdirectory e" and "de_cluster e = c"
    and "osname e \<noteq> []" and "osname e \<noteq> [0x2E]" and "osname e \<noteq> [0x2E, 0x2E]"
  shows "ReadDir depth (all_read D) s c = None"
proof (induction depth)
  case (Suc depth)
  obtain n where "unat (ClusterSize s) = Suc n" using assms(2) gr0_conv_Suc by blast
  moreover have "ReadEntry (ReadDir depth (all_read D) s) e = None"
    using Suc.IH assms(3-9) by (simp add: ReadEntry_def Let_def)
  ultimately show ?case by (simp add: all_read_def [of D] assms(1))
qed simp

definition loop_directory :: mem where
  "loop_directory = map of_char ''DIR        '' @ [0x10] @ replicate 14 0 @ [2, 0] @ replicate 484 0"

theorem directory_loop_witness:
  "ReadDir depth (all_read (\<lambda>_. loop_directory)) example_volume 2 = None"
proof -
  let ?e = "map of_char ''DIR        '' @ [0x10] @ replicate 14 0 @ [2, 0] @ replicate 4 0 :: mem"
  have "take 32 loop_directory = ?e" by (simp add: loop_directory_def)
  moreover have "dir_entries loop_directory = take 32 loop_directory # tl (dir_entries loop_directory)"
    by (simp add: dir_entries_def upt_conv_Cons)
  ultimately have "dir_entries loop_directory = ?e # tl (dir_entries loop_directory)" by (simp only:)
  moreover have "de_Attributes ?e \<noteq> 0x0F \<and> de_Filename ?e ! 0 \<noteq> 0xE5 \<and> de_Subdirectory ?e \<and> de_cluster ?e = 2
      \<and> osname ?e \<noteq> [] \<and> osname ?e \<noteq> [0x2E] \<and> osname ?e \<noteq> [0x2E, 0x2E]"
    by code_simp
  moreover have "0 < unat (ClusterSize example_volume)" by (simp add: example_volume_def FAT32RO_def)
  ultimately show ?thesis by (intro directory_loop [where e = ?e and es = "tl (dir_entries loop_directory)"]) blast+
qed

end
