(* ===== verification/Spec2Isabelle.thy ===== *)
theory Spec2Isabelle
  imports Keys Image Flash Writer Fat12 Msc MscSpec Update UsbDevice UsbDescr UsbDeviceSpec UsbDeviceSafe UsbBoot GsmArith GsmPack GsmFrames GsmLpc GsmShort GsmRpe
    GsmLong GsmCoder GsmSync GsmDecode Fifo Serial Usart PrintOut KeyServer Fat32
begin

text \<open>
  \<^bold>\<open>Boot loader and speech codec of the STM32F4 secure mass storage boot loader.\<close>

  The boot loader shows the flash of a microcontroller to a PC as a small USB disk.  The PC copies an encrypted image
  onto it; the boot loader decrypts the packets with a key derived from the identification of the chip and a secret,
  writes them to flash, and starts the image only when its descriptor is consistent.  A server prepares the image
  (\<open>FwCheck\<close>), encrypts it and delivers it for the key in the link that the disk shows.  The programs that are loaded
  this way carry a GSM 06.10 speech codec, a serial class, a serial port, formatted output and a reader of memory cards.

  \<^bold>\<open>How the parts interact.\<close>  \<open>msclass.cpp\<close> receives packets of 64 bytes on the bulk endpoint, decodes SCSI
  commands and calls \<open>CmdRead\<close> and \<open>CmdWrite\<close> of a \<open>StorageBase\<close>; \<open>fat12emul.cpp\<close> is that storage: it answers the first
  four sectors from memory and passes the others to an \<open>ImageWriter\<close>, decrypting each packet that is written
  (\<open>tea.c\<close>, \<open>keys.c\<close>); \<open>flashwriter.cpp\<close> erases and programs the sectors of the chip through \<open>flash.cpp\<close>, and
  \<open>imagewriter.cpp\<close> keeps the same bytes in memory; \<open>checks.cpp\<close> decides whether to start the image.
  The commands reach the class through the control endpoint of \<open>usbdevice.cpp\<close>.

  \<^bold>\<open>Theories.\<close>
  \<^item> \<open>Prelude\<close>: machine integers, memory as a list of bytes with checked access, shared lemmas.
  \<^item> \<open>Tea\<close> (\<open>src/src/tea.c\<close>): one round, the rounds, the loop over a block of memory; round trip, packet-wise decryption,
    and what a length that is no multiple of eight does.
  \<^item> \<open>Keys\<close> (\<open>src/src/keys.c\<close>): secret keys, identification, derived keys; the server recovers the key of the loader.
  \<^item> \<open>Image\<close> (\<open>checks.cpp\<close>, \<open>fwcheck.cpp\<close>): the descriptor, the completion of a file by the server and the check before
    the start; a completed image is accepted, a changed byte is refused, an oversized length reads out of the flash.
  \<^item> \<open>Flash\<close> (\<open>flash.cpp\<close>): status, unlocking, erasing and programming with an explicit hardware parameter whose
    documented behaviour is \<open>flash_contract\<close>, shown to hold of a concrete chip.
  \<^item> \<open>Storage\<close> (\<open>storagebase.h\<close>): the interfaces, as locales, between the mass storage class, the disk and the image
    store.  \<open>Writer\<close> and \<open>Fat12\<close> interpret them on the models of the code.
  \<^item> \<open>Writer\<close> (\<open>flashwriter.cpp\<close>, \<open>imagewriter.cpp\<close>): erasing the sectors of a block once, programming it by half words;
    both versions are providers of the same interface.
  \<^item> \<open>Fat12\<close> (\<open>fat12emul.cpp\<close>): the prepared volume, entries of 12 bits, directories, the cluster chain of the image file,
    reading and writing of blocks.
  \<^item> \<open>Msc\<close> (\<open>msclass.cpp\<close>): wrappers, stages and every SCSI command; \<open>MscSpec\<close>: the automaton of the bulk stages as an
    inductive relation that the class refines, sense data and error replies, and complete READ and WRITE commands.
  \<^item> \<open>Update\<close>: the parts together.  A sealed and encrypted image that is written through the USB commands lies decrypted in
    the flash and passes the boot check; what was written is read back.
  \<^item> \<open>UsbDevice\<close> (\<open>usbdevice.cpp\<close>, packet ring of \<open>usbhw.cpp\<close>): the requests on the control endpoint; \<open>UsbDescr\<close>: the
    generator of the descriptors; \<open>UsbDeviceSpec\<close>: what the requests do, over descriptors given as data (control reads,
    configuration, address, halt feature); \<open>UsbDeviceSafe\<close>: the invariant under all events and the requests that leave it;
    \<open>UsbBoot\<close>: the boot loader's own device, generator, control endpoint and mass storage class together.
  \<^item> \<open>GsmArith\<close> (\<open>add.c\<close>, \<open>private.h\<close>): saturating arithmetic, normalisation, division, the state of the codec.
  \<^item> \<open>GsmPack\<close> and \<open>GsmFrames\<close> (\<open>gsm_implode.c\<close>, \<open>gsm_explode.c\<close>, \<open>gsm_encode.c\<close>, \<open>gsm_decode.c\<close>): the bit layouts as programs of
    field operations; round trips of both formats and the canonical form of a frame.
  \<^item> \<open>GsmLpc\<close>, \<open>GsmShort\<close>, \<open>GsmLong\<close>, \<open>GsmRpe\<close> (\<open>preprocess.c\<close>, \<open>lpc.c\<close>, \<open>short_term.c\<close>, \<open>long_term.c\<close>, \<open>rpe.c\<close>): the stages of the
    coder and of the decoder, with the bounds that keep every intermediate value in range and the equivalence of the
    optimised routines with their definitions.
  \<^item> \<open>GsmCoder\<close>, \<open>GsmSync\<close>, \<open>GsmDecode\<close> (\<open>code.c\<close>, \<open>decode.c\<close>): the whole coder and decoder; a coder and a decoder that
    exchange frames keep the same predictor state over any session, every parameter the coder sends fits its field, and the
    decoder handles every frame of bytes.
  \<^item> \<open>Fifo\<close> (\<open>fifo.h\<close>): the ring buffer as a bounded queue (a locale that the users of a queue rest on), and its two
    methods as threads that take single steps, where the counter is the only thing both of them write.
  \<^item> \<open>Serial\<close> (\<open>cdclass.cpp\<close>) and \<open>Usart\<close> (\<open>usart.cpp\<close>): the serial class over USB and the serial port; each hands over what
    it accepted in order under any sequence of calls and interrupts.  Line requests, baud rate, table of instances.
  \<^item> \<open>PrintOut\<close> (\<open>print.cpp\<close>): formatted output over a layer that may be full; the layer is a locale, interpreted on the
    serial port and on the serial class.  Every number can be read back from its text.
  \<^item> \<open>KeyServer\<close> (\<open>work/http\<close>): the request line and the path, the table of devices and images, the session that the
    protocol intends, and what the server does when each connection is a process of its own.
  \<^item> \<open>Fat32\<close> (\<open>fat32ro.cpp\<close>): recognising the volume, the walk through the directories and reading of a file with the
    cached table block; where the result is the content of the file, and where it is not.

  \<^bold>\<open>Conventions.\<close>  Machine words are \<open>u8\<close>, \<open>u16\<close> and \<open>u32\<close> and wrap.  The 16 and 32 bit signed values of the codec are
  integers; every store writes the wrap-around out with \<open>s16\<close> or \<open>s32\<close>, and the lemmas show where it never acts.  Buffers
  are lists of bytes; an access out of bounds is \<open>None\<close> of the option type.  Peripheral calls of the USB class are a list
  of events in the order in which the code makes them.

  \<^bold>\<open>Loops.\<close>  Loops over an index are structural recursion or folds.  The polling loop of the flash driver is a
  \<open>partial_function\<close> that is \<open>None\<close> on a chip that stays busy; the contract of the chip says that it becomes ready after
  some number of polls, and the properties of the driver and of everything above it prove that the calls return.  The mantissa
  loop of the residual coder is a \<open>partial_function\<close> too; the property of the residual coder proves that it returns for
  every input the coder can produce.  The chain of clusters of a volume of 64 clusters is followed with fuel 64, which every
  chain without a cycle fits into.

  \<^bold>\<open>Not modelled.\<close>  Drivers of the USB core and of other peripherals, start-up code and linker layout (registers
  and assembly); the sockets of the key server and the text of its pages; the mains of the demonstration programs and
  their hardware access; output of messages; the descriptors of the serial class on the PC; the floating point variants and the
  \<open>LTP_CUT\<close> variant of the codec, which the repository does not compile; libmad and the Linux kernel driver, which are
  copies of third-party code.
\<close>

end
